(* ===== verification/Uxen_Prelude.thy ===== *)
theory Uxen_Prelude
  imports Main "HOL-Library.Word"
begin

text \<open>
  Shared vocabulary of the uXen development: machine integers, error codes, little-endian byte
  encodings, the 16-byte rounding of the V4V protocol, and the generic facts about lists that
  the component theories use.

  Unsigned 32-bit quantities that are only added, subtracted and compared (lengths, offsets,
  ring pointers) are natural numbers below \<open>2 ^ 32\<close> with the wrap-around written out by \<open>u32\<close>;
  signed 32-bit quantities are integers with the wrap-around written out by \<open>s32\<close>.  Quantities
  that are hashed, masked or compared for identity (ports, domain identifiers, interrupt
  registers, frame numbers) are machine words.
\<close>

named_theorems ring_simps \<open>facts about ring geometry\<close>
named_theorems mem_simps \<open>reads over writes of machine memory\<close>

section \<open>Types shared by the components\<close>

type_synonym byte = "8 word"
type_synonym domid = "16 word"
type_synonym u32w = "32 word"
type_synonym mfn = nat

text \<open>The error codes of \<open>xen/include/xen/errno.h\<close> that the modelled code returns.\<close>

datatype errno =
    EPERM | ENOENT | ESRCH | EAGAIN | ENOMEM | EFAULT | EEXIST | ENODEV | EINVAL | ENOSYS
  | EMSGSIZE | ECONNREFUSED | ECONTINUATION | ERETRY

section \<open>Fixed-width arithmetic\<close>

definition u32 :: "nat \<Rightarrow> nat" where
  "u32 n = n mod 2 ^ 32"

definition u32_sub :: "nat \<Rightarrow> nat \<Rightarrow> nat" where
  "u32_sub a b = u32 (a + 2 ^ 32 - b mod 2 ^ 32)"

definition s32 :: "int \<Rightarrow> int" where
  "s32 i = (i + 2 ^ 31) mod 2 ^ 32 - 2 ^ 31"

definition u64 :: "nat \<Rightarrow> nat" where
  "u64 n = n mod 2 ^ 64"

definition u64_of_int :: "int \<Rightarrow> nat" where
  "u64_of_int i = nat (i mod 2 ^ 64)"

definition u32_of_int :: "int \<Rightarrow> nat" where
  "u32_of_int i = nat (i mod 2 ^ 32)"

text \<open>The simplifier evaluates \<open>2 ^ 32\<close>, so the rules for it are stated on the numeral.\<close>

lemma u32_less: "u32 n < 2 ^ 32"
  by (simp add: u32_def)

lemma u32_less_num [simp]: "u32 n < 4294967296"
  by (simp add: u32_def)

lemma u64_less: "u64 n < 2 ^ 64"
  by (simp add: u64_def)

lemma u64_less_num [simp]: "u64 n < 18446744073709551616"
  by (simp add: u64_def)

lemma u64_id [simp]: "n < 18446744073709551616 \<Longrightarrow> u64 n = n"
  by (simp add: u64_def)

lemma u64_add_u64 [simp]: "u64 (u64 a + b) = u64 (a + b)"
  by (simp add: u64_def mod_add_left_eq)

lemma u32_id [simp]: "n < 4294967296 \<Longrightarrow> u32 n = n"
  by (simp add: u32_def)

lemma u32_sub_le: "b \<le> a \<Longrightarrow> a < 2 ^ 32 \<Longrightarrow> u32_sub a b = a - b"
  by (simp add: u32_sub_def u32_def mod_if le_mod_geq)

lemma s32_id [simp]: "- 2147483648 \<le> i \<Longrightarrow> i < 2147483648 \<Longrightarrow> s32 i = i"
  by (simp add: s32_def)

lemma s32_range: "- (2 ^ 31) \<le> s32 i \<and> s32 i < 2 ^ 31"
  by (simp add: s32_def)

lemma u64_of_int_nonneg [simp]: "0 \<le> i \<Longrightarrow> i < 18446744073709551616 \<Longrightarrow> u64_of_int i = nat i"
  by (simp add: u64_of_int_def)

lemma u32_of_int_nonneg [simp]: "0 \<le> i \<Longrightarrow> i < 4294967296 \<Longrightarrow> u32_of_int i = nat i"
  by (simp add: u32_of_int_def)

section \<open>Little-endian encodings\<close>

text \<open>The layout of the packed structures shared with guests is little-endian.\<close>

fun le_bytes :: "nat \<Rightarrow> nat \<Rightarrow> byte list" where
  "le_bytes 0 v = []"
| "le_bytes (Suc n) v = of_nat v # le_bytes n (v div 256)"

fun le_val :: "byte list \<Rightarrow> nat" where
  "le_val [] = 0"
| "le_val (b # bs) = unat b + 256 * le_val bs"

lemma length_le_bytes [simp]: "length (le_bytes n v) = n"
  by (induction n arbitrary: v) auto

lemma unat_of_nat_byte: "unat (of_nat v :: byte) = v mod 256"
  by (simp add: unat_of_nat)

lemma le_val_le_bytes: "le_val (le_bytes n v) = v mod 256 ^ n"
proof (induction n arbitrary: v)
  case 0
  then show ?case by simp
next
  case (Suc n)
  have "v mod 256 ^ Suc n = v mod 256 + 256 * (v div 256 mod 256 ^ n)"
    by (simp add: mod_mult2_eq)
  with Suc show ?case by (simp add: unat_of_nat_byte)
qed

lemma le_val_le_bytes4 [simp]: "v < 4294967296 \<Longrightarrow> le_val (le_bytes 4 v) = v"
  by (simp add: le_val_le_bytes)

lemma le_val_le_bytes2 [simp]: "v < 65536 \<Longrightarrow> le_val (le_bytes 2 v) = v"
  by (simp add: le_val_le_bytes)

lemma le_val_bound: "le_val bs < 256 ^ length bs"
proof (induction bs)
  case Nil
  then show ?case by simp
next
  case (Cons b bs)
  have "unat b < 256" using unsigned_less [of b, where ?'a = nat] by simp
  with Cons show ?case by simp
qed

section \<open>Lists\<close>

text \<open>Replace the first element satisfying \<open>P\<close>: a write through a pointer found by a scan.\<close>

fun update_first :: "('a \<Rightarrow> bool) \<Rightarrow> 'a \<Rightarrow> 'a list \<Rightarrow> 'a list" where
  "update_first P y [] = []"
| "update_first P y (x # xs) = (if P x then y # xs else x # update_first P y xs)"

text \<open>Unlink the first element satisfying \<open>P\<close>.\<close>

fun remove_first :: "('a \<Rightarrow> bool) \<Rightarrow> 'a list \<Rightarrow> 'a list" where
  "remove_first P [] = []"
| "remove_first P (x # xs) = (if P x then xs else x # remove_first P xs)"

lemma length_update_first [simp]: "length (update_first P y xs) = length xs"
  by (induction xs) auto

lemma set_update_first_subset: "set (update_first P y xs) \<subseteq> insert y (set xs)"
  by (induction xs) auto

lemma set_remove_first_subset: "set (remove_first P xs) \<subseteq> set xs"
  by (induction xs) auto

lemma map_update_first_key:
  "find P xs = Some x \<Longrightarrow> f y = f x \<Longrightarrow> map f (update_first P y xs) = map f xs"
  by (induction xs) (auto split: if_splits)

lemma find_update_first_same:
  "find P xs \<noteq> None \<Longrightarrow> P y \<Longrightarrow> find P (update_first P y xs) = Some y"
  by (induction xs) (auto split: if_splits)

lemma find_update_first_other:
  "(\<And>x. P x \<Longrightarrow> \<not> Q x) \<Longrightarrow> \<not> Q y \<Longrightarrow> find Q (update_first P y xs) = find Q xs"
  by (induction xs) auto

lemma find_remove_first_other:
  "(\<And>x. P x \<Longrightarrow> \<not> Q x) \<Longrightarrow> find Q (remove_first P xs) = find Q xs"
  by (induction xs) auto

lemma find_key_None_iff: "find (\<lambda>x. f x = k) xs = None \<longleftrightarrow> k \<notin> f ` set xs"
  by (induction xs) auto

lemma find_key_remove_first:
  "distinct (map f xs) \<Longrightarrow> find (\<lambda>x. f x = k) (remove_first (\<lambda>x. f x = k) xs) = None"
  by (induction xs) (auto simp: find_key_None_iff)

lemma distinct_remove_first: "distinct (map f xs) \<Longrightarrow> distinct (map f (remove_first P xs))"
  by (induction xs) (use set_remove_first_subset in \<open>fastforce+\<close>)

lemma find_Some_mem: "find P xs = Some x \<Longrightarrow> x \<in> set xs \<and> P x"
  by (induction xs) (auto split: if_splits)

text \<open>A sum result is unpacked in the order the code tests for errors.\<close>

lemma sum_case_Inr [simp]: "(case r of Inl e \<Rightarrow> Inl e | Inr x \<Rightarrow> Inr x) = r"
  by (cases r) auto

end
