(* ===== verification/Guest_Mem.thy ===== *)
theory Guest_Mem
  imports Uxen_Prelude
begin

text \<open>
  Machine memory and access to guest memory (\<open>__hvm_copy\<close> and the \<open>_errno\<close> wrappers of
  \<open>xen/arch/x86/hvm/hvm.c\<close> and \<open>xen/include/asm-x86/guest_access.h\<close>).

  Machine memory is byte addressed by frame and offset.  A guest buffer and the pages of a
  ring live in the same memory, so a sender's buffer may alias a ring page: every copy below
  reads the memory as it is when the copy happens.  What the page-table walk
  (\<open>paging_gva_to_gfn\<close>) and the physical-to-machine map (\<open>get_gfn_unshare\<close>) answer is a
  parameter, the record \<open>guest_env\<close>; both answer per page, and the answers do not change
  during one hypercall.
\<close>

section \<open>Machine memory\<close>

type_synonym mem = "mfn \<Rightarrow> nat \<Rightarrow> byte"

definition PAGE_SIZE :: nat where
  "PAGE_SIZE = 4096"

text \<open>\<open>memcpy\<close> to and from a mapped frame; the caller keeps \<open>off + length bs\<close> within the page.\<close>

definition page_write :: "mem \<Rightarrow> mfn \<Rightarrow> nat \<Rightarrow> byte list \<Rightarrow> mem" where
  "page_write mem m off bs =
     mem(m := (\<lambda>i. if off \<le> i \<and> i < off + length bs then bs ! (i - off) else mem m i))"

definition page_read :: "mem \<Rightarrow> mfn \<Rightarrow> nat \<Rightarrow> nat \<Rightarrow> byte list" where
  "page_read mem m off n = map (\<lambda>i. mem m (off + i)) [0..<n]"

lemma PAGE_SIZE_pos [simp]: "0 < PAGE_SIZE"
  by (simp add: PAGE_SIZE_def)

lemma length_page_read [simp]: "length (page_read mem m off n) = n"
  by (simp add: page_read_def)

lemma page_write_other [mem_simps]: "m' \<noteq> m \<Longrightarrow> page_write mem m off bs m' = mem m'"
  by (simp add: page_write_def)

lemma page_write_same [mem_simps]:
  "page_write mem m off bs m i =
     (if off \<le> i \<and> i < off + length bs then bs ! (i - off) else mem m i)"
  by (simp add: page_write_def)

lemma page_write_Nil [simp]: "page_write mem m off [] = mem"
  by (auto simp: page_write_def fun_eq_iff)

section \<open>Guest address translation\<close>

text \<open>
  \<open>PFEC_page_paged\<close> is the same value as \<open>PFEC_page_populate\<close> and \<open>HVMCOPY_gfn_paged_out\<close> the same as
  \<open>HVMCOPY_gfn_populate\<close>, so each pair is one constructor.
\<close>

datatype pfec = PFEC_page_populate | PFEC_page_shared | PFEC_fault

datatype gva_xlat = GFN nat | INVALID_GFN pfec

datatype p2m_entry =
    P2M_retry                          \<comment> \<open>\<open>__mfn_retry (mfn)\<close>: not populated yet\<close>
  | P2M_not_ram (p2m_mfn: mfn)
  | P2M_ram (p2m_mfn: mfn) (p2m_readonly: bool)

datatype hvm_copy_result =
    HVMCOPY_okay | HVMCOPY_bad_gva_to_gfn | HVMCOPY_bad_gfn_to_mfn
  | HVMCOPY_gfn_shared | HVMCOPY_gfn_populate

record guest_env =
  is_hvm_vcpu :: bool
  free_pages_needed :: bool                            \<comment> \<open>\<open>check_free_pages_needed (0)\<close>\<close>
  paging_gva_to_gfn :: "bool \<Rightarrow> nat \<Rightarrow> gva_xlat"       \<comment> \<open>write access?, page number\<close>
  get_gfn_unshare :: "nat \<Rightarrow> p2m_entry"
  guest_handle_okay :: "nat \<Rightarrow> nat \<Rightarrow> bool"            \<comment> \<open>address, number of bytes\<close>

text \<open>The translation at the head of the loop of \<open>__hvm_copy\<close>, for the page of one chunk.\<close>

definition hvm_xlate :: "guest_env \<Rightarrow> bool \<Rightarrow> nat \<Rightarrow> hvm_copy_result + (mfn \<times> bool)" where
  "hvm_xlate ge wr vfn =
     (case paging_gva_to_gfn ge wr vfn of
        INVALID_GFN PFEC_page_populate \<Rightarrow> Inl HVMCOPY_gfn_populate
      | INVALID_GFN PFEC_page_shared \<Rightarrow> Inl HVMCOPY_gfn_shared
      | INVALID_GFN PFEC_fault \<Rightarrow> Inl HVMCOPY_bad_gva_to_gfn
      | GFN gfn \<Rightarrow>
          (case get_gfn_unshare ge gfn of
             P2M_retry \<Rightarrow> Inl HVMCOPY_gfn_populate
           | P2M_not_ram _ \<Rightarrow> Inl HVMCOPY_bad_gfn_to_mfn
           | P2M_ram m ro \<Rightarrow> Inr (m, ro)))"

definition hvm_chunk :: "nat \<Rightarrow> nat \<Rightarrow> nat" where
  "hvm_chunk addr todo = min (PAGE_SIZE - addr mod PAGE_SIZE) todo"

lemma hvm_chunk_pos: "0 < todo \<Longrightarrow> 0 < hvm_chunk addr todo"
  by (simp add: hvm_chunk_def)

lemma hvm_chunk_le: "hvm_chunk addr todo \<le> todo"
  by (simp add: hvm_chunk_def)

section \<open>The copy loop\<close>

text \<open>
  \<open>__hvm_copy\<close> is one loop used in three ways: from the guest into a hypervisor variable, from
  the guest into a mapped frame, and from a hypervisor variable to the guest.  On an error the
  chunks copied before it stay copied.
\<close>

function hvm_copy_from_guest ::
  "guest_env \<Rightarrow> mem \<Rightarrow> nat \<Rightarrow> nat \<Rightarrow> hvm_copy_result \<times> byte list" where
  "hvm_copy_from_guest ge mem addr todo =
     (if todo = 0 then (HVMCOPY_okay, [])
      else case hvm_xlate ge False (addr div PAGE_SIZE) of
        Inl r \<Rightarrow> (r, [])
      | Inr (m, _) \<Rightarrow>
          (let count = hvm_chunk addr todo;
               bs = page_read mem m (addr mod PAGE_SIZE) count;
               (r, rest) = hvm_copy_from_guest ge mem (u64 (addr + count)) (todo - count)
           in (r, bs @ rest)))"
  by pat_completeness auto
termination
  by (relation "measure (\<lambda>(ge, mem, addr, todo). todo)") (auto simp: hvm_chunk_pos)

function hvm_copy_from_guest_to_frame ::
  "guest_env \<Rightarrow> mem \<Rightarrow> mfn \<Rightarrow> nat \<Rightarrow> nat \<Rightarrow> nat \<Rightarrow> hvm_copy_result \<times> mem" where
  "hvm_copy_from_guest_to_frame ge mem dst doff addr todo =
     (if todo = 0 then (HVMCOPY_okay, mem)
      else case hvm_xlate ge False (addr div PAGE_SIZE) of
        Inl r \<Rightarrow> (r, mem)
      | Inr (m, _) \<Rightarrow>
          (let count = hvm_chunk addr todo;
               bs = page_read mem m (addr mod PAGE_SIZE) count
           in hvm_copy_from_guest_to_frame ge (page_write mem dst doff bs) dst (doff + count)
                (u64 (addr + count)) (todo - count)))"
  by pat_completeness auto
termination
  by (relation "measure (\<lambda>(ge, mem, dst, doff, addr, todo). todo)") (auto simp: hvm_chunk_pos)

function hvm_copy_to_guest ::
  "guest_env \<Rightarrow> mem \<Rightarrow> nat \<Rightarrow> byte list \<Rightarrow> hvm_copy_result \<times> mem" where
  "hvm_copy_to_guest ge mem addr buf =
     (if buf = [] then (HVMCOPY_okay, mem)
      else case hvm_xlate ge True (addr div PAGE_SIZE) of
        Inl r \<Rightarrow> (r, mem)
      | Inr (m, ro) \<Rightarrow>
          (let count = hvm_chunk addr (length buf);
               mem' = (if ro then mem
                       else page_write mem m (addr mod PAGE_SIZE) (take count buf))
           in hvm_copy_to_guest ge mem' (u64 (addr + count)) (drop count buf)))"
  by pat_completeness auto
termination
  by (relation "measure (\<lambda>(ge, mem, addr, buf). length buf)") (auto simp: hvm_chunk_pos)

declare hvm_copy_from_guest.simps [simp del]
  hvm_copy_from_guest_to_frame.simps [simp del] hvm_copy_to_guest.simps [simp del]

text \<open>The error mapping shared by \<open>copy_to_hvm_errno\<close> and \<open>copy_from_hvm_errno\<close>.\<close>

definition hvm_errno :: "hvm_copy_result \<Rightarrow> errno option" where
  "hvm_errno r =
     (case r of HVMCOPY_okay \<Rightarrow> None | HVMCOPY_gfn_populate \<Rightarrow> Some ECONTINUATION | _ \<Rightarrow> Some EFAULT)"

text \<open>
  \<open>raw_copy_from_guest_errno\<close> and \<open>raw_copy_to_guest_errno\<close>: an HVM caller may be told to retry,
  any other caller gets \<open>EFAULT\<close> for a failed copy.
\<close>

definition guest_errno :: "guest_env \<Rightarrow> hvm_copy_result \<Rightarrow> errno option" where
  "guest_errno ge r =
     (if is_hvm_vcpu ge then hvm_errno r else if r = HVMCOPY_okay then None else Some EFAULT)"

definition must_retry :: "guest_env \<Rightarrow> bool" where
  "must_retry ge \<longleftrightarrow> is_hvm_vcpu ge \<and> free_pages_needed ge"

definition copy_from_guest_errno :: "guest_env \<Rightarrow> mem \<Rightarrow> nat \<Rightarrow> nat \<Rightarrow> errno + byte list" where
  "copy_from_guest_errno ge mem addr n =
     (if must_retry ge then Inl ERETRY
      else let (r, bs) = hvm_copy_from_guest ge mem addr n
           in case guest_errno ge r of Some e \<Rightarrow> Inl e | None \<Rightarrow> Inr bs)"

definition copy_from_guest_to_frame_errno ::
  "guest_env \<Rightarrow> mem \<Rightarrow> mfn \<Rightarrow> nat \<Rightarrow> nat \<Rightarrow> nat \<Rightarrow> errno option \<times> mem" where
  "copy_from_guest_to_frame_errno ge mem dst doff addr n =
     (if must_retry ge then (Some ERETRY, mem)
      else let (r, mem') = hvm_copy_from_guest_to_frame ge mem dst doff addr n
           in (guest_errno ge r, mem'))"

definition copy_to_guest_errno ::
  "guest_env \<Rightarrow> mem \<Rightarrow> nat \<Rightarrow> byte list \<Rightarrow> errno option \<times> mem" where
  "copy_to_guest_errno ge mem addr bs =
     (if must_retry ge then (Some ERETRY, mem)
      else let (r, mem') = hvm_copy_to_guest ge mem addr bs
           in (guest_errno ge r, mem'))"


section \<open>Byte-wise characterisation of a copy\<close>

text \<open>
  A copy of \<open>n\<close> bytes succeeds exactly when each of the \<open>n\<close> addresses translates, and then
  yields the bytes found there; the page-wise chunks of the loop disappear from the reasoning.
\<close>

definition guest_frame :: "guest_env \<Rightarrow> nat \<Rightarrow> mfn option" where
  "guest_frame ge a =
     (case hvm_xlate ge False (a div PAGE_SIZE) of Inl _ \<Rightarrow> None | Inr (m, _) \<Rightarrow> Some m)"

definition guest_bytes :: "guest_env \<Rightarrow> mem \<Rightarrow> nat \<Rightarrow> nat \<Rightarrow> byte option list" where
  "guest_bytes ge mem addr n =
     map (\<lambda>i. map_option (\<lambda>m. mem m (u64 (addr + i) mod PAGE_SIZE)) (guest_frame ge (u64 (addr + i))))
       [0..<n]"

definition guest_frames :: "guest_env \<Rightarrow> nat \<Rightarrow> nat \<Rightarrow> mfn set" where
  "guest_frames ge addr n = {m. \<exists>i<n. guest_frame ge (u64 (addr + i)) = Some m}"

lemma length_guest_bytes [simp]: "length (guest_bytes ge mem addr n) = n"
  by (simp add: guest_bytes_def)

lemma page_offset_no_wrap:
  assumes "(r::nat) < 4096" "4096 * q + r < 18446744073709551616" "r + i < 4096"
  shows "4096 * q + r + i < 18446744073709551616"
    and "(4096 * q + r + i) div 4096 = q" and "(4096 * q + r + i) mod 4096 = r + i"
proof -
  from assms have "q < 4503599627370496" by simp
  with assms(3) show "4096 * q + r + i < 18446744073709551616" by simp
  show "(4096 * q + r + i) div 4096 = q" "(4096 * q + r + i) mod 4096 = r + i"
    using assms(3) by (simp_all add: add.assoc)
qed

lemma chunk_same_page:
  assumes "addr < 2 ^ 64" "i < hvm_chunk addr todo"
  shows "u64 (addr + i) div PAGE_SIZE = addr div PAGE_SIZE"
    and "u64 (addr + i) mod PAGE_SIZE = addr mod PAGE_SIZE + i"
proof -
  have "addr mod 4096 + i < 4096"
    using assms by (auto simp: hvm_chunk_def PAGE_SIZE_def)
  from page_offset_no_wrap [OF _ _ this, of "addr div 4096"] assms(1)
  show "u64 (addr + i) div PAGE_SIZE = addr div PAGE_SIZE"
    and "u64 (addr + i) mod PAGE_SIZE = addr mod PAGE_SIZE + i"
    by (simp_all add: PAGE_SIZE_def)
qed

lemma guest_bytes_split:
  "k \<le> n \<Longrightarrow> guest_bytes ge mem addr n =
     guest_bytes ge mem addr k @ guest_bytes ge mem (u64 (addr + k)) (n - k)"
  by (rule nth_equalityI) (auto simp: guest_bytes_def nth_append add.assoc)

lemma guest_bytes_chunk:
  assumes "addr < 2 ^ 64"
  shows "guest_bytes ge mem addr (hvm_chunk addr todo) =
    (case hvm_xlate ge False (addr div PAGE_SIZE) of
       Inl _ \<Rightarrow> replicate (hvm_chunk addr todo) None
     | Inr (m, _) \<Rightarrow> map Some (page_read mem m (addr mod PAGE_SIZE) (hvm_chunk addr todo)))"
  using assms
  by (auto intro!: nth_equalityI
      simp: guest_bytes_def guest_frame_def chunk_same_page page_read_def split: sum.splits)

lemma guest_bytes_0 [simp]: "guest_bytes ge mem addr 0 = []"
  by (simp add: guest_bytes_def)

text \<open>One round of the loop: the first chunk is mapped and the rest is again readable.\<close>

lemma guest_bytes_SomeE:
  assumes "addr < 2 ^ 64" "0 < todo" "guest_bytes ge mem addr todo = map Some bs"
  obtains m ro where "hvm_xlate ge False (addr div PAGE_SIZE) = Inr (m, ro)"
    and "page_read mem m (addr mod PAGE_SIZE) (hvm_chunk addr todo) = take (hvm_chunk addr todo) bs"
    and "guest_bytes ge mem (u64 (addr + hvm_chunk addr todo)) (todo - hvm_chunk addr todo) =
           map Some (drop (hvm_chunk addr todo) bs)"
proof -
  let ?c = "hvm_chunk addr todo"
  have "guest_bytes ge mem addr ?c @ guest_bytes ge mem (u64 (addr + ?c)) (todo - ?c) = map Some bs"
    using guest_bytes_split [OF hvm_chunk_le] assms(3) by metis
  then have bs: "guest_bytes ge mem addr ?c = map Some (take ?c bs)"
    "guest_bytes ge mem (u64 (addr + ?c)) (todo - ?c) = map Some (drop ?c bs)"
    unfolding append_eq_conv_conj by (simp_all add: take_map drop_map)
  have cp: "0 < ?c" using assms(2) by (simp add: hvm_chunk_pos)
  note ch = guest_bytes_chunk [OF assms(1), of ge mem todo]
  show thesis
  proof (cases "hvm_xlate ge False (addr div PAGE_SIZE)")
    case (Inl r)
    then have "replicate ?c None = map Some (take ?c bs)" using bs(1) ch by simp
    then show thesis using cp by (cases ?c; cases bs) auto
  next
    case (Inr p)
    then obtain m ro where x: "hvm_xlate ge False (addr div PAGE_SIZE) = Inr (m, ro)"
      by (cases p) auto
    have "page_read mem m (addr mod PAGE_SIZE) ?c = take ?c bs"
      using bs(1) x ch by (simp add: inj_map_eq_map [OF inj_Some])
    then show thesis using that x bs(2) by blast
  qed
qed

lemma hvm_copy_from_guest_okay:
  assumes "addr < 2 ^ 64" "guest_bytes ge mem addr n = map Some bs"
  shows "hvm_copy_from_guest ge mem addr n = (HVMCOPY_okay, bs)"
  using assms
proof (induction ge mem addr n arbitrary: bs rule: hvm_copy_from_guest.induct)
  case (1 ge mem addr todo)
  let ?c = "hvm_chunk addr todo"
  show ?case
  proof (cases "todo = 0")
    case True
    then show ?thesis using 1 by (simp add: hvm_copy_from_guest.simps)
  next
    case False
    then obtain m ro where x: "hvm_xlate ge False (addr div PAGE_SIZE) = Inr (m, ro)"
      and rd: "page_read mem m (addr mod PAGE_SIZE) ?c = take ?c bs"
      and rest: "guest_bytes ge mem (u64 (addr + ?c)) (todo - ?c) = map Some (drop ?c bs)"
      using guest_bytes_SomeE [OF "1.prems"(1) _ "1.prems"(2)] by blast
    have "hvm_copy_from_guest ge mem (u64 (addr + ?c)) (todo - ?c) = (HVMCOPY_okay, drop ?c bs)"
      using "1.IH" [OF False x refl refl refl] rest by simp
    then show ?thesis
      using False x rd by (simp add: hvm_copy_from_guest.simps [of ge mem addr todo] Let_def)
  qed
qed

text \<open>A copy into a frame that the source does not alias writes the source bytes there.\<close>

lemma guest_bytes_page_write:
  assumes "d \<notin> guest_frames ge addr n"
  shows "guest_bytes ge (page_write mem d off bs) addr n = guest_bytes ge mem addr n"
  using assms
  by (auto simp: guest_bytes_def guest_frames_def mem_simps map_option_case split: option.splits)

lemma guest_frames_mono:
  assumes "k \<le> n"
  shows "guest_frames ge addr k \<subseteq> guest_frames ge addr n"
    and "guest_frames ge (u64 (addr + k)) (n - k) \<subseteq> guest_frames ge addr n"
proof -
  show "guest_frames ge addr k \<subseteq> guest_frames ge addr n"
    using assms unfolding guest_frames_def by (auto intro: less_le_trans)
  show "guest_frames ge (u64 (addr + k)) (n - k) \<subseteq> guest_frames ge addr n"
  proof
    fix m
    assume "m \<in> guest_frames ge (u64 (addr + k)) (n - k)"
    then obtain i where "i < n - k" "guest_frame ge (u64 (addr + (k + i))) = Some m"
      by (auto simp: guest_frames_def add.assoc)
    then show "m \<in> guest_frames ge addr n"
      unfolding guest_frames_def by (intro CollectI exI [of _ "k + i"]) auto
  qed
qed

lemma page_write_append:
  "page_write (page_write mem m off xs) m (off + length xs) ys = page_write mem m off (xs @ ys)"
  by (auto simp: page_write_def fun_eq_iff nth_append)

lemma hvm_copy_from_guest_to_frame_okay:
  assumes "addr < 2 ^ 64" "guest_bytes ge mem addr n = map Some bs" "d \<notin> guest_frames ge addr n"
  shows "hvm_copy_from_guest_to_frame ge mem d off addr n = (HVMCOPY_okay, page_write mem d off bs)"
  using assms
proof (induction ge mem d off addr n arbitrary: bs rule: hvm_copy_from_guest_to_frame.induct)
  case (1 ge mem d off addr todo)
  let ?c = "hvm_chunk addr todo"
  show ?case
  proof (cases "todo = 0")
    case True
    then show ?thesis using 1 by (simp add: hvm_copy_from_guest_to_frame.simps)
  next
    case False
    then obtain m ro where x: "hvm_xlate ge False (addr div PAGE_SIZE) = Inr (m, ro)"
      and rd: "page_read mem m (addr mod PAGE_SIZE) ?c = take ?c bs"
      and rest: "guest_bytes ge mem (u64 (addr + ?c)) (todo - ?c) = map Some (drop ?c bs)"
      using guest_bytes_SomeE [OF "1.prems"(1) _ "1.prems"(2)] by blast
    have nd: "d \<notin> guest_frames ge (u64 (addr + ?c)) (todo - ?c)"
      using "1.prems"(3) guest_frames_mono(2) [OF hvm_chunk_le] by blast
    have len: "length (take ?c bs) = ?c"
      using arg_cong [OF rd, of length] by simp
    have "hvm_copy_from_guest_to_frame ge (page_write mem d off (take ?c bs)) d (off + ?c)
        (u64 (addr + ?c)) (todo - ?c)
      = (HVMCOPY_okay, page_write (page_write mem d off (take ?c bs)) d (off + ?c) (drop ?c bs))"
      using "1.IH" [OF False x refl refl refl] rest nd rd
      by (simp add: guest_bytes_page_write)
    also have "page_write (page_write mem d off (take ?c bs)) d (off + ?c) (drop ?c bs) =
        page_write mem d off bs"
      using page_write_append [of mem d off "take ?c bs" "drop ?c bs"] len by simp
    finally show ?thesis
      using False x rd
      by (simp add: hvm_copy_from_guest_to_frame.simps [of ge mem d off addr todo] Let_def)
  qed
qed

text \<open>Whatever the source does, only the named bytes of the destination frame can change.\<close>

lemma hvm_copy_from_guest_to_frame_frame:
  assumes "hvm_copy_from_guest_to_frame ge mem d off addr n = (r, mem')"
  shows "(m \<noteq> d \<or> i < off \<or> off + n \<le> i) \<Longrightarrow> mem' m i = mem m i"
  using assms
proof (induction ge mem d off addr n rule: hvm_copy_from_guest_to_frame.induct)
  case (1 ge mem d off addr todo)
  have cl: "hvm_chunk addr todo \<le> todo" by (rule hvm_chunk_le)
  show ?case
  proof (cases "todo = 0 \<or> isl (hvm_xlate ge False (addr div PAGE_SIZE))")
    case True
    then show ?thesis
      using "1.prems" by (auto simp: hvm_copy_from_guest_to_frame.simps [of ge mem d off addr todo]
          split: sum.splits if_splits)
  next
    case False
    then obtain fm ro where x: "hvm_xlate ge False (addr div PAGE_SIZE) = Inr (fm, ro)"
      by (cases "hvm_xlate ge False (addr div PAGE_SIZE)") auto
    let ?bs = "page_read mem fm (addr mod PAGE_SIZE) (hvm_chunk addr todo)"
    have "mem' m i = page_write mem d off ?bs m i"
      using "1.IH" [OF _ x refl refl refl] False x "1.prems" cl
      by (auto simp: hvm_copy_from_guest_to_frame.simps [of ge mem d off addr todo] Let_def)
    then show ?thesis
      using "1.prems"(1) cl by (auto simp: page_write_def)
  qed
qed

text \<open>The \<open>_errno\<close> wrappers inherit both facts.\<close>

definition guest_ready :: "guest_env \<Rightarrow> bool" where
  "guest_ready ge \<longleftrightarrow> \<not> must_retry ge"

lemma copy_from_guest_errno_okay:
  assumes "guest_ready ge" "addr < 2 ^ 64" "guest_bytes ge mem addr n = map Some bs"
  shows "copy_from_guest_errno ge mem addr n = Inr bs"
  using assms hvm_copy_from_guest_okay [OF assms(2,3)]
  by (simp add: copy_from_guest_errno_def guest_ready_def guest_errno_def hvm_errno_def)

lemma copy_from_guest_to_frame_errno_okay:
  assumes "guest_ready ge" "addr < 2 ^ 64" "guest_bytes ge mem addr n = map Some bs"
    "d \<notin> guest_frames ge addr n"
  shows "copy_from_guest_to_frame_errno ge mem d off addr n = (None, page_write mem d off bs)"
  using assms hvm_copy_from_guest_to_frame_okay [OF assms(2,3,4)]
  by (simp add: copy_from_guest_to_frame_errno_def guest_ready_def guest_errno_def hvm_errno_def)

lemma copy_from_guest_to_frame_errno_frame:
  assumes "copy_from_guest_to_frame_errno ge mem d off addr n = (r, mem')"
    and "m \<noteq> d \<or> i < off \<or> off + n \<le> i"
  shows "mem' m i = mem m i"
  using assms hvm_copy_from_guest_to_frame_frame [of ge mem d off addr n _ mem' m i]
  by (auto simp: copy_from_guest_to_frame_errno_def split: if_splits prod.splits)

end
