(* ===== verification/V4v_Ring.thy ===== *)
theory V4v_Ring
  imports Guest_Mem
begin

unbundle bit_operations_syntax

text \<open>
  The ring buffer of V4V, uXen's inter-domain message transport: the structures of
  \<open>xen/include/public/v4v.h\<close> and \<open>xen/include/xen/v4v.h\<close>, and the section "ring buffer" of
  \<open>xen/common/v4v.c\<close> (mapping ring pages, copying to and from the ring, the free space of a
  ring and the insertion of a message).

  A ring is a 64-byte header followed by \<open>len\<close> bytes of message space, spread over the frames
  \<open>ri_mfns\<close>.  The receiving guest owns those frames and may write anything into them at any
  time; the hypervisor trusts only the copies of the length and of the transmit pointer that
  it keeps in \<open>v4v_ring_info\<close>.
\<close>

section \<open>Structures\<close>

record v4v_addr =
  a_port :: u32w
  a_domain :: domid

record v4v_ring_id =
  id_addr :: v4v_addr
  id_partner :: domid

record v4v_ring =
  rg_magic :: nat
  rg_id :: v4v_ring_id
  rg_len :: nat
  rg_rx_ptr :: nat
  rg_tx_ptr :: nat

record v4v_pending_ent =
  pe_id :: domid
  pe_len :: nat

text \<open>An entry of \<open>mfn_mapping\<close>; \<open>Unset\<close> is memory fresh from \<open>xmalloc\<close>.\<close>

datatype page_mapping = Unset | Null | Mapped mfn

record v4v_ring_info =
  ri_id :: v4v_ring_id
  ri_len :: nat
  ri_tx_ptr :: nat
  ri_ring :: nat
  ri_npage :: nat
  ri_nmfns :: nat
  ri_mfns :: "mfn option list option"
  ri_mfn_mapping :: "page_mapping list option"
  ri_pending :: "v4v_pending_ent list"

record v4v_env =
  cur :: guest_env                       \<comment> \<open>the address space of \<open>current\<close>\<close>
  map_page_ok :: "mfn \<Rightarrow> bool"           \<comment> \<open>\<open>map_domain_page_global\<close> does not return \<open>NULL\<close>\<close>

definition V4V_RING_MAX_SIZE :: nat where "V4V_RING_MAX_SIZE = 16777216"
definition V4V_MAX_RING_SIZE :: nat where "V4V_MAX_RING_SIZE = 16777216"
definition SIZEOF_RING :: nat where "SIZEOF_RING = 64"
definition SIZEOF_MH :: nat where "SIZEOF_MH = 16"
definition OFF_RX_PTR :: nat where "OFF_RX_PTR = 20"
definition OFF_TX_PTR :: nat where "OFF_TX_PTR = 24"

lemmas v4v_consts = V4V_RING_MAX_SIZE_def V4V_MAX_RING_SIZE_def SIZEOF_RING_def SIZEOF_MH_def
  OFF_RX_PTR_def OFF_TX_PTR_def PAGE_SIZE_def

text \<open>\<open>V4V_ROUNDUP\<close> on an unsigned 32-bit and on a signed 32-bit operand.\<close>

definition V4V_ROUNDUP :: "nat \<Rightarrow> nat" where
  "V4V_ROUNDUP a = (u32 (a + 15) div 16) * 16"

definition V4V_ROUNDUP_s :: "int \<Rightarrow> int" where
  "V4V_ROUNDUP_s a = (s32 (a + 15) div 16) * 16"

text \<open>The packed layouts.\<close>

definition get_field :: "byte list \<Rightarrow> nat \<Rightarrow> nat \<Rightarrow> nat" where
  "get_field bs off n = le_val (take n (drop off bs))"

definition parse_ring :: "byte list \<Rightarrow> v4v_ring" where
  "parse_ring bs =
     \<lparr>rg_magic = get_field bs 0 8,
      rg_id = \<lparr>id_addr = \<lparr>a_port = of_nat (get_field bs 8 4), a_domain = of_nat (get_field bs 12 2)\<rparr>,
               id_partner = of_nat (get_field bs 14 2)\<rparr>,
      rg_len = get_field bs 16 4, rg_rx_ptr = get_field bs 20 4, rg_tx_ptr = get_field bs 24 4\<rparr>"

definition encode_mh :: "nat \<Rightarrow> v4v_addr \<Rightarrow> u32w \<Rightarrow> byte list" where
  "encode_mh len source protocol =
     le_bytes 4 len @ le_bytes 4 (unat (a_port source)) @ le_bytes 2 (unat (a_domain source))
     @ le_bytes 2 0 @ le_bytes 4 (unat protocol)"

definition parse_iov :: "byte list \<Rightarrow> nat \<times> nat" where
  "parse_iov bs = (get_field bs 0 8, get_field bs 8 8)"

section \<open>Ring pages\<close>

definition v4v_ring_unmap :: "v4v_ring_info \<Rightarrow> v4v_ring_info" where
  "v4v_ring_unmap info =
     (case ri_mfn_mapping info of
        None \<Rightarrow> info
      | Some maps \<Rightarrow> info\<lparr>ri_mfn_mapping :=
          Some (map (\<lambda>i. if i < ri_nmfns info then Null else maps ! i) [0..<length maps])\<rparr>)"

text \<open>The \<open>ASSERT\<close>s on the two arrays are not modelled; the invariant \<open>ri_wf\<close> implies them.\<close>

definition v4v_ring_map_page ::
  "v4v_env \<Rightarrow> v4v_ring_info \<Rightarrow> nat \<Rightarrow> (errno + mfn) \<times> v4v_ring_info" where
  "v4v_ring_map_page env info i =
     (if ri_nmfns info \<le> i then (Inl EFAULT, info)
      else case the (ri_mfn_mapping info) ! i of
        Mapped m \<Rightarrow> (Inr m, info)
      | _ \<Rightarrow>
          (let m = the (the (ri_mfns info) ! i)
           in if map_page_ok env m
              then (Inr m, info\<lparr>ri_mfn_mapping := Some ((the (ri_mfn_mapping info))[i := Mapped m])\<rparr>)
              else (Inl EFAULT, info)))"

function v4v_memcpy_from_guest_ring_loop ::
  "v4v_env \<Rightarrow> mem \<Rightarrow> v4v_ring_info \<Rightarrow> nat \<Rightarrow> nat \<Rightarrow> nat \<Rightarrow> (errno + byte list) \<times> v4v_ring_info" where
  "v4v_memcpy_from_guest_ring_loop env mem info page offset len =
     (if offset < PAGE_SIZE \<and> PAGE_SIZE < u32 (offset + len) then
        (case v4v_ring_map_page env info page of
           (Inl e, info1) \<Rightarrow> (Inl e, info1)
         | (Inr m, info1) \<Rightarrow>
             (case v4v_memcpy_from_guest_ring_loop env mem info1 (page + 1) 0
                     (len - (PAGE_SIZE - offset)) of
                (Inl e, info2) \<Rightarrow> (Inl e, info2)
              | (Inr bs, info2) \<Rightarrow>
                  (Inr (page_read mem m offset (PAGE_SIZE - offset) @ bs), info2)))
      else
        (case v4v_ring_map_page env info page of
           (Inl e, info1) \<Rightarrow> (Inl e, info1)
         | (Inr m, info1) \<Rightarrow> (Inr (page_read mem m offset len), info1)))"
  by pat_completeness auto
termination
  by (relation "measure (\<lambda>(env, mem, info, page, offset, len). len)") (auto simp: u32_def)

definition v4v_memcpy_from_guest_ring ::
  "v4v_env \<Rightarrow> mem \<Rightarrow> v4v_ring_info \<Rightarrow> nat \<Rightarrow> nat \<Rightarrow> (errno + byte list) \<times> v4v_ring_info" where
  "v4v_memcpy_from_guest_ring env mem info offset len =
     v4v_memcpy_from_guest_ring_loop env mem info (offset div PAGE_SIZE) (offset mod PAGE_SIZE) len"

definition v4v_update_tx_ptr ::
  "v4v_env \<Rightarrow> mem \<Rightarrow> v4v_ring_info \<Rightarrow> nat \<Rightarrow> errno option \<times> v4v_ring_info \<times> mem" where
  "v4v_update_tx_ptr env mem info tx_ptr =
     (case v4v_ring_map_page env info 0 of
        (Inl e, info1) \<Rightarrow> (Some e, info1, mem)
      | (Inr m, info1) \<Rightarrow> (None, info1, page_write mem m OFF_TX_PTR (le_bytes 4 tx_ptr)))"

function v4v_memcpy_to_guest_ring_loop ::
  "v4v_env \<Rightarrow> mem \<Rightarrow> v4v_ring_info \<Rightarrow> nat \<Rightarrow> nat \<Rightarrow> byte list \<Rightarrow>
     errno option \<times> v4v_ring_info \<times> mem" where
  "v4v_memcpy_to_guest_ring_loop env mem info page offset src =
     (if offset < PAGE_SIZE \<and> PAGE_SIZE < u32 (offset + length src) then
        (case v4v_ring_map_page env info page of
           (Inl e, info1) \<Rightarrow> (Some e, info1, mem)
         | (Inr m, info1) \<Rightarrow>
             v4v_memcpy_to_guest_ring_loop env
               (page_write mem m offset (take (PAGE_SIZE - offset) src)) info1 (page + 1) 0
               (drop (PAGE_SIZE - offset) src))
      else
        (case v4v_ring_map_page env info page of
           (Inl e, info1) \<Rightarrow> (Some e, info1, mem)
         | (Inr m, info1) \<Rightarrow> (None, info1, page_write mem m offset src)))"
  by pat_completeness auto
termination
  by (relation "measure (\<lambda>(env, mem, info, page, offset, src). length src)") (auto simp: u32_def)

definition v4v_memcpy_to_guest_ring ::
  "v4v_env \<Rightarrow> mem \<Rightarrow> v4v_ring_info \<Rightarrow> nat \<Rightarrow> byte list \<Rightarrow> errno option \<times> v4v_ring_info \<times> mem" where
  "v4v_memcpy_to_guest_ring env mem info offset src =
     v4v_memcpy_to_guest_ring_loop env mem info (offset div PAGE_SIZE) (offset mod PAGE_SIZE) src"

function v4v_memcpy_to_guest_ring_from_guest_loop ::
  "v4v_env \<Rightarrow> mem \<Rightarrow> v4v_ring_info \<Rightarrow> nat \<Rightarrow> nat \<Rightarrow> nat \<Rightarrow> nat \<Rightarrow>
     errno option \<times> v4v_ring_info \<times> mem" where
  "v4v_memcpy_to_guest_ring_from_guest_loop env mem info page offset src_hnd len =
     (if offset < PAGE_SIZE \<and> PAGE_SIZE < u32 (offset + len) then
        (case v4v_ring_map_page env info page of
           (Inl e, info1) \<Rightarrow> (Some e, info1, mem)
         | (Inr m, info1) \<Rightarrow>
             (case copy_from_guest_to_frame_errno (cur env) mem m offset src_hnd
                     (PAGE_SIZE - offset) of
                (Some e, mem1) \<Rightarrow> (Some e, info1, mem1)
              | (None, mem1) \<Rightarrow>
                  v4v_memcpy_to_guest_ring_from_guest_loop env mem1 info1 (page + 1) 0
                    (u64 (src_hnd + (PAGE_SIZE - offset))) (len - (PAGE_SIZE - offset))))
      else
        (case v4v_ring_map_page env info page of
           (Inl e, info1) \<Rightarrow> (Some e, info1, mem)
         | (Inr m, info1) \<Rightarrow>
             (case copy_from_guest_to_frame_errno (cur env) mem m offset src_hnd len of
                (r, mem1) \<Rightarrow> (r, info1, mem1))))"
  by pat_completeness auto
termination
  by (relation "measure (\<lambda>(env, mem, info, page, offset, src_hnd, len). len)") (auto simp: u32_def)

definition v4v_memcpy_to_guest_ring_from_guest ::
  "v4v_env \<Rightarrow> mem \<Rightarrow> v4v_ring_info \<Rightarrow> nat \<Rightarrow> nat \<Rightarrow> nat \<Rightarrow> errno option \<times> v4v_ring_info \<times> mem" where
  "v4v_memcpy_to_guest_ring_from_guest env mem info offset src_hnd len =
     (if V4V_RING_MAX_SIZE < len \<or> V4V_RING_MAX_SIZE < offset mod PAGE_SIZE
      then (Some EFAULT, info, mem)
      else v4v_memcpy_to_guest_ring_from_guest_loop env mem info
             (offset div PAGE_SIZE) (offset mod PAGE_SIZE) src_hnd len)"

declare v4v_memcpy_from_guest_ring_loop.simps [simp del]
  v4v_memcpy_to_guest_ring_loop.simps [simp del]
  v4v_memcpy_to_guest_ring_from_guest_loop.simps [simp del]

section \<open>Ring pointers and free space\<close>

definition v4v_ringbuf_get_rx_ptr ::
  "v4v_env \<Rightarrow> mem \<Rightarrow> v4v_ring_info \<Rightarrow> (errno + nat) \<times> v4v_ring_info" where
  "v4v_ringbuf_get_rx_ptr env mem info =
     (if ri_nmfns info = 0 \<or> ri_nmfns info < ri_npage info then (Inl EINVAL, info)
      else case v4v_ring_map_page env info 0 of
        (Inl e, info1) \<Rightarrow> (Inl e, info1)
      | (Inr m, info1) \<Rightarrow> (Inr (le_val (page_read mem m OFF_RX_PTR 4)), info1))"

definition v4v_ringbuf_payload_space ::
  "v4v_env \<Rightarrow> mem \<Rightarrow> v4v_ring_info \<Rightarrow> nat \<times> v4v_ring_info" where
  "v4v_ringbuf_payload_space env mem info =
     (if ri_len info = 0 then (0, info)
      else case v4v_ringbuf_get_rx_ptr env mem info of
        (Inl _, info1) \<Rightarrow> (0, info1)
      | (Inr rx_ptr, info1) \<Rightarrow>
          (if rx_ptr = ri_tx_ptr info then (u32_sub (ri_len info) SIZEOF_MH, info1)
           else
             (let r0 = s32 (int rx_ptr - int (ri_tx_ptr info));
                  r1 = (if r0 < 0 then s32 (r0 + int (ri_len info)) else r0);
                  r2 = s32 (r1 - int SIZEOF_MH);
                  r3 = s32 (r2 - int (V4V_ROUNDUP 1))
              in (if r3 < 0 then 0 else nat r3, info1))))"

definition v4v_sanitize_ring :: "v4v_ring \<Rightarrow> v4v_ring_info \<Rightarrow> v4v_ring" where
  "v4v_sanitize_ring ring info =
     (let rx = V4V_ROUNDUP (rg_rx_ptr ring);
          rx' = (if ri_len info \<le> rx then 0 else rx)
      in ring\<lparr>rg_tx_ptr := ri_tx_ptr info, rg_len := ri_len info, rg_rx_ptr := rx'\<rparr>)"

section \<open>Inserting a message\<close>

fun v4v_iov_count_loop :: "v4v_env \<Rightarrow> mem \<Rightarrow> nat \<Rightarrow> nat \<Rightarrow> nat \<Rightarrow> errno + nat" where
  "v4v_iov_count_loop env mem iovs 0 done = Inr done"
| "v4v_iov_count_loop env mem iovs (Suc niov) done =
     (case copy_from_guest_errno (cur env) mem iovs 16 of
        Inl e \<Rightarrow> Inl e
      | Inr bs \<Rightarrow>
          (let iov_len = snd (parse_iov bs)
           in if V4V_RING_MAX_SIZE < iov_len then Inl EINVAL
              else if V4V_RING_MAX_SIZE < done + iov_len then Inl EINVAL
              else v4v_iov_count_loop env mem (u64 (iovs + 16)) niov (done + iov_len)))"

definition v4v_iov_count :: "v4v_env \<Rightarrow> mem \<Rightarrow> nat \<Rightarrow> nat \<Rightarrow> errno + nat" where
  "v4v_iov_count env mem iovs niov = v4v_iov_count_loop env mem iovs niov 0"

text \<open>
  The bytes a message of \<open>len\<close> payload bytes occupies, as the code computes it: the rounding
  is done on a signed 32-bit value, the sum and the comparisons on a 64-bit \<open>size_t\<close>.
\<close>

definition msg_space :: "int \<Rightarrow> nat" where
  "msg_space len = u64 (u64_of_int (V4V_ROUNDUP_s len) + SIZEOF_MH)"

text \<open>\<open>sp\<close>: the free bytes of the ring between the transmit and the receive pointer.\<close>

definition ring_free :: "v4v_ring \<Rightarrow> v4v_ring_info \<Rightarrow> int" where
  "ring_free ring info =
     (if rg_rx_ptr ring = rg_tx_ptr ring then s32 (int (ri_len info))
      else let sp = s32 (int (rg_rx_ptr ring) - int (rg_tx_ptr ring))
           in if sp < 0 then s32 (sp + int (rg_len ring)) else sp)"

text \<open>The state of the copy loop: transmit pointer, ring bookkeeping, machine memory.\<close>

record ins_state =
  is_tx :: nat
  is_info :: v4v_ring_info
  is_mem :: mem

text \<open>
  Copying one piece of payload: up to the end of the ring, then from its start.  \<open>rlen\<close> is the
  sanitised ring length.
\<close>

definition insert_piece ::
  "v4v_env \<Rightarrow> ins_state \<Rightarrow> nat \<Rightarrow> nat \<Rightarrow> nat \<Rightarrow> errno option \<times> ins_state" where
  "insert_piece env st rlen buf iov_len =
     (let sp = u32_sub rlen (is_tx st);
          (r1, st1, buf1, n1) =
            (if sp < iov_len then
               (case v4v_memcpy_to_guest_ring_from_guest env (is_mem st) (is_info st)
                       (u32 (is_tx st + SIZEOF_RING)) buf sp of
                  (r, info, mem) \<Rightarrow>
                    (r, \<lparr>is_tx = (if r = None then 0 else is_tx st), is_info = info, is_mem = mem\<rparr>,
                     u64 (buf + sp), iov_len - sp))
             else (None, st, buf, iov_len))
      in case r1 of
           Some e \<Rightarrow> (Some e, st1)
         | None \<Rightarrow>
             (case v4v_memcpy_to_guest_ring_from_guest env (is_mem st1) (is_info st1)
                     (u32 (is_tx st1 + SIZEOF_RING)) buf1 n1 of
                (Some e, info, mem) \<Rightarrow> (Some e, st1\<lparr>is_info := info, is_mem := mem\<rparr>)
              | (None, info, mem) \<Rightarrow>
                  (let tx = u32 (is_tx st1 + n1)
                   in (None, \<lparr>is_tx = (if tx = ri_len info then 0 else tx),
                              is_info = info, is_mem = mem\<rparr>))))"

text \<open>
  The \<open>do \<dots> while (niov--)\<close> loop runs once more than there are vectors: with \<open>niov\<close> down to 0
  it copies what is left of the length that was announced, from the current buffer.
\<close>

fun insert_loop ::
  "v4v_env \<Rightarrow> ins_state \<Rightarrow> nat \<Rightarrow> nat \<Rightarrow> int \<Rightarrow> nat \<Rightarrow> nat \<Rightarrow> errno option \<times> ins_state" where
  "insert_loop env st rlen buf len iovs 0 =
     (let iov_len = nat (len mod 2 ^ 32)
      in if V4V_MAX_RING_SIZE < iov_len then (Some EINVAL, st)
         else if \<not> guest_handle_okay (cur env) buf iov_len then (Some EFAULT, st)
         else if iov_len = 0 then (None, st)
         else insert_piece env st rlen buf iov_len)"
| "insert_loop env st rlen buf len iovs (Suc niov) =
     (case copy_from_guest_errno (cur env) (is_mem st) iovs 16 of
        Inl e \<Rightarrow> (Some e, st)
      | Inr bs \<Rightarrow>
          (let base = fst (parse_iov bs); iov_len = u32 (snd (parse_iov bs))
           in if iov_len = 0 then insert_loop env st rlen base len (u64 (iovs + 16)) niov
              else if V4V_MAX_RING_SIZE < iov_len then (Some EINVAL, st)
              else if \<not> guest_handle_okay (cur env) base iov_len then (Some EFAULT, st)
              else if nat (len mod 2 ^ 32) < iov_len then (Some EFAULT, st)
              else (case insert_piece env st rlen base iov_len of
                      (Some e, st1) \<Rightarrow> (Some e, st1)
                    | (None, st1) \<Rightarrow>
                        insert_loop env st1 rlen
                          (u64 (base + (if u32_sub rlen (is_tx st) < iov_len
                                        then u32_sub rlen (is_tx st) else 0)))
                          (s32 (len - int iov_len)) (u64 (iovs + 16)) niov)))"

text \<open>
  Writing the message once it is known to fit: the message header, the payload, and at the end
  the rounded transmit pointer, kept in \<open>ring_info\<close> and published in the ring's header.
\<close>

definition insert_finish :: "v4v_env \<Rightarrow> ins_state \<Rightarrow> errno option \<times> v4v_ring_info \<times> mem" where
  "insert_finish env st =
     (let t = V4V_ROUNDUP (is_tx st);
          t' = (if ri_len (is_info st) \<le> t then u32_sub t (ri_len (is_info st)) else t)
      in v4v_update_tx_ptr env (is_mem st) ((is_info st)\<lparr>ri_tx_ptr := t'\<rparr>) t')"

definition insert_write ::
  "v4v_env \<Rightarrow> mem \<Rightarrow> v4v_ring_info \<Rightarrow> v4v_ring \<Rightarrow> v4v_addr \<Rightarrow> u32w \<Rightarrow> nat \<Rightarrow> int \<Rightarrow> nat \<Rightarrow> nat \<Rightarrow>
     errno option \<times> v4v_ring_info \<times> mem" where
  "insert_write env mem info ring src proto buf len iovs niov =
     (case v4v_memcpy_to_guest_ring env mem info (u32 (rg_tx_ptr ring + SIZEOF_RING))
             (encode_mh (nat ((len + int SIZEOF_MH) mod 2 ^ 32)) src proto) of
        (Some e, info2, mem2) \<Rightarrow> (Some e, info2, mem2)
      | (None, info2, mem2) \<Rightarrow>
          (let tx0 = u32 (rg_tx_ptr ring + SIZEOF_MH);
               tx = (if tx0 = ri_len info2 then 0 else tx0)
           in case insert_loop env \<lparr>is_tx = tx, is_info = info2, is_mem = mem2\<rparr>
                     (rg_len ring) buf len iovs niov of
                (Some e, st) \<Rightarrow> (Some e, is_info st, is_mem st)
              | (None, st) \<Rightarrow> insert_finish env st))"

definition insert_body ::
  "v4v_env \<Rightarrow> mem \<Rightarrow> v4v_ring_info \<Rightarrow> v4v_addr \<Rightarrow> u32w \<Rightarrow> nat \<Rightarrow> int \<Rightarrow> nat \<Rightarrow> nat \<Rightarrow>
     errno option \<times> v4v_ring_info \<times> mem" where
  "insert_body env mem info src proto buf len iovs niov =
     (case v4v_memcpy_from_guest_ring env mem info 0 SIZEOF_RING of
        (Inl e, info1) \<Rightarrow> (Some e, info1, mem)
      | (Inr rbs, info1) \<Rightarrow>
          (let ring = v4v_sanitize_ring (parse_ring rbs) info1
           in if u64_of_int (ring_free ring info1) \<le> msg_space len
              then (Some EAGAIN, info1, mem)
              else insert_write env mem info1 ring src proto buf len iovs niov))"

text \<open>The result carries the error, if any, and the value left in \<open>*_len\<close>.\<close>

definition v4v_ringbuf_insert ::
  "v4v_env \<Rightarrow> mem \<Rightarrow> v4v_ring_info \<Rightarrow> v4v_ring_id \<Rightarrow> u32w \<Rightarrow> nat \<Rightarrow> int \<Rightarrow> nat \<Rightarrow> nat \<Rightarrow>
     errno option \<times> int \<times> v4v_ring_info \<times> mem" where
  "v4v_ringbuf_insert env mem info src_id proto buf len iovs niov =
     (if ri_len info = 0 then (Some EAGAIN, 0, info, mem)
      else case (if niov = 0 then Inr len
                 else map_sum id int (v4v_iov_count env mem iovs niov)) of
        Inl e \<Rightarrow> (Some e, len, info, mem)
      | Inr n \<Rightarrow>
          if ri_len info \<le> msg_space n then (Some EMSGSIZE, n, info, mem)
          else case insert_body env mem info (id_addr src_id) proto buf n iovs niov of
                 (r, info', mem') \<Rightarrow> (r, n, info', mem'))"

end
