(* ===== verification/V4v_Ring_Copy.thy ===== *)
theory V4v_Ring_Copy
  imports V4v_Ring
begin

text \<open>
  What the page-wise copies of \<open>V4v_Ring\<close> do to the ring seen as one flat array of bytes.  The
  bookkeeping invariant \<open>ri_wf\<close> of a \<open>v4v_ring_info\<close> and the relation \<open>ring_upd\<close> between two
  memories carry the proofs about message insertion; the \<open>_touch\<close> lemmas bound the effect of
  every copy without any assumption on what guests do.
\<close>

section \<open>Bookkeeping invariant\<close>

definition ri_frames :: "v4v_ring_info \<Rightarrow> mfn list" where
  "ri_frames info = map the (take (ri_nmfns info) (the (ri_mfns info)))"

definition ri_wf :: "v4v_ring_info \<Rightarrow> bool" where
  "ri_wf info \<longleftrightarrow>
     (case (ri_mfns info, ri_mfn_mapping info) of
        (None, None) \<Rightarrow> ri_npage info = 0 \<and> ri_nmfns info = 0
      | (Some ms, Some maps) \<Rightarrow>
          length ms = ri_npage info \<and> length maps = ri_npage info \<and> ri_nmfns info \<le> ri_npage info \<and>
          (\<forall>i<ri_nmfns info. \<exists>m. ms ! i = Some m \<and> maps ! i \<in> {Null, Mapped m})
      | _ \<Rightarrow> False)"

text \<open>Two ring descriptors that differ only in which pages are currently mapped.\<close>

definition ri_same :: "v4v_ring_info \<Rightarrow> v4v_ring_info \<Rightarrow> bool" where
  "ri_same info info' \<longleftrightarrow> info' = info\<lparr>ri_mfn_mapping := ri_mfn_mapping info'\<rparr>"

lemma ri_same_refl [simp]: "ri_same info info"
  by (simp add: ri_same_def)

lemma ri_same_iff: "ri_same a b \<longleftrightarrow> (\<exists>x. b = a\<lparr>ri_mfn_mapping := x\<rparr>)"
  by (auto simp: ri_same_def)

lemma ri_same_fields:
  assumes "ri_same a b"
  shows "ri_id b = ri_id a" "ri_len b = ri_len a" "ri_tx_ptr b = ri_tx_ptr a"
    "ri_ring b = ri_ring a" "ri_npage b = ri_npage a" "ri_nmfns b = ri_nmfns a"
    "ri_mfns b = ri_mfns a" "ri_pending b = ri_pending a" "ri_frames b = ri_frames a"
  using assms by (auto simp: ri_same_iff ri_frames_def)

lemma ri_same_trans: "ri_same a b \<Longrightarrow> ri_same b c \<Longrightarrow> ri_same a c"
  by (auto simp: ri_same_iff)

lemma length_ri_frames: "ri_wf info \<Longrightarrow> length (ri_frames info) = ri_nmfns info"
  by (auto simp: ri_wf_def ri_frames_def split: option.splits)

lemma ri_wf_pageE:
  assumes "ri_wf info" "i < ri_nmfns info"
  obtains ms maps m where "ri_mfns info = Some ms" "ri_mfn_mapping info = Some maps"
    "length ms = ri_npage info" "length maps = ri_npage info" "ri_nmfns info \<le> ri_npage info"
    "ms ! i = Some m" "maps ! i = Null \<or> maps ! i = Mapped m" "ri_frames info ! i = m"
    "\<forall>i<ri_nmfns info. \<exists>m. ms ! i = Some m \<and> maps ! i \<in> {Null, Mapped m}"
proof -
  from assms obtain ms maps where w: "ri_mfns info = Some ms" "ri_mfn_mapping info = Some maps"
    "length ms = ri_npage info" "length maps = ri_npage info" "ri_nmfns info \<le> ri_npage info"
    "\<forall>i<ri_nmfns info. \<exists>m. ms ! i = Some m \<and> maps ! i \<in> {Null, Mapped m}"
    by (auto simp: ri_wf_def split: option.splits)
  from w(6) assms(2) obtain m where m: "ms ! i = Some m" "maps ! i = Null \<or> maps ! i = Mapped m"
    by auto
  then have "ri_frames info ! i = m"
    using assms(2) w by (simp add: ri_frames_def)
  with w m that show thesis by blast
qed

lemma map_page_cases:
  assumes "ri_wf info" "v4v_ring_map_page env info i = (r, info')"
  shows "ri_same info info' \<and> ri_wf info' \<and>
    (r = Inl EFAULT \<or> i < ri_nmfns info \<and> r = Inr (ri_frames info ! i))"
proof (cases "ri_nmfns info \<le> i")
  case True
  then show ?thesis using assms by (simp add: v4v_ring_map_page_def)
next
  case False
  then have "i < ri_nmfns info" by simp
  then obtain ms maps m where w: "ri_mfns info = Some ms" "ri_mfn_mapping info = Some maps"
    "length ms = ri_npage info" "length maps = ri_npage info" "ri_nmfns info \<le> ri_npage info"
    "ms ! i = Some m" "maps ! i = Null \<or> maps ! i = Mapped m" "ri_frames info ! i = m"
    and all: "\<forall>i<ri_nmfns info. \<exists>m. ms ! i = Some m \<and> maps ! i \<in> {Null, Mapped m}"
    using ri_wf_pageE [OF assms(1)] by metis
  have wf': "ri_wf (info\<lparr>ri_mfn_mapping := Some (maps[i := Mapped m])\<rparr>)"
    using w all False by (auto simp: ri_wf_def nth_list_update)
  show ?thesis
    using assms False w wf'
    by (auto simp: v4v_ring_map_page_def ri_same_def Let_def split: if_splits)
qed

lemma map_page_ok:
  assumes "ri_wf info" "i < ri_nmfns info" "\<forall>m\<in>set (ri_frames info). map_page_ok env m"
  obtains info' where "v4v_ring_map_page env info i = (Inr (ri_frames info ! i), info')"
    and "ri_same info info'" and "ri_wf info'"
proof -
  obtain r info' where r: "v4v_ring_map_page env info i = (r, info')" by force
  obtain ms maps m where w: "ri_mfns info = Some ms" "ri_mfn_mapping info = Some maps"
    "ms ! i = Some m" "maps ! i = Null \<or> maps ! i = Mapped m" "ri_frames info ! i = m"
    using ri_wf_pageE [OF assms(1,2)] by metis
  have "m \<in> set (ri_frames info)"
    using w(5) assms(1,2) length_ri_frames nth_mem by metis
  then have "r \<noteq> Inl EFAULT"
    using r w assms(2,3) by (auto simp: v4v_ring_map_page_def Let_def)
  then show thesis
    using map_page_cases [OF assms(1) r] r that by auto
qed

section \<open>The flat view\<close>

definition rb :: "mfn list \<Rightarrow> mem \<Rightarrow> nat \<Rightarrow> byte" where
  "rb fs mem i = mem (fs ! (i div PAGE_SIZE)) (i mod PAGE_SIZE)"

definition rbs :: "mfn list \<Rightarrow> mem \<Rightarrow> nat \<Rightarrow> nat \<Rightarrow> byte list" where
  "rbs fs mem off n = map (\<lambda>i. rb fs mem (off + i)) [0..<n]"

definition ring_upd :: "mfn list \<Rightarrow> mem \<Rightarrow> mem \<Rightarrow> nat \<Rightarrow> byte list \<Rightarrow> bool" where
  "ring_upd fs mem mem' off bs \<longleftrightarrow>
     (\<forall>m. m \<notin> set fs \<longrightarrow> mem' m = mem m) \<and>
     (\<forall>i < length fs * PAGE_SIZE.
        rb fs mem' i = (if off \<le> i \<and> i < off + length bs then bs ! (i - off) else rb fs mem i))"

lemma length_rbs [simp]: "length (rbs fs mem off n) = n"
  by (simp add: rbs_def)

lemma rbs_nth [simp]: "i < n \<Longrightarrow> rbs fs mem off n ! i = rb fs mem (off + i)"
  by (simp add: rbs_def)

lemma ring_upd_Nil: "ring_upd fs mem mem off []"
  by (auto simp: ring_upd_def)

lemma ring_upd_append:
  assumes "ring_upd fs mem mem1 off xs" "ring_upd fs mem1 mem2 (off + length xs) ys"
  shows "ring_upd fs mem mem2 off (xs @ ys)"
  using assms by (auto simp: ring_upd_def nth_append)

lemma ring_upd_page_write:
  assumes "distinct fs" "p < length fs" "o' + length bs \<le> PAGE_SIZE"
  shows "ring_upd fs mem (page_write mem (fs ! p) o' bs) (p * PAGE_SIZE + o') bs"
  unfolding ring_upd_def
proof (intro conjI allI impI)
  fix m
  assume "m \<notin> set fs"
  then show "page_write mem (fs ! p) o' bs m = mem m"
    using assms(2) page_write_other nth_mem by metis
next
  fix i
  assume i: "i < length fs * PAGE_SIZE"
  then have q: "i div PAGE_SIZE < length fs"
    by (simp add: less_mult_imp_div_less)
  have e: "i = i div PAGE_SIZE * PAGE_SIZE + i mod PAGE_SIZE" by simp
  have r: "i mod PAGE_SIZE < PAGE_SIZE" by simp
  show "rb fs (page_write mem (fs ! p) o' bs) i =
     (if p * PAGE_SIZE + o' \<le> i \<and> i < p * PAGE_SIZE + o' + length bs
      then bs ! (i - (p * PAGE_SIZE + o')) else rb fs mem i)"
  proof (cases "i div PAGE_SIZE = p")
    case True
    then have "i = p * PAGE_SIZE + i mod PAGE_SIZE" using e by simp
    then obtain j where "i = p * PAGE_SIZE + j" "i mod PAGE_SIZE = j" by metis
    with True show ?thesis by (auto simp: rb_def mem_simps)
  next
    case False
    then have ne: "fs ! (i div PAGE_SIZE) \<noteq> fs ! p"
      using assms(1,2) q nth_eq_iff_index_eq by blast
    have "\<not> (p * PAGE_SIZE + o' \<le> i \<and> i < p * PAGE_SIZE + o' + length bs)"
    proof
      assume "p * PAGE_SIZE + o' \<le> i \<and> i < p * PAGE_SIZE + o' + length bs"
      then have "p * PAGE_SIZE \<le> i" "i < Suc p * PAGE_SIZE" using assms(3) by auto
      then have "i div PAGE_SIZE = p"
        by (metis PAGE_SIZE_pos div_nat_eqI mult.commute)
      with False show False by simp
    qed
    with ne show ?thesis by (auto simp: rb_def mem_simps)
  qed
qed

lemma ring_upd_guest_bytes:
  assumes "ring_upd fs mem mem' off bs" "guest_frames ge a n \<inter> set fs = {}"
  shows "guest_bytes ge mem' a n = guest_bytes ge mem a n"
proof -
  have "mem' m = mem m" if "guest_frame ge (u64 (a + i)) = Some m" "i < n" for i m
    using assms that unfolding ring_upd_def guest_frames_def by blast
  then show ?thesis
    by (auto simp: guest_bytes_def map_option_case split: option.splits)
qed

lemma ring_upd_rb:
  assumes "ring_upd fs mem mem' off bs" "i < length fs * PAGE_SIZE" "i < off \<or> off + length bs \<le> i"
  shows "rb fs mem' i = rb fs mem i"
  using assms by (auto simp: ring_upd_def)

lemma ring_upd_rb_in:
  assumes "ring_upd fs mem mem' off bs" "off + length bs \<le> length fs * PAGE_SIZE" "i < length bs"
  shows "rb fs mem' (off + i) = bs ! i"
  using assms by (auto simp: ring_upd_def)

lemma ring_upd_rbs:
  assumes "ring_upd fs mem mem' off bs" "off + length bs \<le> length fs * PAGE_SIZE"
  shows "rbs fs mem' off (length bs) = bs"
  by (rule nth_equalityI) (auto simp: ring_upd_rb_in [OF assms])

section \<open>Copies that succeed\<close>

text \<open>A ring whose pages can all be mapped, and that has room for \<open>n\<close> bytes.\<close>

definition ring_mappable :: "v4v_env \<Rightarrow> v4v_ring_info \<Rightarrow> bool" where
  "ring_mappable env info \<longleftrightarrow>
     ri_wf info \<and> distinct (ri_frames info) \<and> (\<forall>m\<in>set (ri_frames info). map_page_ok env m)"

lemma ring_mappable_same:
  "ring_mappable env info \<Longrightarrow> ri_same info info' \<Longrightarrow> ri_wf info' \<Longrightarrow> ring_mappable env info'"
  by (simp add: ring_mappable_def ri_same_fields)

lemma page_bound:
  assumes "page * PAGE_SIZE + n \<le> k * PAGE_SIZE" "0 < n"
  shows "page < k"
proof -
  have "page * PAGE_SIZE < k * PAGE_SIZE" using assms by linarith
  then show ?thesis by simp
qed

lemma memcpy_to_ring_loop_ok:
  assumes "ring_mappable env info" "src \<noteq> []" "offset < PAGE_SIZE" "length src < 2 ^ 31"
    "page * PAGE_SIZE + offset + length src \<le> ri_nmfns info * PAGE_SIZE"
  shows "\<exists>info' mem'. v4v_memcpy_to_guest_ring_loop env mem info page offset src = (None, info', mem') \<and>
    ri_same info info' \<and> ri_wf info' \<and>
    ring_upd (ri_frames info) mem mem' (page * PAGE_SIZE + offset) src"
  using assms
proof (induction env mem info page offset src rule: v4v_memcpy_to_guest_ring_loop.induct)
  case (1 env mem info page offset src)
  note IH = "1.IH"(1)
  have wf: "ri_wf info" and dist: "distinct (ri_frames info)"
    and ok: "\<forall>m\<in>set (ri_frames info). map_page_ok env m"
    using "1.prems"(1) by (auto simp: ring_mappable_def)
  have lf: "length (ri_frames info) = ri_nmfns info" by (rule length_ri_frames [OF wf])
  have p: "page < ri_nmfns info"
    using page_bound [of page "offset + length src" "ri_nmfns info"] "1.prems"(2,5) by simp
  obtain info1 where mp: "v4v_ring_map_page env info page = (Inr (ri_frames info ! page), info1)"
    and same: "ri_same info info1" and wf1: "ri_wf info1"
    using map_page_ok [OF wf p ok] .
  have u: "u32 (offset + length src) = offset + length src"
    using "1.prems"(3,4) by (simp add: PAGE_SIZE_def)
  show ?case
  proof (cases "PAGE_SIZE < offset + length src")
    case False
    then have "ring_upd (ri_frames info) mem (page_write mem (ri_frames info ! page) offset src)
        (page * PAGE_SIZE + offset) src"
      using p lf by (intro ring_upd_page_write [OF dist]) auto
    then show ?thesis
      using False mp same wf1 u by (simp add: v4v_memcpy_to_guest_ring_loop.simps)
  next
    case True
    let ?n = "PAGE_SIZE - offset"
    let ?mem1 = "page_write mem (ri_frames info ! page) offset (take ?n src)"
    have c: "offset < PAGE_SIZE \<and> PAGE_SIZE < u32 (offset + length src)"
      using True "1.prems"(3) u by simp
    have ln: "length (take ?n src) = ?n" using True "1.prems"(3) by simp
    have "\<exists>info' mem'. v4v_memcpy_to_guest_ring_loop env ?mem1 info1 (page + 1) 0 (drop ?n src)
        = (None, info', mem') \<and> ri_same info1 info' \<and> ri_wf info' \<and>
        ring_upd (ri_frames info1) ?mem1 mem' ((page + 1) * PAGE_SIZE + 0) (drop ?n src)"
    proof (rule IH [OF c mp [symmetric] refl])
      show "ring_mappable env info1"
        using "1.prems"(1) same wf1 by (rule ring_mappable_same)
      show "(page + 1) * PAGE_SIZE + 0 + length (drop ?n src) \<le> ri_nmfns info1 * PAGE_SIZE"
        using "1.prems"(3,5) True ri_same_fields(6) [OF same] by simp
    qed (use True "1.prems" in auto)
    then obtain info' mem' where
      r: "v4v_memcpy_to_guest_ring_loop env ?mem1 info1 (page + 1) 0 (drop ?n src) = (None, info', mem')"
      and s': "ri_same info1 info'" "ri_wf info'"
      and u2: "ring_upd (ri_frames info) ?mem1 mem' (page * PAGE_SIZE + offset + ?n) (drop ?n src)"
      using "1.prems"(3) by (auto simp: ri_same_fields(9) [OF same] algebra_simps)
    have "ring_upd (ri_frames info) mem ?mem1 (page * PAGE_SIZE + offset) (take ?n src)"
      using p lf ln "1.prems"(3) by (intro ring_upd_page_write [OF dist]) auto
    from ring_upd_append [OF this] u2 ln
    have "ring_upd (ri_frames info) mem mem' (page * PAGE_SIZE + offset) (take ?n src @ drop ?n src)"
      by (metis append_take_drop_id)
    then have "ring_upd (ri_frames info) mem mem' (page * PAGE_SIZE + offset) src"
      by simp
    then show ?thesis
      using r s' c mp ri_same_trans [OF same s'(1)]
      by (simp add: v4v_memcpy_to_guest_ring_loop.simps [of env mem info page offset src])
  qed
qed


lemma memcpy_to_ring_ok:
  assumes "ring_mappable env info" "src \<noteq> []" "length src < 2 ^ 31"
    "offset + length src \<le> ri_nmfns info * PAGE_SIZE"
  obtains info' mem' where "v4v_memcpy_to_guest_ring env mem info offset src = (None, info', mem')"
    and "ri_same info info'" and "ri_wf info'" and "ring_upd (ri_frames info) mem mem' offset src"
  using memcpy_to_ring_loop_ok [OF assms(1,2) _ assms(3), of "offset mod PAGE_SIZE" "offset div PAGE_SIZE" mem]
    assms(4) that by (auto simp: v4v_memcpy_to_guest_ring_def)

lemma memcpy_from_ring_loop_ok:
  assumes "ring_mappable env info" "0 < len" "offset < PAGE_SIZE" "len < 2 ^ 31"
    "page * PAGE_SIZE + offset + len \<le> ri_nmfns info * PAGE_SIZE"
  shows "\<exists>info'. v4v_memcpy_from_guest_ring_loop env mem info page offset len
      = (Inr (rbs (ri_frames info) mem (page * PAGE_SIZE + offset) len), info') \<and>
    ri_same info info' \<and> ri_wf info'"
  using assms
proof (induction env mem info page offset len rule: v4v_memcpy_from_guest_ring_loop.induct)
  case (1 env mem info page offset len)
  note IH = "1.IH"(1)
  have wf: "ri_wf info" and ok: "\<forall>m\<in>set (ri_frames info). map_page_ok env m"
    using "1.prems"(1) by (auto simp: ring_mappable_def)
  have p: "page < ri_nmfns info"
    using page_bound [of page "offset + len" "ri_nmfns info"] "1.prems"(2,5) by simp
  obtain info1 where mp: "v4v_ring_map_page env info page = (Inr (ri_frames info ! page), info1)"
    and same: "ri_same info info1" and wf1: "ri_wf info1"
    using map_page_ok [OF wf p ok] .
  have u: "u32 (offset + len) = offset + len"
    using "1.prems"(3,4) by (simp add: PAGE_SIZE_def)
  have pg: "page_read mem (ri_frames info ! page) offset k =
      rbs (ri_frames info) mem (page * PAGE_SIZE + offset) k" if "offset + k \<le> PAGE_SIZE" for k
    using that by (auto intro!: nth_equalityI simp: page_read_def rb_def add.assoc)
  show ?case
  proof (cases "PAGE_SIZE < offset + len")
    case False
    then show ?thesis
      using mp same wf1 u pg [of len] by (simp add: v4v_memcpy_from_guest_ring_loop.simps)
  next
    case True
    let ?n = "PAGE_SIZE - offset"
    have c: "offset < PAGE_SIZE \<and> PAGE_SIZE < u32 (offset + len)"
      using True "1.prems"(3) u by simp
    have "\<exists>info'. v4v_memcpy_from_guest_ring_loop env mem info1 (page + 1) 0 (len - ?n)
        = (Inr (rbs (ri_frames info1) mem ((page + 1) * PAGE_SIZE + 0) (len - ?n)), info') \<and>
        ri_same info1 info' \<and> ri_wf info'"
    proof (rule IH [OF c mp [symmetric] refl])
      show "ring_mappable env info1"
        using "1.prems"(1) same wf1 by (rule ring_mappable_same)
      show "(page + 1) * PAGE_SIZE + 0 + (len - ?n) \<le> ri_nmfns info1 * PAGE_SIZE"
        using "1.prems"(3,5) True ri_same_fields(6) [OF same] by simp
    qed (use True "1.prems" in auto)
    moreover have "rbs (ri_frames info) mem (page * PAGE_SIZE + offset) len =
        page_read mem (ri_frames info ! page) offset ?n @
        rbs (ri_frames info) mem ((page + 1) * PAGE_SIZE) (len - ?n)"
      using True "1.prems"(3) pg [of ?n]
      by (auto intro!: nth_equalityI simp: nth_append algebra_simps)
    ultimately show ?thesis
      using c mp ri_same_trans [OF same] ri_same_fields(9) [OF same]
      by (auto simp: v4v_memcpy_from_guest_ring_loop.simps [of env mem info page offset len])
  qed
qed

lemma memcpy_from_ring_ok:
  assumes "ring_mappable env info" "0 < len" "len < 2 ^ 31"
    "offset + len \<le> ri_nmfns info * PAGE_SIZE"
  obtains info' where "v4v_memcpy_from_guest_ring env mem info offset len =
      (Inr (rbs (ri_frames info) mem offset len), info')"
    and "ri_same info info'" and "ri_wf info'"
  using memcpy_from_ring_loop_ok [OF assms(1,2) _ assms(3), of "offset mod PAGE_SIZE" "offset div PAGE_SIZE" mem]
    assms(4) that by (auto simp: v4v_memcpy_from_guest_ring_def)

text \<open>
  Copying from the sender: the source is readable, does not wrap into the ring's own frames,
  and what it held before the copy is what arrives.
\<close>

definition src_ok :: "v4v_env \<Rightarrow> mem \<Rightarrow> mfn list \<Rightarrow> nat \<Rightarrow> byte list \<Rightarrow> bool" where
  "src_ok env mem fs addr bs \<longleftrightarrow>
     guest_ready (cur env) \<and> addr < 2 ^ 64 \<and>
     guest_bytes (cur env) mem addr (length bs) = map Some bs \<and>
     guest_frames (cur env) addr (length bs) \<inter> set fs = {}"

lemma src_ok_split:
  assumes "src_ok env mem fs addr (xs @ ys)"
  shows "src_ok env mem fs addr xs" and "src_ok env mem fs (u64 (addr + length xs)) ys"
proof -
  let ?g = "cur env"
  have e: "guest_bytes ?g mem addr (length xs) @
      guest_bytes ?g mem (u64 (addr + length xs)) (length ys) = map Some xs @ map Some ys"
    using assms guest_bytes_split [of "length xs" "length (xs @ ys)" ?g mem addr]
    by (simp add: src_ok_def)
  have f: "guest_frames ?g addr (length xs) \<subseteq> guest_frames ?g addr (length (xs @ ys))"
    "guest_frames ?g (u64 (addr + length xs)) (length ys) \<subseteq> guest_frames ?g addr (length (xs @ ys))"
    using guest_frames_mono [of "length xs" "length (xs @ ys)" ?g addr] by auto
  show "src_ok env mem fs addr xs" "src_ok env mem fs (u64 (addr + length xs)) ys"
    using assms e f by (auto simp: src_ok_def)
qed

lemma src_ok_upd:
  "src_ok env mem fs addr bs \<Longrightarrow> ring_upd fs mem mem' off xs \<Longrightarrow> src_ok env mem' fs addr bs"
  by (auto simp: src_ok_def ring_upd_guest_bytes)

lemma src_ok_frame:
  assumes "src_ok env mem fs addr bs" "d \<in> set fs"
  shows "copy_from_guest_to_frame_errno (cur env) mem d off addr (length bs) =
    (None, page_write mem d off bs)"
  using assms by (intro copy_from_guest_to_frame_errno_okay) (auto simp: src_ok_def)

lemma memcpy_from_guest_loop_ok:
  assumes "ring_mappable env info" "src_ok env mem (ri_frames info) src_hnd bs" "len = length bs"
    "0 < len" "offset < PAGE_SIZE" "len < 2 ^ 31"
    "page * PAGE_SIZE + offset + len \<le> ri_nmfns info * PAGE_SIZE"
  shows "\<exists>info' mem'. v4v_memcpy_to_guest_ring_from_guest_loop env mem info page offset src_hnd len
      = (None, info', mem') \<and> ri_same info info' \<and> ri_wf info' \<and>
    ring_upd (ri_frames info) mem mem' (page * PAGE_SIZE + offset) bs"
  using assms
proof (induction env mem info page offset src_hnd len arbitrary: bs
    rule: v4v_memcpy_to_guest_ring_from_guest_loop.induct)
  case (1 env mem info page offset src_hnd len)
  note IH = "1.IH"(1)
  have wf: "ri_wf info" and dist: "distinct (ri_frames info)"
    and ok: "\<forall>m\<in>set (ri_frames info). map_page_ok env m"
    using "1.prems"(1) by (auto simp: ring_mappable_def)
  have lf: "length (ri_frames info) = ri_nmfns info" by (rule length_ri_frames [OF wf])
  have p: "page < ri_nmfns info"
    using page_bound [of page "offset + len" "ri_nmfns info"] "1.prems"(4,7) by simp
  then have d: "ri_frames info ! page \<in> set (ri_frames info)" using lf by simp
  obtain info1 where mp: "v4v_ring_map_page env info page = (Inr (ri_frames info ! page), info1)"
    and same: "ri_same info info1" and wf1: "ri_wf info1"
    using map_page_ok [OF wf p ok] .
  have u: "u32 (offset + len) = offset + len"
    using "1.prems"(5,6) by (simp add: PAGE_SIZE_def)
  have ups: "ring_upd (ri_frames info) mem (page_write mem (ri_frames info ! page) offset xs)
      (page * PAGE_SIZE + offset) xs" if "offset + length xs \<le> PAGE_SIZE" for xs
    using that p lf by (intro ring_upd_page_write [OF dist]) auto
  show ?case
  proof (cases "PAGE_SIZE < offset + len")
    case False
    then show ?thesis
      using mp same wf1 u ups [of bs] src_ok_frame [OF "1.prems"(2) d, of offset] "1.prems"(3)
      by (simp add: v4v_memcpy_to_guest_ring_from_guest_loop.simps)
  next
    case True
    let ?n = "PAGE_SIZE - offset" let ?xs = "take ?n bs" let ?ys = "drop ?n bs"
    let ?mem1 = "page_write mem (ri_frames info ! page) offset ?xs"
    have c: "offset < PAGE_SIZE \<and> PAGE_SIZE < u32 (offset + len)"
      using True "1.prems"(5) u by simp
    have ln: "length ?xs = ?n" using True "1.prems"(3,5) by simp
    have so: "src_ok env mem (ri_frames info) src_hnd ?xs"
      "src_ok env mem (ri_frames info) (u64 (src_hnd + ?n)) ?ys"
      using src_ok_split [of env mem "ri_frames info" src_hnd ?xs ?ys] "1.prems"(2) ln by auto
    have cp: "copy_from_guest_to_frame_errno (cur env) mem (ri_frames info ! page) offset src_hnd ?n
        = (None, ?mem1)"
      using src_ok_frame [OF so(1) d, of offset] ln by simp
    have up1: "ring_upd (ri_frames info) mem ?mem1 (page * PAGE_SIZE + offset) ?xs"
      using ups [of ?xs] ln "1.prems"(5) by simp
    have "\<exists>info' mem'. v4v_memcpy_to_guest_ring_from_guest_loop env ?mem1 info1 (page + 1) 0
        (u64 (src_hnd + ?n)) (len - ?n) = (None, info', mem') \<and> ri_same info1 info' \<and> ri_wf info' \<and>
        ring_upd (ri_frames info1) ?mem1 mem' ((page + 1) * PAGE_SIZE + 0) ?ys"
    proof (rule IH [OF c mp [symmetric] refl cp [symmetric] refl])
      show "ring_mappable env info1"
        using "1.prems"(1) same wf1 by (rule ring_mappable_same)
      show "src_ok env ?mem1 (ri_frames info1) (u64 (src_hnd + ?n)) ?ys"
        using src_ok_upd [OF so(2) up1] by (simp add: ri_same_fields(9) [OF same])
      show "(page + 1) * PAGE_SIZE + 0 + (len - ?n) \<le> ri_nmfns info1 * PAGE_SIZE"
        using "1.prems"(5,7) True ri_same_fields(6) [OF same] by simp
    qed (use True "1.prems" in auto)
    then obtain info' mem' where
      r: "v4v_memcpy_to_guest_ring_from_guest_loop env ?mem1 info1 (page + 1) 0
        (u64 (src_hnd + ?n)) (len - ?n) = (None, info', mem')"
      and s': "ri_same info1 info'" "ri_wf info'"
      and u2: "ring_upd (ri_frames info) ?mem1 mem' (page * PAGE_SIZE + offset + ?n) ?ys"
      using "1.prems"(5) by (auto simp: ri_same_fields(9) [OF same] algebra_simps)
    have "ring_upd (ri_frames info) mem mem' (page * PAGE_SIZE + offset) (?xs @ ?ys)"
      using ring_upd_append [OF up1] u2 ln by metis
    then show ?thesis
      using r s' c mp cp ri_same_trans [OF same s'(1)]
      by (simp add: v4v_memcpy_to_guest_ring_from_guest_loop.simps [of env mem info page offset])
  qed
qed

lemma memcpy_from_guest_ok:
  assumes "ring_mappable env info" "src_ok env mem (ri_frames info) src_hnd bs"
    "bs \<noteq> []" "length bs \<le> V4V_RING_MAX_SIZE" "offset + length bs \<le> ri_nmfns info * PAGE_SIZE"
  obtains info' mem' where
    "v4v_memcpy_to_guest_ring_from_guest env mem info offset src_hnd (length bs) = (None, info', mem')"
    and "ri_same info info'" and "ri_wf info'" and "ring_upd (ri_frames info) mem mem' offset bs"
proof -
  have "offset mod PAGE_SIZE < PAGE_SIZE" by simp
  then have le: "\<not> V4V_RING_MAX_SIZE < offset mod PAGE_SIZE"
    by (simp add: v4v_consts del: mod_less_divisor)
  have "\<exists>info' mem'. v4v_memcpy_to_guest_ring_from_guest_loop env mem info (offset div PAGE_SIZE)
      (offset mod PAGE_SIZE) src_hnd (length bs) = (None, info', mem') \<and> ri_same info info' \<and>
      ri_wf info' \<and> ring_upd (ri_frames info) mem mem'
        (offset div PAGE_SIZE * PAGE_SIZE + offset mod PAGE_SIZE) bs"
    using assms by (intro memcpy_from_guest_loop_ok) (auto simp: V4V_RING_MAX_SIZE_def)
  then show thesis
    using that le assms(4) by (auto simp: v4v_memcpy_to_guest_ring_from_guest_def)
qed

end
