(* ===== verification/V4v_Ring_Safety.thy ===== *)
theory V4v_Ring_Safety
  imports V4v_Ring_Copy
begin

text \<open>
  What an insertion can change, with no assumption about the sender, its vectors or the
  contents of the receiver's ring: the bytes written lie in the part of the ring that the
  receive pointer has released, or in the transmit-pointer field of the ring header.
\<close>

section \<open>Touched bytes\<close>

definition touches :: "mfn list \<Rightarrow> mem \<Rightarrow> mem \<Rightarrow> nat set \<Rightarrow> bool" where
  "touches fs mem mem' I \<longleftrightarrow>
     (\<forall>m j. mem' m j \<noteq> mem m j \<longrightarrow>
        (\<exists>i\<in>I. i div PAGE_SIZE < length fs \<and> m = fs ! (i div PAGE_SIZE) \<and> j = i mod PAGE_SIZE))"

lemma touches_refl [simp]: "touches fs mem mem I"
  by (simp add: touches_def)

lemma touches_trans:
  assumes "touches fs mem mem1 I" "touches fs mem1 mem2 J" "I \<union> J \<subseteq> K"
  shows "touches fs mem mem2 K"
  unfolding touches_def
proof (intro allI impI)
  fix m j
  assume "mem2 m j \<noteq> mem m j"
  then have "mem1 m j \<noteq> mem m j \<or> mem2 m j \<noteq> mem1 m j" by auto
  then have "\<exists>i\<in>I \<union> J. i div PAGE_SIZE < length fs \<and> m = fs ! (i div PAGE_SIZE) \<and> j = i mod PAGE_SIZE"
    using assms(1,2) unfolding touches_def by blast
  then show "\<exists>i\<in>K. i div PAGE_SIZE < length fs \<and> m = fs ! (i div PAGE_SIZE) \<and> j = i mod PAGE_SIZE"
    using assms(3) by blast
qed

lemma touches_mono: "touches fs mem mem' I \<Longrightarrow> I \<subseteq> J \<Longrightarrow> touches fs mem mem' J"
  using touches_trans [of fs mem mem' I mem' "{}" J] by simp

lemma touches_page:
  assumes "p < length fs" "n + o' \<le> PAGE_SIZE"
    and "\<And>m j. mem' m j \<noteq> mem m j \<Longrightarrow> m = fs ! p \<and> o' \<le> j \<and> j < o' + n"
  shows "touches fs mem mem' {p * PAGE_SIZE + o' ..< p * PAGE_SIZE + o' + n}"
  unfolding touches_def
proof (intro allI impI)
  fix m j
  assume "mem' m j \<noteq> mem m j"
  then have mj: "m = fs ! p" "o' \<le> j" "j < o' + n" using assms(3) by auto
  then have "j < PAGE_SIZE" using assms(2) by simp
  then have "(p * PAGE_SIZE + j) div PAGE_SIZE = p" "(p * PAGE_SIZE + j) mod PAGE_SIZE = j"
    by (auto simp: div_mult_self3 add.commute)
  with mj assms(1)
  show "\<exists>i\<in>{p * PAGE_SIZE + o' ..< p * PAGE_SIZE + o' + n}.
      i div PAGE_SIZE < length fs \<and> m = fs ! (i div PAGE_SIZE) \<and> j = i mod PAGE_SIZE"
    by (intro bexI [of _ "p * PAGE_SIZE + j"]) auto
qed

lemma touches_page_write:
  assumes "p < length fs" "length bs + o' \<le> PAGE_SIZE"
  shows "touches fs mem (page_write mem (fs ! p) o' bs)
    {p * PAGE_SIZE + o' ..< p * PAGE_SIZE + o' + length bs}"
  using assms by (intro touches_page) (auto simp: page_write_def split: if_splits)

lemma touches_from_guest:
  assumes "p < length fs" "n + o' \<le> PAGE_SIZE"
    "copy_from_guest_to_frame_errno ge mem (fs ! p) o' addr n = (r, mem')"
  shows "touches fs mem mem' {p * PAGE_SIZE + o' ..< p * PAGE_SIZE + o' + n}"
  using assms copy_from_guest_to_frame_errno_frame [OF assms(3)]
  by (intro touches_page) (auto simp: linorder_not_le [symmetric])

lemma memcpy_to_ring_loop_touch:
  assumes "ri_wf info" "offset < PAGE_SIZE" "length src < 2 ^ 31"
    "v4v_memcpy_to_guest_ring_loop env mem info page offset src = (r, info', mem')"
  shows "ri_same info info' \<and> ri_wf info' \<and>
    touches (ri_frames info) mem mem'
      {page * PAGE_SIZE + offset ..< page * PAGE_SIZE + offset + length src}"
  using assms
proof (induction env mem info page offset src rule: v4v_memcpy_to_guest_ring_loop.induct)
  case (1 env mem info page offset src)
  obtain q info1 where mp: "v4v_ring_map_page env info page = (q, info1)" by force
  have mc: "ri_same info info1" "ri_wf info1"
    "q = Inl EFAULT \<or> page < ri_nmfns info \<and> q = Inr (ri_frames info ! page)"
    using map_page_cases [OF "1.prems"(1) mp] by auto
  have u: "u32 (offset + length src) = offset + length src"
    using "1.prems"(2,3) by (simp add: PAGE_SIZE_def)
  show ?case
  proof (cases "q = Inl EFAULT")
    case True
    then show ?thesis
      using "1.prems"(4) mp mc
      by (auto simp: v4v_memcpy_to_guest_ring_loop.simps [of env mem info page] split: if_splits)
  next
    case False
    then have p: "page < length (ri_frames info)" and q: "q = Inr (ri_frames info ! page)"
      using mc(3) length_ri_frames [OF "1.prems"(1)] by auto
    let ?n = "PAGE_SIZE - offset"
    let ?mem1 = "page_write mem (ri_frames info ! page) offset (take ?n src)"
    show ?thesis
    proof (cases "PAGE_SIZE < offset + length src")
      case True
      have c: "offset < PAGE_SIZE \<and> PAGE_SIZE < u32 (offset + length src)"
        using True "1.prems"(2) u by simp
      have IH: "ri_same info1 info' \<and> ri_wf info' \<and> touches (ri_frames info1) ?mem1 mem'
          {(page + 1) * PAGE_SIZE + 0 ..< (page + 1) * PAGE_SIZE + 0 + length (drop ?n src)}"
        using "1.prems"(3,4) mp mc(2) c
        by (intro "1.IH"(1) [OF c mp [unfolded q, symmetric] refl])
          (auto simp: v4v_memcpy_to_guest_ring_loop.simps [of env mem info page] q)
      have "touches (ri_frames info) mem ?mem1
          {page * PAGE_SIZE + offset ..< page * PAGE_SIZE + offset + length (take ?n src)}"
        using p "1.prems"(2) by (intro touches_page_write) auto
      from touches_trans [OF this]
      have "touches (ri_frames info) mem mem'
          {page * PAGE_SIZE + offset ..< page * PAGE_SIZE + offset + length src}"
        using IH True "1.prems"(2) by (auto simp: ri_same_fields(9) [OF mc(1)])
      then show ?thesis using IH mc ri_same_trans by blast
    next
      case False
      then show ?thesis
        using "1.prems"(4) mp mc q u p touches_page_write [of page "ri_frames info" src offset mem]
        by (auto simp: v4v_memcpy_to_guest_ring_loop.simps [of env mem info page])
    qed
  qed
qed

lemma memcpy_to_ring_touch:
  assumes "ri_wf info" "length src < 2 ^ 31"
    "v4v_memcpy_to_guest_ring env mem info offset src = (r, info', mem')"
  shows "ri_same info info'" "ri_wf info'"
    "touches (ri_frames info) mem mem' {offset ..< offset + length src}"
  using memcpy_to_ring_loop_touch [OF assms(1) _ assms(2), of "offset mod PAGE_SIZE" env mem
      "offset div PAGE_SIZE"] assms(3)
  by (auto simp: v4v_memcpy_to_guest_ring_def)

lemma memcpy_from_guest_loop_touch:
  assumes "ri_wf info" "offset < PAGE_SIZE" "len < 2 ^ 31"
    "v4v_memcpy_to_guest_ring_from_guest_loop env mem info page offset hnd len = (r, info', mem')"
  shows "ri_same info info' \<and> ri_wf info' \<and>
    touches (ri_frames info) mem mem'
      {page * PAGE_SIZE + offset ..< page * PAGE_SIZE + offset + len}"
  using assms
proof (induction env mem info page offset hnd len
    rule: v4v_memcpy_to_guest_ring_from_guest_loop.induct)
  case (1 env mem info page offset hnd len)
  obtain q info1 where mp: "v4v_ring_map_page env info page = (q, info1)" by force
  have mc: "ri_same info info1" "ri_wf info1"
    "q = Inl EFAULT \<or> page < ri_nmfns info \<and> q = Inr (ri_frames info ! page)"
    using map_page_cases [OF "1.prems"(1) mp] by auto
  have u: "u32 (offset + len) = offset + len"
    using "1.prems"(2,3) by (simp add: PAGE_SIZE_def)
  note unf = v4v_memcpy_to_guest_ring_from_guest_loop.simps [of env mem info page]
  show ?case
  proof (cases "q = Inl EFAULT")
    case True
    then show ?thesis
      using "1.prems"(4) mp mc by (auto simp: unf split: if_splits)
  next
    case False
    then have p: "page < length (ri_frames info)" and q: "q = Inr (ri_frames info ! page)"
      using mc(3) length_ri_frames [OF "1.prems"(1)] by auto
    let ?n = "PAGE_SIZE - offset"
    show ?thesis
    proof (cases "PAGE_SIZE < offset + len")
      case True
      have c: "offset < PAGE_SIZE \<and> PAGE_SIZE < u32 (offset + len)"
        using True "1.prems"(2) u by simp
      obtain e mem1 where cp: "copy_from_guest_to_frame_errno (cur env) mem (ri_frames info ! page)
          offset hnd ?n = (e, mem1)" by force
      have t1: "touches (ri_frames info) mem mem1
          {page * PAGE_SIZE + offset ..< page * PAGE_SIZE + offset + ?n}"
        using p "1.prems"(2) by (intro touches_from_guest [OF _ _ cp]) auto
      show ?thesis
      proof (cases e)
        case None
        have IH: "ri_same info1 info' \<and> ri_wf info' \<and> touches (ri_frames info1) mem1 mem'
            {(page + 1) * PAGE_SIZE + 0 ..< (page + 1) * PAGE_SIZE + 0 + (len - ?n)}"
          using "1.prems"(3,4) mp mc(2) c cp None
          by (intro "1.IH"(1) [OF c mp [unfolded q, symmetric] refl cp [unfolded None, symmetric] refl])
            (auto simp: unf q)
        from touches_trans [OF t1]
        have "touches (ri_frames info) mem mem'
            {page * PAGE_SIZE + offset ..< page * PAGE_SIZE + offset + len}"
          using IH True "1.prems"(2) by (auto simp: ri_same_fields(9) [OF mc(1)])
        then show ?thesis using IH mc ri_same_trans by blast
      next
        case (Some x)
        then have "info' = info1" "mem' = mem1"
          using "1.prems"(4) mp q c cp by (auto simp: unf)
        moreover have "touches (ri_frames info) mem mem1
            {page * PAGE_SIZE + offset ..< page * PAGE_SIZE + offset + len}"
          using True "1.prems"(2) by (intro touches_mono [OF t1]) auto
        ultimately show ?thesis using mc by simp
      qed
    next
      case False
      then have "(r, mem') = copy_from_guest_to_frame_errno (cur env) mem (ri_frames info ! page)
          offset hnd len" "info' = info1"
        using "1.prems"(4) mp q u by (auto simp: unf split: prod.splits)
      then show ?thesis
        using mc p False touches_from_guest [of page "ri_frames info" len offset "cur env" mem hnd r mem']
        by auto
    qed
  qed
qed

lemma memcpy_from_guest_touch:
  assumes "ri_wf info"
    "v4v_memcpy_to_guest_ring_from_guest env mem info offset hnd len = (r, info', mem')"
  shows "ri_same info info'" "ri_wf info'"
    "touches (ri_frames info) mem mem' {offset ..< offset + len}"
proof -
  have "ri_same info info' \<and> ri_wf info' \<and>
    touches (ri_frames info) mem mem' {offset ..< offset + len}"
  proof (cases "V4V_RING_MAX_SIZE < len \<or> V4V_RING_MAX_SIZE < offset mod PAGE_SIZE")
    case True
    then show ?thesis
      using assms by (auto simp: v4v_memcpy_to_guest_ring_from_guest_def)
  next
    case False
    then show ?thesis
      using memcpy_from_guest_loop_touch [OF assms(1), of "offset mod PAGE_SIZE" len env mem
          "offset div PAGE_SIZE" hnd r info' mem'] assms(2)
      by (auto simp: v4v_memcpy_to_guest_ring_from_guest_def V4V_RING_MAX_SIZE_def)
  qed
  then show "ri_same info info'" "ri_wf info'"
    "touches (ri_frames info) mem mem' {offset ..< offset + len}" by auto
qed


section \<open>Ring geometry\<close>

text \<open>\<open>k\<close> consecutive positions of a ring of \<open>L\<close> bytes, starting at \<open>t\<close>.\<close>

definition circ :: "nat \<Rightarrow> nat \<Rightarrow> nat \<Rightarrow> nat set" where
  "circ L t k = (\<lambda>i. (t + i) mod L) ` {..<k}"

abbreviation msg_area :: "nat set \<Rightarrow> nat set" where
  "msg_area I \<equiv> (+) SIZEOF_RING ` I"

lemma circ_mono: "k \<le> k' \<Longrightarrow> circ L t k \<subseteq> circ L t k'"
  by (auto simp: circ_def)

lemma circ_step:
  assumes "k + k' \<le> n"
  shows "circ L ((t + k) mod L) k' \<subseteq> circ L t n"
proof
  fix x
  assume "x \<in> circ L ((t + k) mod L) k'"
  then obtain i where "i < k'" "x = (t + (k + i)) mod L"
    by (auto simp: circ_def mod_add_left_eq add.assoc)
  with assms show "x \<in> circ L t n"
    by (auto simp: circ_def intro: image_eqI [of _ _ "k + i"])
qed

lemma circ_low: "t + k \<le> L \<Longrightarrow> {t ..< t + k} \<subseteq> circ L t k"
proof
  fix x
  assume "t + k \<le> L" "x \<in> {t ..< t + k}"
  then have "x = (t + (x - t)) mod L" "x - t < k" by auto
  then show "x \<in> circ L t k"
    unfolding circ_def by blast
qed

lemma circ_wrap:
  assumes "t < L" "k \<le> L" "L - t < k"
  shows "{t ..< L} \<subseteq> circ L t k" "{0 ..< k - (L - t)} \<subseteq> circ L t k"
proof -
  show "{t ..< L} \<subseteq> circ L t k"
    using circ_low [of t "L - t" L] circ_mono [of "L - t" k L t] assms by auto
  have "{0 ..< 0 + (k - (L - t))} \<subseteq> circ L 0 (k - (L - t))"
    using assms by (intro circ_low) auto
  also have "circ L 0 (k - (L - t)) \<subseteq> circ L t k"
    using circ_step [of "L - t" "k - (L - t)" k L t] assms by simp
  finally show "{0 ..< k - (L - t)} \<subseteq> circ L t k" by simp
qed

lemma touches_msg_area:
  assumes "touches fs mem mem' {64 + a ..< 64 + a + n}" "{a ..< a + n} \<subseteq> I"
  shows "touches fs mem mem' (msg_area I)"
proof (rule touches_mono [OF assms(1)])
  have "{64 + a ..< 64 + a + n} = msg_area {a ..< a + n}"
    by (simp add: SIZEOF_RING_def ac_simps)
  also have "\<dots> \<subseteq> msg_area I" using assms(2) by blast
  finally show "{64 + a ..< 64 + a + n} \<subseteq> msg_area I" .
qed

section \<open>One piece of payload\<close>

definition ring_len_ok :: "nat \<Rightarrow> bool" where
  "ring_len_ok L \<longleftrightarrow> 0 < L \<and> L \<le> V4V_MAX_RING_SIZE"

lemma ring_len_okD: "ring_len_ok L \<Longrightarrow> 0 < L \<and> L \<le> 16777216"
  by (simp add: ring_len_ok_def V4V_MAX_RING_SIZE_def)

lemma insert_piece_touch:
  assumes "ri_wf (is_info st)" "ri_len (is_info st) = L" "ring_len_ok L" "is_tx st < L"
    "0 < k" "k < L" "insert_piece env st L buf k = (r, st')"
  shows "ri_same (is_info st) (is_info st') \<and> ri_wf (is_info st') \<and>
    touches (ri_frames (is_info st)) (is_mem st) (is_mem st') (msg_area (circ L (is_tx st) k)) \<and>
    (r = None \<longrightarrow> is_tx st' = (is_tx st + k) mod L)"
proof -
  let ?fs = "ri_frames (is_info st)" and ?t = "is_tx st"
  have L: "L \<le> 16777216" using ring_len_okD [OF assms(3)] by simp
  have sp: "u32_sub L ?t = L - ?t" using assms(4) L by (intro u32_sub_le) auto
  have ut: "u32 (?t + SIZEOF_RING) = ?t + 64" using assms(4) L by (simp add: SIZEOF_RING_def)
  show ?thesis
  proof (cases "L - ?t < k")
    case False
    obtain e info mem where cp: "v4v_memcpy_to_guest_ring_from_guest env (is_mem st) (is_info st)
        (?t + 64) buf k = (e, info, mem)" by (metis prod_cases3)
    note t = memcpy_from_guest_touch [OF assms(1) cp]
    have "touches ?fs (is_mem st) mem (msg_area (circ L ?t k))"
      using t(3) circ_low [of ?t k L] False assms(4)
      by (intro touches_msg_area [of _ _ _ ?t k]) (auto simp: add.commute)
    moreover have "u32 (?t + k) = ?t + k" using False assms(4) L by simp
    ultimately show ?thesis
      using assms(2,4,7) False cp sp ut t(1,2)
      by (auto simp: insert_piece_def Let_def ri_same_fields split: option.splits)
  next
    case True
    obtain e info mem where cp: "v4v_memcpy_to_guest_ring_from_guest env (is_mem st) (is_info st)
        (?t + 64) buf (L - ?t) = (e, info, mem)" by (metis prod_cases3)
    note t = memcpy_from_guest_touch [OF assms(1) cp]
    have t1: "touches ?fs (is_mem st) mem (msg_area (circ L ?t k))"
      using t(3) circ_wrap(1) [of ?t L k] True assms(4,6)
      by (intro touches_msg_area [of _ _ _ ?t "L - ?t"]) (auto simp: add.commute)
    show ?thesis
    proof (cases e)
      case (Some x)
      then show ?thesis
        using assms(7) True cp sp ut t(1,2) t1
        by (auto simp: insert_piece_def Let_def)
    next
      case None
      let ?k2 = "k - (L - ?t)"
      obtain e2 info2 mem2 where cp2: "v4v_memcpy_to_guest_ring_from_guest env mem info
          64 (u64 (buf + (L - ?t))) ?k2 = (e2, info2, mem2)" by (metis prod_cases3)
      note t2 = memcpy_from_guest_touch [OF t(2) cp2]
      have "touches ?fs mem mem2 (msg_area (circ L ?t k))"
        using circ_wrap(2) [of ?t L k] True assms(4,6) t2(3) ri_same_fields(9) [OF t(1)]
        by (intro touches_msg_area [of _ _ _ 0 ?k2]) auto
      then have "touches ?fs (is_mem st) mem2 (msg_area (circ L ?t k))"
        using touches_trans [OF t1] by blast
      moreover have "(?t + k) mod L = ?k2"
        using True assms(4,6) by (simp add: le_mod_geq)
      moreover have "ri_len info2 = L" "u32 ?k2 = ?k2" "u32 SIZEOF_RING = 64" "?k2 < L"
        using assms(2,6) L ri_same_fields(2) [OF t(1)] ri_same_fields(2) [OF t2(1)]
        by (auto simp: SIZEOF_RING_def)
      ultimately show ?thesis
        using assms(7) True cp cp2 None sp ut t2(2) ri_same_trans [OF t(1) t2(1)]
        by (auto simp: insert_piece_def Let_def split: option.splits)
    qed
  qed
qed


section \<open>The copy loop and the whole insertion\<close>

lemma nat_mod_2p32: "0 \<le> (l::int) \<Longrightarrow> l < 4294967296 \<Longrightarrow> nat (l mod 4294967296) = nat l"
  by simp

lemma insert_loop_touch:
  assumes "ri_wf (is_info st)" "ri_len (is_info st) = L" "ring_len_ok L" "is_tx st < L"
    "0 \<le> len" "len < int L" "insert_loop env st L buf len iovs niov = (r, st')"
  shows "ri_same (is_info st) (is_info st') \<and> ri_wf (is_info st') \<and>
    touches (ri_frames (is_info st)) (is_mem st) (is_mem st') (msg_area (circ L (is_tx st) (nat len))) \<and>
    (r = None \<longrightarrow> is_tx st' = (is_tx st + nat len) mod L)"
  using assms
proof (induction env st L buf len iovs niov arbitrary: r st' rule: insert_loop.induct)
  case (1 env st L buf len iovs)
  have "nat (len mod 2 ^ 32) = nat len"
    using "1.prems" ring_len_okD [of L] by simp
  then show ?case
    using "1.prems" insert_piece_touch [of st L "nat len" env buf r st']
    by (cases "len = 0") (auto simp: Let_def split: if_splits)
next
  case (2 env st L buf len iovs niov)
  have nl: "nat (len mod 2 ^ 32) = nat len"
    using "2.prems" ring_len_okD [of L] by simp
  show ?case
  proof (cases "copy_from_guest_errno (cur env) (is_mem st) iovs 16")
    case (Inl e)
    then show ?thesis using "2.prems" by auto
  next
    case (Inr bs)
    let ?k = "u32 (snd (parse_iov bs))" and ?b = "fst (parse_iov bs)"
    show ?thesis
    proof (cases "?k = 0")
      case True
      then show ?thesis
        using "2.IH"(1) [OF Inr refl refl True] "2.prems" Inr by (simp add: Let_def)
    next
      case k: False
      show ?thesis
      proof (cases "V4V_MAX_RING_SIZE < ?k \<or> \<not> guest_handle_okay (cur env) ?b ?k \<or> nat len < ?k")
        case True
        then have "st' = st" and "r \<noteq> None"
          using "2.prems"(7) Inr k nl by (auto simp: Let_def split: if_splits)
        then show ?thesis using "2.prems" by auto
      next
        case False
        obtain r1 st1 where pc: "insert_piece env st L ?b ?k = (r1, st1)" by force
        have kL: "?k < L" using False "2.prems"(5,6) by linarith
        have t1: "ri_same (is_info st) (is_info st1)" "ri_wf (is_info st1)"
          "touches (ri_frames (is_info st)) (is_mem st) (is_mem st1) (msg_area (circ L (is_tx st) ?k))"
          "r1 = None \<Longrightarrow> is_tx st1 = (is_tx st + ?k) mod L"
          using insert_piece_touch [OF "2.prems"(1-4) _ kL pc] k by auto
        have mono: "msg_area (circ L (is_tx st) ?k) \<subseteq> msg_area (circ L (is_tx st) (nat len))"
          using False by (intro image_mono circ_mono) simp
        show ?thesis
        proof (cases r1)
          case (Some e)
          then have "st' = st1" "r \<noteq> None"
            using "2.prems"(7) Inr k nl False pc by (auto simp: Let_def)
          then show ?thesis using t1 touches_mono [OF _ mono] by auto
        next
          case None
          let ?len1 = "s32 (len - int ?k)"
          have l1: "?len1 = len - int ?k"
            using False "2.prems"(5,6) ring_len_okD [OF "2.prems"(3)] by (intro s32_id) linarith+
          have tx1: "is_tx st1 < L" using t1(4) None "2.prems"(4) by simp
          have kl: "int ?k \<le> len" using False k by linarith
          let ?c = "u32_sub L (is_tx st)"
          have "insert_loop env st1 L (u64 (?b + (if ?c < ?k then ?c else 0))) ?len1
              (u64 (iovs + 16)) niov = (r, st')"
            using "2.prems"(7) Inr k nl False pc None by (simp add: Let_def)
          then have IH: "ri_same (is_info st1) (is_info st')" "ri_wf (is_info st')"
            "touches (ri_frames (is_info st1)) (is_mem st1) (is_mem st')
               (msg_area (circ L (is_tx st1) (nat ?len1)))"
            "r = None \<Longrightarrow> is_tx st' = (is_tx st1 + nat ?len1) mod L"
            using "2.IH"(2) [OF Inr refl refl k _ _ _ pc [symmetric] None, of r st'] "2.prems"(2,3)
              False nl t1(1,2) tx1 l1 kl "2.prems"(6) ri_same_fields(2) [OF t1(1)]
            by (auto simp: None pc)
          have sub: "circ L (is_tx st1) (nat ?len1) \<subseteq> circ L (is_tx st) (nat len)"
            unfolding t1(4) [OF None] l1 using False by (intro circ_step) linarith
          have "touches (ri_frames (is_info st)) (is_mem st) (is_mem st')
              (msg_area (circ L (is_tx st) (nat len)))"
            using touches_trans [OF t1(3)] IH(3) mono sub ri_same_fields(9) [OF t1(1)]
            by (metis Un_least image_mono)
          moreover have "?k + nat ?len1 = nat len" using kl l1 by linarith
          then have "r = None \<longrightarrow> is_tx st' = (is_tx st + nat len) mod L"
            using IH(4) t1(4) [OF None] by (metis add.assoc mod_add_left_eq)
          ultimately show ?thesis
            using ri_same_trans [OF t1(1) IH(1)] IH(2) by blast
        qed
      qed
    qed
  qed
qed


text \<open>Rounding and space, as natural numbers.\<close>

definition round16 :: "nat \<Rightarrow> nat" where
  "round16 n = (n + 15) div 16 * 16"

lemma round16_ge: "n \<le> round16 n"
  unfolding round16_def by linarith

lemma round16_dvd [simp]: "16 dvd round16 n"
  by (simp add: round16_def)

lemma V4V_ROUNDUP_eq: "n < 4294967281 \<Longrightarrow> V4V_ROUNDUP n = round16 n"
  by (simp add: V4V_ROUNDUP_def round16_def)

lemma V4V_ROUNDUP_dvd [simp]: "16 dvd V4V_ROUNDUP n"
  by (simp add: V4V_ROUNDUP_def)

lemma round16_id: "16 dvd n \<Longrightarrow> round16 n = n"
  by (auto simp: round16_def)

text \<open>
  The size check on a signed length lets exactly the lengths that fit pass, and the handful of
  negative lengths just below zero (from a 32-bit argument near \<open>2 ^ 32\<close>).
\<close>

lemma ROUNDUP_s_ge: "- 2147483648 \<le> V4V_ROUNDUP_s len"
  using s32_range [of "len + 15"] zdiv_mono1 [of "- 2147483648" "s32 (len + 15)" 16]
  by (simp add: V4V_ROUNDUP_s_def)

lemma msg_space_neg:
  assumes "V4V_ROUNDUP_s len \<le> - 32"
  shows "16777216 < msg_space len"
proof -
  let ?r = "V4V_ROUNDUP_s len"
  have "(?r + 18446744073709551616) mod 18446744073709551616 = ?r + 18446744073709551616"
    using assms ROUNDUP_s_ge [of len] by (intro mod_pos_pos_trivial) auto
  then have "u64_of_int ?r = nat (?r + 18446744073709551616)"
    by (simp add: u64_of_int_def)
  then have "msg_space len = nat (?r + 18446744073709551632)"
    using assms ROUNDUP_s_ge [of len]
    by (simp add: msg_space_def SIZEOF_MH_def u64_def nat_add_distrib [symmetric])
  then show ?thesis using ROUNDUP_s_ge [of len] by linarith
qed

lemma msg_space_pos:
  assumes "0 \<le> len" "len + 15 < 2147483648"
  shows "msg_space len = round16 (nat len) + 16"
proof -
  have "nat ((len + 15) div 16 * 16) = round16 (nat len)"
    using assms(1) by (simp add: round16_def nat_mult_distrib nat_div_distrib nat_add_distrib)
  moreover have "round16 (nat len) < 2147483664"
    using assms unfolding round16_def by linarith
  ultimately show ?thesis
    using assms by (simp add: msg_space_def V4V_ROUNDUP_s_def SIZEOF_MH_def)
qed

lemma msg_space_cases:
  assumes "- 2147483648 \<le> len" "len < 2147483648" "msg_space len \<le> 16777216"
  shows "0 \<le> len \<and> msg_space len = round16 (nat len) + 16 \<or> len < 0 \<and> - 32 < len"
proof (cases "len + 15 < 2147483648")
  case True
  then have "V4V_ROUNDUP_s len = (len + 15) div 16 * 16"
    using assms(1) by (simp add: V4V_ROUNDUP_s_def)
  moreover have "(len + 15) div 16 \<le> - 2" if "\<not> - 32 < len"
    using that zdiv_mono1 [of "len + 15" "- 17" 16] by simp
  ultimately have "- 32 < len"
    using msg_space_neg [of len] assms(3) by fastforce
  then show ?thesis
    using msg_space_pos [OF _ True] by linarith
next
  case False
  then have s: "s32 (len + 15) = len + 15 - 4294967296"
    using assms(2) by (simp add: s32_def mod_pos_geq)
  have "V4V_ROUNDUP_s len \<le> - 32"
    using False assms(2) zdiv_mono1 [of "len + 15 - 4294967296" "- 32" 16]
    by (simp add: V4V_ROUNDUP_s_def s)
  then have False
    using msg_space_neg assms(3) by fastforce
  then show ?thesis ..
qed


text \<open>The pointers of a live ring: 16-byte aligned and inside it.\<close>

definition ri_inv :: "v4v_ring_info \<Rightarrow> bool" where
  "ri_inv info \<longleftrightarrow> ri_wf info \<and>
     (0 < ri_len info \<longrightarrow>
        ring_len_ok (ri_len info) \<and> 16 dvd ri_len info \<and>
        16 dvd ri_tx_ptr info \<and> ri_tx_ptr info < ri_len info)"

lemma ri_inv_same: "ri_inv info \<Longrightarrow> ri_same info info' \<Longrightarrow> ri_wf info' \<Longrightarrow> ri_inv info'"
  by (simp add: ri_inv_def ri_same_fields)

text \<open>The free bytes from transmit pointer \<open>tx\<close> to receive pointer \<open>rx\<close>.\<close>

definition free_bytes :: "nat \<Rightarrow> nat \<Rightarrow> nat \<Rightarrow> nat" where
  "free_bytes L rx tx = (if rx = tx then L else (rx + L - tx) mod L)"

lemma free_bytes_bounds:
  assumes "rx < L" "tx < L"
  shows "0 < free_bytes L rx tx" "free_bytes L rx tx \<le> L"
  using assms by (auto simp: free_bytes_def mod_if)

lemma free_bytes_dvd:
  assumes "16 dvd L" "16 dvd rx" "16 dvd tx" "rx < L" "tx < L"
  shows "16 dvd free_bytes L rx tx"
  using assms by (auto simp: free_bytes_def dvd_mod)

lemma sanitize_fields:
  fixes r :: v4v_ring
  assumes "0 < ri_len info"
  defines "ring \<equiv> v4v_sanitize_ring r info"
  shows "rg_tx_ptr ring = ri_tx_ptr info" "rg_len ring = ri_len info"
    "rg_rx_ptr ring < ri_len info" "16 dvd rg_rx_ptr ring"
  using assms by (auto simp: v4v_sanitize_ring_def Let_def)

lemma ring_free_eq:
  fixes r :: v4v_ring
  assumes "ri_inv info" "0 < ri_len info"
  defines "ring \<equiv> v4v_sanitize_ring r info"
  shows "ring_free ring info = int (free_bytes (ri_len info) (rg_rx_ptr ring) (ri_tx_ptr info))"
    (is "_ = int (free_bytes ?L ?rx ?tx)")
proof -
  have L: "?L \<le> 16777216" "?tx < ?L"
    using assms ring_len_okD by (auto simp: ri_inv_def)
  have f: "rg_tx_ptr ring = ?tx" "rg_len ring = ?L" "?rx < ?L"
    using sanitize_fields [OF assms(2)] by (auto simp: ring_def)
  have "int ((?rx + ?L - ?tx) mod ?L) = (if ?rx < ?tx then int ?rx - int ?tx + int ?L else int ?rx - int ?tx)"
    using f L by (auto simp: le_mod_geq of_nat_diff)
  then show ?thesis
    using f L by (auto simp: ring_free_def free_bytes_def Let_def)
qed


lemma memcpy_from_ring_loop_same:
  assumes "ri_wf info"
    "v4v_memcpy_from_guest_ring_loop env mem info page offset len = (r, info')"
  shows "ri_same info info' \<and> ri_wf info'"
  using assms
proof (induction env mem info page offset len arbitrary: r info'
    rule: v4v_memcpy_from_guest_ring_loop.induct)
  case (1 env mem info page offset len)
  obtain q info1 where mp: "v4v_ring_map_page env info page = (q, info1)" by force
  have mc: "ri_same info info1" "ri_wf info1"
    using map_page_cases [OF "1.prems"(1) mp] by auto
  note unf = v4v_memcpy_from_guest_ring_loop.simps [of env mem info page offset len]
  show ?case
  proof (cases "offset < PAGE_SIZE \<and> PAGE_SIZE < u32 (offset + len) \<and> isl q = False")
    case True
    then obtain m where q: "q = Inr m" by (cases q) auto
    obtain r2 info2 where l: "v4v_memcpy_from_guest_ring_loop env mem info1 (page + 1) 0
        (len - (PAGE_SIZE - offset)) = (r2, info2)" by force
    have "ri_same info1 info2 \<and> ri_wf info2"
      using "1.IH"(1) [OF _ mp [unfolded q, symmetric] refl mc(2) l] True by blast
    moreover have "info' = info2"
      using "1.prems"(2) True mp q l by (auto simp: unf split: sum.splits)
    ultimately show ?thesis using mc ri_same_trans by blast
  next
    case False
    then have "info' = info1"
      using "1.prems"(2) mp by (auto simp: unf split: sum.splits if_splits)
    then show ?thesis using mc by simp
  qed
qed

lemma update_tx_ptr_touch:
  assumes "ri_wf info" "v4v_update_tx_ptr env mem info tx = (r, info', mem')"
  shows "ri_same info info'" "ri_wf info'" "touches (ri_frames info) mem mem' {24..<28}"
proof -
  obtain q info1 where mp: "v4v_ring_map_page env info 0 = (q, info1)" by force
  have mc: "ri_same info info1" "ri_wf info1"
    "q = Inl EFAULT \<or> 0 < ri_nmfns info \<and> q = Inr (ri_frames info ! 0)"
    using map_page_cases [OF assms(1) mp] by auto
  have "touches (ri_frames info) mem (page_write mem (ri_frames info ! 0) 24 (le_bytes 4 tx)) {24..<28}"
    if "0 < ri_nmfns info"
    using that touches_page_write [of 0 "ri_frames info" "le_bytes 4 tx" 24 mem]
    by (simp add: PAGE_SIZE_def length_ri_frames [OF assms(1)])
  then show "ri_same info info'" "ri_wf info'" "touches (ri_frames info) mem mem' {24..<28}"
    using assms(2) mp mc by (auto simp: v4v_update_tx_ptr_def OFF_TX_PTR_def)
qed

lemma length_encode_mh [simp]: "length (encode_mh n s p) = 16"
  by (simp add: encode_mh_def)

text \<open>The receive pointer as the hypervisor sees it: read from the guest, then sanitised.\<close>

definition seen_rx :: "v4v_env \<Rightarrow> mem \<Rightarrow> v4v_ring_info \<Rightarrow> nat" where
  "seen_rx env mem info =
     (case v4v_memcpy_from_guest_ring env mem info 0 SIZEOF_RING of
        (Inl _, _) \<Rightarrow> ri_tx_ptr info
      | (Inr bs, _) \<Rightarrow> rg_rx_ptr (v4v_sanitize_ring (parse_ring bs) info))"

lemma ri_inv_set_tx:
  assumes "ri_inv info" "16 dvd t" "t < ri_len info"
  shows "ri_inv (info\<lparr>ri_tx_ptr := t\<rparr>)"
  using assms by (auto simp: ri_inv_def ri_wf_def split: option.splits)

lemma ri_frames_set_tx [simp]: "ri_frames (info\<lparr>ri_tx_ptr := t\<rparr>) = ri_frames info"
  by (simp add: ri_frames_def)

text \<open>What every operation on a ring leaves alone, given the bytes \<open>F\<close> it may change.\<close>

definition ring_step :: "nat set \<Rightarrow> v4v_ring_info \<Rightarrow> mem \<Rightarrow> v4v_ring_info \<Rightarrow> mem \<Rightarrow> bool" where
  "ring_step F info mem info' mem' \<longleftrightarrow>
     ri_inv info' \<and> touches (ri_frames info) mem mem' F \<and>
     info' = info\<lparr>ri_tx_ptr := ri_tx_ptr info', ri_mfn_mapping := ri_mfn_mapping info'\<rparr>"

lemma ring_step_fields:
  assumes "ring_step F info mem info' mem'"
  shows "ri_id info' = ri_id info" "ri_len info' = ri_len info" "ri_frames info' = ri_frames info"
    "ri_pending info' = ri_pending info" "ri_inv info'" "ri_nmfns info' = ri_nmfns info"
    "ri_npage info' = ri_npage info" "ri_mfns info' = ri_mfns info" "ri_ring info' = ri_ring info"
proof -
  obtain t x where e: "info' = info\<lparr>ri_tx_ptr := t, ri_mfn_mapping := x\<rparr>"
    using assms unfolding ring_step_def by metis
  show "ri_id info' = ri_id info" "ri_len info' = ri_len info" "ri_frames info' = ri_frames info"
    "ri_pending info' = ri_pending info" "ri_nmfns info' = ri_nmfns info"
    "ri_npage info' = ri_npage info" "ri_mfns info' = ri_mfns info" "ri_ring info' = ri_ring info"
    by (simp_all add: e ri_frames_def)
  show "ri_inv info'" using assms by (simp add: ring_step_def)
qed

lemma ring_step_same:
  assumes "ri_inv info" "ri_same info info'" "ri_wf info'" "touches (ri_frames info) mem mem' F"
  shows "ring_step F info mem info' mem'"
  using assms ri_inv_same [OF assms(1-3)] by (auto simp: ring_step_def ri_same_iff)

lemma ring_step_mono: "ring_step F info mem info' mem' \<Longrightarrow> F \<subseteq> G \<Longrightarrow> ring_step G info mem info' mem'"
  unfolding ring_step_def using touches_mono by blast

lemma ring_step_trans:
  assumes "ring_step F info mem info1 mem1" "ring_step F info1 mem1 info2 mem2"
  shows "ring_step F info mem info2 mem2"
proof -
  have "touches (ri_frames info) mem mem2 F"
    using assms touches_trans [of _ mem mem1 F mem2 F F]
    by (auto simp: ring_step_def ring_step_fields(3) [OF assms(1)])
  moreover obtain t x where "info1 = info\<lparr>ri_tx_ptr := t, ri_mfn_mapping := x\<rparr>"
    using assms unfolding ring_step_def by metis
  moreover obtain t' x' where "info2 = info1\<lparr>ri_tx_ptr := t', ri_mfn_mapping := x'\<rparr>"
    using assms unfolding ring_step_def by metis
  ultimately show ?thesis using assms(2) by (simp add: ring_step_def)
qed

lemma round_tx:
  assumes "16 dvd L" "t < L" "L \<le> 16777216"
  shows "(if L \<le> V4V_ROUNDUP t then u32_sub (V4V_ROUNDUP t) L else V4V_ROUNDUP t) =
    round16 t mod L"
    and "16 dvd round16 t mod L"
proof -
  have r: "V4V_ROUNDUP t = round16 t" using assms by (intro V4V_ROUNDUP_eq) auto
  have "round16 t \<le> L"
  proof -
    obtain l where "L = 16 * l" using assms(1) by auto
    then show ?thesis using assms(2) unfolding round16_def by simp
  qed
  then show "(if L \<le> V4V_ROUNDUP t then u32_sub (V4V_ROUNDUP t) L else V4V_ROUNDUP t) =
    round16 t mod L"
    using assms r by (auto simp: u32_sub_le)
  show "16 dvd round16 t mod L" using assms(1) by (simp add: dvd_mod)
qed

lemma insert_finish_touch:
  assumes inv: "ri_inv (is_info st)" "0 < ri_len (is_info st)" and t: "is_tx st < ri_len (is_info st)"
    and res: "insert_finish env st = (r, info', mem')"
  shows "ring_step {OFF_TX_PTR ..< OFF_TX_PTR + 4} (is_info st) (is_mem st) info' mem'"
    and "ri_tx_ptr info' = round16 (is_tx st) mod ri_len (is_info st)"
proof -
  let ?L = "ri_len (is_info st)" and ?t' = "round16 (is_tx st) mod ri_len (is_info st)"
  have L: "16 dvd ?L" "?L \<le> 16777216"
    using inv ring_len_okD by (auto simp: ri_inv_def)
  note rt = round_tx [OF L(1) t L(2)]
  let ?i = "(is_info st)\<lparr>ri_tx_ptr := ?t'\<rparr>"
  have inv': "ri_inv ?i" using rt(2) inv by (intro ri_inv_set_tx) auto
  have up: "v4v_update_tx_ptr env (is_mem st) ?i ?t' = (r, info', mem')"
    using res rt(1) by (simp add: insert_finish_def Let_def)
  note u = update_tx_ptr_touch [OF _ up]
  have w: "ri_wf ?i" using inv' by (simp add: ri_inv_def)
  show tx: "ri_tx_ptr info' = ?t'"
    using ri_same_fields(3) [OF u(1) [OF w]] by simp
  have "ri_inv info'" using ri_inv_same [OF inv' u(1) [OF w] u(2) [OF w]] .
  then show "ring_step {OFF_TX_PTR ..< OFF_TX_PTR + 4} (is_info st) (is_mem st) info' mem'"
    using u(1,3) [OF w] by (auto simp: ring_step_def ri_same_iff OFF_TX_PTR_def)
qed

lemma insert_loop_negative:
  "- 32 < len \<Longrightarrow> len < 0 \<Longrightarrow> insert_loop env st L buf len iovs 0 = (Some EINVAL, st)"
proof -
  assume "- 32 < len" "len < 0"
  then have "(len + 4294967296) mod 4294967296 = len + 4294967296"
    by (intro mod_pos_pos_trivial) auto
  moreover have "16777216 < nat (len + 4294967296)" using \<open>- 32 < len\<close> by linarith
  ultimately show ?thesis by (simp add: V4V_MAX_RING_SIZE_def Let_def)
qed

lemma round_circ:
  assumes "16 dvd L" "t < L" "16 dvd t"
  shows "round16 (((t + 16) mod L + n) mod L) mod L = (t + (16 + round16 n)) mod L"
proof -
  obtain l a where e: "L = 16 * l" "t = 16 * a" using assms by (auto elim!: dvdE)
  have r: "round16 (x mod (16 * l)) mod (16 * l) = round16 x mod (16 * l)" if "0 < l" for x
  proof -
    have "(x mod (16 * l) + 15) div 16 mod l = (x + 15) div 16 mod l"
    proof -
      define y q where "y = x mod (16 * l)" and "q = l * (x div (16 * l))"
      have "x = y + 16 * q"
        using mod_mult_div_eq [of x "16 * l"] by (simp add: y_def q_def mult.assoc)
      then have "(x + 15) div 16 = (y + 15) div 16 + q" by simp
      then show ?thesis by (simp add: y_def q_def)
    qed
    then show ?thesis by (simp add: round16_def mult.commute [of _ 16])
  qed
  have l: "0 < l" using assms(2) e by simp
  have "round16 (((t + 16) mod L + n) mod L) mod L = round16 (t + 16 + n) mod L"
    using r [OF l, of "t + 16 + n"] by (simp add: e mod_add_left_eq)
  also have "round16 (t + 16 + n) = t + (16 + round16 n)"
  proof -
    have "t + 16 + n + 15 = (n + 15) + 16 * (a + 1)" using e by simp
    then have "(t + 16 + n + 15) div 16 = a + 1 + (n + 15) div 16" by (simp only: div_mult_self2)
    then show ?thesis unfolding round16_def by (simp only:) (simp add: e)
  qed
  finally show ?thesis .
qed

text \<open>The bytes a writer with \<open>sp\<close> free bytes may change.\<close>

definition write_area :: "v4v_ring_info \<Rightarrow> nat \<Rightarrow> nat set" where
  "write_area info sp =
     msg_area (circ (ri_len info) (ri_tx_ptr info) sp) \<union> {OFF_TX_PTR ..< OFF_TX_PTR + 4}"

text \<open>A signed length the size checks let through for \<open>sp\<close> free bytes.\<close>

definition len_fits :: "int \<Rightarrow> nat \<Rightarrow> nat \<Rightarrow> bool" where
  "len_fits len niov sp \<longleftrightarrow>
     0 \<le> len \<and> round16 (nat len) + 16 < sp \<or> - 32 < len \<and> len < 0 \<and> niov = 0"

lemma insert_loop_step:
  assumes st: "ri_same info (is_info st)" "ri_wf (is_info st)" and inv: "ri_inv info"
    and L0: "0 < ri_len info" and sp: "sp \<le> ri_len info" and len: "len_fits len niov sp"
    and tx: "is_tx st = (ri_tx_ptr info + 16) mod ri_len info"
    and lp: "insert_loop env st (ri_len info) buf len iovs niov = (r, st')"
  shows "ri_same info (is_info st') \<and> ri_wf (is_info st') \<and>
    touches (ri_frames info) (is_mem st) (is_mem st') (msg_area (circ (ri_len info) (ri_tx_ptr info) sp)) \<and>
    (r = None \<longrightarrow> 0 \<le> len \<and>
       is_tx st' = ((ri_tx_ptr info + 16) mod ri_len info + nat len) mod ri_len info)"
proof (cases "0 \<le> len")
  case True
  let ?L = "ri_len info" and ?M = "msg_area (circ (ri_len info) (ri_tx_ptr info) sp)"
  note f = ri_same_fields [OF st(1)]
  have Lok: "ring_len_ok ?L" using inv L0 by (auto simp: ri_inv_def)
  have l: "round16 (nat len) + 16 < sp" using len True by (auto simp: len_fits_def)
  then have l': "16 + nat len \<le> sp" using round16_ge [of "nat len"] by linarith
  have t: "ri_same (is_info st) (is_info st')" "ri_wf (is_info st')"
    "touches (ri_frames info) (is_mem st) (is_mem st') (msg_area (circ ?L (is_tx st) (nat len)))"
    "r = None \<longrightarrow> is_tx st' = (is_tx st + nat len) mod ?L"
    using insert_loop_touch [OF st(2) f(2) Lok _ True _ lp] l' sp tx L0 True f by auto
  have "msg_area (circ ?L (is_tx st) (nat len)) \<subseteq> ?M"
    using circ_step [OF l', of ?L "ri_tx_ptr info"] tx by auto
  from touches_mono [OF t(3) this] show ?thesis
    using ri_same_trans [OF st(1) t(1)] t(2,4) tx True by simp
next
  case False
  then have "niov = 0" "- 32 < len" "len < 0" using len by (auto simp: len_fits_def)
  then show ?thesis using lp insert_loop_negative [of len env st "ri_len info" buf iovs] st by simp
qed

lemma insert_finish_fails:
  assumes "insert_finish env st = (Some e, info', mem')" "ri_wf (is_info st)" "0 < ri_nmfns (is_info st)"
  shows "\<not> (\<forall>m\<in>set (ri_frames (is_info st)). map_page_ok env m)"
proof
  assume ok: "\<forall>m\<in>set (ri_frames (is_info st)). map_page_ok env m"
  let ?i = "\<lambda>t. (is_info st)\<lparr>ri_tx_ptr := t\<rparr>"
  have "v4v_ring_map_page env (?i t) 0 \<noteq> (Inl e, x)" for t e x
  proof -
    have "ri_wf (?i t)" using assms(2) by (auto simp: ri_wf_def split: option.splits)
    then show ?thesis using map_page_ok [of "?i t" 0 env] assms(3) ok by fastforce
  qed
  then show False
    using assms(1) by (auto simp: insert_finish_def Let_def v4v_update_tx_ptr_def split: prod.splits sum.splits)
qed

text \<open>
  Writing a message of \<open>len\<close> bytes into a ring that has \<open>sp\<close> free bytes, whatever the vectors
  and buffers turn out to hold.  When it fails although the ring's pages can be mapped, the
  transmit pointer has not moved.
\<close>

lemma insert_write_touch:
  assumes inv: "ri_inv info" and L0: "0 < ri_len info"
    and ring: "rg_tx_ptr ring = ri_tx_ptr info" "rg_len ring = ri_len info"
    and len: "len_fits len niov sp" and sp: "16 \<le> sp" "sp \<le> ri_len info"
    and res: "insert_write env mem info ring src proto buf len iovs niov = (r, info', mem')"
  shows "ring_step (write_area info sp) info mem info' mem' \<and>
    (r = None \<longrightarrow> 0 \<le> len \<and> ri_tx_ptr info' = (ri_tx_ptr info + (16 + round16 (nat len))) mod ri_len info) \<and>
    (r \<noteq> None \<and> 0 < ri_nmfns info \<and> (\<forall>m\<in>set (ri_frames info). map_page_ok env m) \<longrightarrow>
       ri_same info info' \<and>
       touches (ri_frames info) mem mem' (msg_area (circ (ri_len info) (ri_tx_ptr info) sp)))"
proof -
  let ?fs = "ri_frames info" and ?L = "ri_len info" and ?tx = "ri_tx_ptr info"
  let ?A = "write_area info sp" and ?M = "msg_area (circ (ri_len info) (ri_tx_ptr info) sp)"
  have MA: "?M \<subseteq> ?A" by (simp add: write_area_def)
  have wf: "ri_wf info" and al: "16 dvd ?L" "16 dvd ?tx" and tx: "?tx < ?L" and L: "?L \<le> 16777216"
    using inv L0 ring_len_okD by (auto simp: ri_inv_def)
  have tx16: "?tx + 16 \<le> ?L" using tx al by (elim dvdE) simp
  let ?mh = "encode_mh (nat ((len + int SIZEOF_MH) mod 2 ^ 32)) src proto"
  obtain r2 info2 mem2 where hd: "v4v_memcpy_to_guest_ring env mem info (?tx + 64) ?mh
      = (r2, info2, mem2)" by (metis prod_cases3)
  have s2: "ri_same info info2" "ri_wf info2" "touches ?fs mem mem2 {64 + ?tx ..< 64 + ?tx + 16}"
    using memcpy_to_ring_touch [OF wf _ hd] by (auto simp: add.commute)
  have t2: "touches ?fs mem mem2 ?M"
    using touches_msg_area [OF s2(3)] circ_low [OF tx16] circ_mono [OF sp(1)] by blast
  let ?st = "\<lparr>is_tx = (?tx + 16) mod ?L, is_info = info2, is_mem = mem2\<rparr>"
  obtain r3 st3 where lp: "insert_loop env ?st ?L buf len iovs niov = (r3, st3)" by force
  have s3: "ri_same info (is_info st3)" "ri_wf (is_info st3)" "touches ?fs mem2 (is_mem st3) ?M"
    "r3 = None \<longrightarrow> 0 \<le> len \<and> is_tx st3 = ((?tx + 16) mod ?L + nat len) mod ?L"
    using insert_loop_step [OF _ _ inv L0 sp(2) len _ lp] s2 by auto
  have t3: "touches ?fs mem (is_mem st3) ?M" using touches_trans [OF t2 s3(3)] by blast
  have u: "u32 (?tx + SIZEOF_RING) = ?tx + 64" "u32 (?tx + SIZEOF_MH) = ?tx + 16"
    "(if ?tx + 16 = ?L then 0 else ?tx + 16) = (?tx + 16) mod ?L"
    using tx L tx16 by (auto simp: SIZEOF_RING_def SIZEOF_MH_def)
  have body: "(r, info', mem') =
      (case r2 of Some e \<Rightarrow> (Some e, info2, mem2)
       | None \<Rightarrow> (case r3 of Some e \<Rightarrow> (Some e, is_info st3, is_mem st3)
          | None \<Rightarrow> insert_finish env st3))"
    unfolding res [symmetric] using hd lp u ri_same_fields(2) [OF s2(1)]
    by (cases r2; cases r3) (simp_all add: insert_write_def Let_def ring)
  show ?thesis
  proof (cases "r2 = None \<and> r3 = None")
    case False
    then show ?thesis
      using body s2(1,2) s3(1,2) ring_step_same [OF inv] touches_mono [OF t2 MA] touches_mono [OF t3 MA] t2 t3
      by (auto split: option.splits)
  next
    case True
    then have fin: "insert_finish env st3 = (r, info', mem')" using body by simp
    note f3 = ri_same_fields [OF s3(1)] and inv3 = ri_inv_same [OF inv s3(1,2)]
    have l3: "0 \<le> len" "is_tx st3 = ((?tx + 16) mod ?L + nat len) mod ?L" using s3(4) True by auto
    note e = insert_finish_touch [OF inv3 _ _ fin]
    have st: "ring_step ?A (is_info st3) (is_mem st3) info' mem'"
      by (rule ring_step_mono [OF e(1)]) (simp_all add: f3 l3 L0 write_area_def)
    have "ring_step ?A info mem info' mem'"
      by (rule ring_step_trans [OF ring_step_same [OF inv s3(1,2) touches_mono [OF t3 MA]] st])
    moreover have "r = None" if "0 < ri_nmfns info" "\<forall>m\<in>set ?fs. map_page_ok env m"
      using insert_finish_fails [of env st3 _ info' mem'] fin s3(2) f3 that by (cases r) auto
    ultimately show ?thesis
      using e(2) f3(2) l3 L0 round_circ [OF al(1) tx al(2)] by auto
  qed
qed

section \<open>The whole insertion\<close>

text \<open>The free bytes of the ring as the hypervisor sees them.\<close>

definition seen_free :: "v4v_env \<Rightarrow> mem \<Rightarrow> v4v_ring_info \<Rightarrow> nat" where
  "seen_free env mem info = free_bytes (ri_len info) (seen_rx env mem info) (ri_tx_ptr info)"

lemma insert_body_touch:
  assumes inv: "ri_inv info" and L0: "0 < ri_len info"
    and len: "- 2147483648 \<le> len" "len < 2147483648" "niov = 0 \<or> 0 \<le> len"
    and small: "msg_space len < ri_len info"
    and res: "insert_body env mem info src proto buf len iovs niov = (r, info', mem')"
  shows "ring_step (write_area info (seen_free env mem info)) info mem info' mem' \<and>
    (r = None \<longrightarrow> 0 \<le> len \<and> round16 (nat len) + 16 < seen_free env mem info \<and>
       ri_tx_ptr info' = (ri_tx_ptr info + (16 + round16 (nat len))) mod ri_len info) \<and>
    (r \<noteq> None \<and> 0 < ri_nmfns info \<and> (\<forall>m\<in>set (ri_frames info). map_page_ok env m) \<longrightarrow>
       ri_same info info' \<and> touches (ri_frames info) mem mem'
         (msg_area (circ (ri_len info) (ri_tx_ptr info) (seen_free env mem info))))"
proof -
  let ?L = "ri_len info" and ?tx = "ri_tx_ptr info" and ?sp = "seen_free env mem info"
  have wf: "ri_wf info" and al: "16 dvd ?L" "16 dvd ?tx" and tx: "?tx < ?L" and L: "?L \<le> 16777216"
    using inv L0 ring_len_okD by (auto simp: ri_inv_def)
  obtain q info1 where rd: "v4v_memcpy_from_guest_ring env mem info 0 SIZEOF_RING = (q, info1)"
    by force
  have s1: "ri_same info info1" "ri_wf info1"
    using memcpy_from_ring_loop_same [OF wf] rd by (auto simp: v4v_memcpy_from_guest_ring_def)
  note s1f = ri_same_fields [OF s1(1)] and inv1 = ri_inv_same [OF inv s1]
  have st: "ring_step (write_area info ?sp) info mem info1 mem"
    by (rule ring_step_same [OF inv s1]) simp
  show ?thesis
  proof (cases q)
    case (Inl e)
    then show ?thesis using res rd st s1 by (auto simp: insert_body_def)
  next
    case (Inr bs)
    let ?ring = "v4v_sanitize_ring (parse_ring bs) info1"
    have L1: "0 < ri_len info1" using L0 s1f by simp
    note f = sanitize_fields [OF L1, of "parse_ring bs", unfolded s1f]
    have rx: "seen_rx env mem info = rg_rx_ptr ?ring"
      using rd Inr s1f by (simp add: seen_rx_def v4v_sanitize_ring_def)
    have fr: "ring_free ?ring info1 = int ?sp"
      using ring_free_eq [OF inv1 L1, of "parse_ring bs"] s1f rx by (simp add: seen_free_def)
    have sp: "0 < ?sp" "?sp \<le> ?L" "16 dvd ?sp"
      using free_bytes_bounds [OF f(3) tx] free_bytes_dvd [OF al(1) f(4) al(2) f(3) tx]
      by (auto simp: seen_free_def rx)
    show ?thesis
    proof (cases "?sp \<le> msg_space len")
      case True
      then show ?thesis using res rd Inr fr L sp st s1 by (auto simp: insert_body_def Let_def)
    next
      case room: False
      have fits: "len_fits len niov ?sp" "0 \<le> len \<longrightarrow> round16 (nat len) + 16 < ?sp"
        using msg_space_cases [OF len(1,2)] small L room len(3) by (auto simp: len_fits_def)
      have w: "insert_write env mem info1 ?ring src proto buf len iovs niov = (r, info', mem')"
        using res rd Inr fr L sp room by (simp add: insert_body_def Let_def)
      have "16 \<le> ?sp" using sp by (simp add: dvd_imp_le)
      then have "ring_step (write_area info ?sp) info1 mem info' mem' \<and>
        (r = None \<longrightarrow> 0 \<le> len \<and> ri_tx_ptr info' = (?tx + (16 + round16 (nat len))) mod ?L) \<and>
        (r \<noteq> None \<and> 0 < ri_nmfns info \<and> (\<forall>m\<in>set (ri_frames info). map_page_ok env m) \<longrightarrow>
          ri_same info1 info' \<and> touches (ri_frames info) mem mem' (msg_area (circ ?L ?tx ?sp)))"
        using insert_write_touch [OF inv1 L1 _ _ fits(1) _ _ w] f sp s1f by (simp add: write_area_def)
      then show ?thesis using ring_step_trans [OF st] ri_same_trans [OF s1(1)] fits(2) by blast
    qed
  qed
qed

lemma iov_count_loop_bound:
  "v4v_iov_count_loop env mem iovs niov d = Inr n \<Longrightarrow> d \<le> 16777216 \<Longrightarrow> n \<le> 16777216"
  by (induction env mem iovs niov d rule: v4v_iov_count_loop.induct)
    (auto simp: Let_def V4V_RING_MAX_SIZE_def split: sum.splits if_splits)

lemma insert_cases:
  assumes "v4v_ringbuf_insert env mem info src_id proto buf len iovs niov = (r, n, info', mem')"
    "- (2 ^ 31) \<le> len" "len < 2 ^ 31"
  obtains "r \<noteq> None" "info' = info" "mem' = mem"
  | "0 < ri_len info" "msg_space n < ri_len info"
    "insert_body env mem info (id_addr src_id) proto buf n iovs niov = (r, info', mem')"
    "- 2147483648 \<le> n" "n < 2147483648" "niov = 0 \<or> 0 \<le> n"
proof (cases "info' = info \<and> mem' = mem \<and> r \<noteq> None")
  case False
  then have L0: "0 < ri_len info" and
    n: "(if niov = 0 then Inr len else map_sum id int (v4v_iov_count env mem iovs niov)) = Inr n"
    and small: "msg_space n < ri_len info"
    and b: "insert_body env mem info (id_addr src_id) proto buf n iovs niov = (r, info', mem')"
    using assms(1) by (auto simp: v4v_ringbuf_insert_def split: sum.splits if_splits prod.splits)
  have "- 2147483648 \<le> n" "n < 2147483648" "niov = 0 \<or> 0 \<le> n"
    using n assms(2,3) iov_count_loop_bound [of env mem iovs niov 0]
    by (auto simp: v4v_iov_count_def map_sum_def split: if_splits sum.splits)
  with L0 small b that(2) show thesis by blast
qed (use that in blast)

text \<open>
  C1.  Whatever the sender passes (addresses, vectors, a length with any bit pattern) and
  whatever the receiving guest has written into its own ring, inserting a message changes no
  byte outside the receiver's ring; within it, it changes only message bytes that the receiver
  has released (between the transmit and the receive pointer) and the transmit-pointer field of
  the header.  All bookkeeping except the transmit pointer and the page mappings is unchanged,
  the ring invariant is kept, and the transmit pointer moves exactly when the insertion gets to
  its end, by the rounded size of the message.
\<close>

theorem v4v_ringbuf_insert_confined:
  assumes "ri_inv info" "- (2 ^ 31) \<le> len" "len < 2 ^ 31"
  shows "case v4v_ringbuf_insert env mem info src_id proto buf len iovs niov of (r, n, info', mem') \<Rightarrow>
    ring_step (write_area info (seen_free env mem info)) info mem info' mem' \<and>
    (r = None \<longrightarrow> 0 \<le> n \<and> round16 (nat n) + 16 < seen_free env mem info \<and>
      ri_tx_ptr info' = (ri_tx_ptr info + (16 + round16 (nat n))) mod ri_len info)"
proof (cases "v4v_ringbuf_insert env mem info src_id proto buf len iovs niov")
  case (fields r n info' mem')
  have refl: "ring_step F info mem info mem" for F
    using ring_step_same [OF assms(1)] assms(1) by (simp add: ri_inv_def)
  from fields assms(2,3) show ?thesis
  proof (cases rule: insert_cases)
    case 1
    then show ?thesis using fields refl by auto
  next
    case 2
    then show ?thesis using insert_body_touch [OF assms(1) 2(1,4,5,6,2,3)] fields by simp
  qed
qed

section \<open>A sample ring\<close>

text \<open>
  A 64-byte ring in frame 5, whose owner has consumed everything up to offset 48, and a sender whose
  address space maps page \<open>n\<close> to frame \<open>n + 10\<close>.
\<close>

definition sample_info :: v4v_ring_info where
  "sample_info = \<lparr>ri_id = \<lparr>id_addr = \<lparr>a_port = 7, a_domain = 2\<rparr>, id_partner = 0\<rparr>, ri_len = 64, ri_tx_ptr = 48,
     ri_ring = 0, ri_npage = 1, ri_nmfns = 1, ri_mfns = Some [Some 5], ri_mfn_mapping = Some [Null],
     ri_pending = []\<rparr>"

definition sample_env :: v4v_env where
  "sample_env = \<lparr>cur = \<lparr>is_hvm_vcpu = True, free_pages_needed = False,
       paging_gva_to_gfn = (\<lambda>_ v. GFN v), get_gfn_unshare = (\<lambda>g. P2M_ram (g + 10) False),
       guest_handle_okay = (\<lambda>_ _. True)\<rparr>, map_page_ok = (\<lambda>_. True)\<rparr>"

definition sample_mem :: mem where
  "sample_mem m i = (if m = 5 \<and> i = 16 then 64 else if m = 5 \<and> (i = 20 \<or> i = 24) then 48
     else if m = 10 \<and> i = 1 then 42 else 0)"

lemma sample_inv: "ri_inv sample_info"
  by (simp add: sample_info_def ri_inv_def ri_wf_def ring_len_ok_def V4V_MAX_RING_SIZE_def)

theorem v4v_ringbuf_insert_confined_witness:
  "case v4v_ringbuf_insert sample_env sample_mem sample_info (ri_id sample_info) 6 0 20 0 0 of (r, n, info', mem') \<Rightarrow>
    ring_step (write_area sample_info (seen_free sample_env sample_mem sample_info)) sample_info sample_mem info' mem' \<and>
    (r = None \<longrightarrow> 0 \<le> n \<and> round16 (nat n) + 16 < seen_free sample_env sample_mem sample_info \<and>
      ri_tx_ptr info' = (ri_tx_ptr sample_info + (16 + round16 (nat n))) mod ri_len sample_info)"
  using v4v_ringbuf_insert_confined [of sample_info 20 sample_env sample_mem] sample_inv by simp

end
