(* ===== verification/V4v_Ring_Insert.thy ===== *)
theory V4v_Ring_Insert
  imports V4v_Ring_Safety
begin

text \<open>
  What a successful insertion leaves in the ring: the message header followed by the payload, at
  consecutive ring positions that wrap around the end, and nothing else changed.
\<close>

section \<open>Circular writes\<close>

text \<open>The distance from \<open>t\<close> forward to \<open>i\<close> in a ring of \<open>L\<close> bytes.\<close>

definition coff :: "nat \<Rightarrow> nat \<Rightarrow> nat \<Rightarrow> nat" where
  "coff L t i = (if t \<le> i then i - t else i + L - t)"

lemma coff_less: "t < L \<Longrightarrow> i < L \<Longrightarrow> coff L t i < L"
  by (auto simp: coff_def)

lemma coff_add: "t < L \<Longrightarrow> k < L \<Longrightarrow> coff L t ((t + k) mod L) = k"
  by (auto simp: coff_def mod_if)

lemma coff_shift:
  assumes "t < L" "i < L" "k \<le> L"
  shows "coff L ((t + k) mod L) i = (if k \<le> coff L t i then coff L t i - k else coff L t i + L - k)"
  using assms by (auto simp: coff_def mod_if)

lemma circ_iff:
  assumes "t < L" "i < L" "k \<le> L"
  shows "i \<in> circ L t k \<longleftrightarrow> coff L t i < k"
proof
  assume "i \<in> circ L t k"
  then obtain j where "j < k" "i = (t + j) mod L" by (auto simp: circ_def)
  then show "coff L t i < k" using coff_add [of t L j] assms by simp
next
  assume c: "coff L t i < k"
  have "i = (t + coff L t i) mod L" using assms by (auto simp: coff_def)
  with c show "i \<in> circ L t k" by (auto simp: circ_def)
qed

definition cupd :: "mfn list \<Rightarrow> nat \<Rightarrow> mem \<Rightarrow> mem \<Rightarrow> nat \<Rightarrow> byte list \<Rightarrow> bool" where
  "cupd fs L mem mem' t bs \<longleftrightarrow>
     (\<forall>m. m \<notin> set fs \<longrightarrow> mem' m = mem m) \<and>
     (\<forall>i < length fs * PAGE_SIZE.
        rb fs mem' i =
          (if SIZEOF_RING \<le> i \<and> i < SIZEOF_RING + L \<and> coff L t (i - SIZEOF_RING) < length bs
           then bs ! coff L t (i - SIZEOF_RING) else rb fs mem i))"

lemma cupd_Nil [simp]: "cupd fs L mem mem t []"
  by (simp add: cupd_def)

lemma cupd_append:
  assumes "cupd fs L mem mem1 t xs" "cupd fs L mem1 mem2 ((t + length xs) mod L) ys"
    "t < L" "length xs + length ys \<le> L"
  shows "cupd fs L mem mem2 t (xs @ ys)"
  unfolding cupd_def
proof (intro conjI allI impI)
  fix m
  assume "m \<notin> set fs"
  then show "mem2 m = mem m" using assms(1,2) by (simp add: cupd_def)
next
  fix i
  assume i: "i < length fs * PAGE_SIZE"
  show "rb fs mem2 i =
      (if SIZEOF_RING \<le> i \<and> i < SIZEOF_RING + L \<and> coff L t (i - SIZEOF_RING) < length (xs @ ys)
       then (xs @ ys) ! coff L t (i - SIZEOF_RING) else rb fs mem i)"
  proof (cases "SIZEOF_RING \<le> i \<and> i < SIZEOF_RING + L")
    case False
    then show ?thesis using assms(1,2) i by (auto simp: cupd_def)
  next
    case True
    let ?j = "i - SIZEOF_RING"
    have j: "?j < L" "coff L t ?j < L" using True coff_less [OF assms(3)] by auto
    have sh: "coff L ((t + length xs) mod L) ?j =
        (if length xs \<le> coff L t ?j then coff L t ?j - length xs else coff L t ?j + L - length xs)"
      using coff_shift [OF assms(3) j(1), of "length xs"] assms(4) by simp
    show ?thesis
      using assms(1,2) i True j sh assms(4) by (auto simp: cupd_def nth_append)
  qed
qed

lemma ring_upd_cupd:
  assumes "ring_upd fs mem mem' (t + SIZEOF_RING) bs" "t + length bs \<le> L" "t < L"
  shows "cupd fs L mem mem' t bs"
  unfolding cupd_def
proof (intro conjI allI impI)
  fix m
  assume "m \<notin> set fs"
  then show "mem' m = mem m" using assms(1) by (simp add: ring_upd_def)
next
  fix i
  assume i: "i < length fs * PAGE_SIZE"
  have "rb fs mem' i = (if t + SIZEOF_RING \<le> i \<and> i < t + SIZEOF_RING + length bs
      then bs ! (i - (t + SIZEOF_RING)) else rb fs mem i)"
    using assms(1) i by (simp add: ring_upd_def)
  then show "rb fs mem' i =
      (if SIZEOF_RING \<le> i \<and> i < SIZEOF_RING + L \<and> coff L t (i - SIZEOF_RING) < length bs
       then bs ! coff L t (i - SIZEOF_RING) else rb fs mem i)"
    using assms(2,3) by (auto simp: coff_def add.commute)
qed

lemma src_ok_cupd: "src_ok env mem fs addr bs \<Longrightarrow> cupd fs L mem mem' t xs \<Longrightarrow> src_ok env mem' fs addr bs"
proof -
  assume s: "src_ok env mem fs addr bs" and c: "cupd fs L mem mem' t xs"
  have "mem' m = mem m" if "guest_frame (cur env) (u64 (addr + i)) = Some m" "i < length bs" for i m
    using s c that unfolding src_ok_def cupd_def guest_frames_def by blast
  then have "guest_bytes (cur env) mem' addr (length bs) = guest_bytes (cur env) mem addr (length bs)"
    by (auto simp: guest_bytes_def map_option_case split: option.splits)
  with s show ?thesis by (simp add: src_ok_def)
qed

section \<open>Copying the payload\<close>

text \<open>The ring's pages hold its header and all of its message space.\<close>

definition ring_fits :: "v4v_ring_info \<Rightarrow> bool" where
  "ring_fits info \<longleftrightarrow> SIZEOF_RING + ri_len info \<le> ri_nmfns info * PAGE_SIZE"

definition ring_ready :: "v4v_env \<Rightarrow> v4v_ring_info \<Rightarrow> bool" where
  "ring_ready env info \<longleftrightarrow> ri_inv info \<and> ring_mappable env info \<and> ring_fits info"

lemma ring_ready_same:
  "ring_ready env info \<Longrightarrow> ri_same info info' \<Longrightarrow> ri_wf info' \<Longrightarrow> ring_ready env info'"
  using ri_inv_same ring_mappable_same by (auto simp: ring_ready_def ring_fits_def ri_same_fields)

lemma ring_readyD:
  assumes "ring_ready env info" "0 < ri_len info"
  shows "ri_wf info" "ri_inv info" "ring_mappable env info" "ring_len_ok (ri_len info)" "16 dvd ri_len info"
    "16 dvd ri_tx_ptr info" "ri_tx_ptr info < ri_len info" "ri_len info \<le> 16777216"
    "64 + ri_len info \<le> ri_nmfns info * PAGE_SIZE"
  using assms ring_len_okD by (auto simp: ring_ready_def ri_inv_def ring_fits_def SIZEOF_RING_def)

lemma insert_piece_ok:
  assumes rdy: "ring_ready env (is_info st)" "ri_len (is_info st) = L" and tx: "is_tx st < L"
    and src: "src_ok env (is_mem st) (ri_frames (is_info st)) buf bs" and len: "bs \<noteq> []" "length bs < L"
  shows "\<exists>st'. insert_piece env st L buf (length bs) = (None, st') \<and>
    ri_same (is_info st) (is_info st') \<and> ri_wf (is_info st') \<and>
    is_tx st' = (is_tx st + length bs) mod L \<and>
    cupd (ri_frames (is_info st)) L (is_mem st) (is_mem st') (is_tx st) bs"
proof -
  let ?fs = "ri_frames (is_info st)" and ?t = "is_tx st" and ?i = "is_info st"
  note R = ring_readyD [OF rdy(1), unfolded rdy(2)]
  have L0: "0 < L" using tx by simp
  have L: "L \<le> 16777216" "64 + L \<le> ri_nmfns ?i * PAGE_SIZE" and mp: "ring_mappable env ?i"
    using R(3,8,9) [OF L0] by auto
  have sp: "u32_sub L ?t = L - ?t" using tx L by (intro u32_sub_le) auto
  have ut: "u32 (?t + SIZEOF_RING) = ?t + 64" "u32 SIZEOF_RING = 64" "SIZEOF_RING = 64"
    using tx L by (auto simp: SIZEOF_RING_def)
  show ?thesis
  proof (cases "L - ?t < length bs")
    case False
    obtain info' mem' where cp: "v4v_memcpy_to_guest_ring_from_guest env (is_mem st) ?i (?t + 64) buf
        (length bs) = (None, info', mem')" "ri_same ?i info'" "ri_wf info'"
        "ring_upd ?fs (is_mem st) mem' (?t + 64) bs"
      by (rule memcpy_from_guest_ok [OF mp src len(1), of "?t + 64" thesis])
        (use False tx L len in \<open>auto simp: V4V_RING_MAX_SIZE_def\<close>)
    have "cupd ?fs L (is_mem st) mem' ?t bs"
      using cp(4) False tx by (intro ring_upd_cupd) (auto simp: SIZEOF_RING_def)
    moreover have "u32 (?t + length bs) = ?t + length bs" using False tx L by simp
    ultimately show ?thesis
      using cp False tx sp ut rdy(2) by (auto simp: insert_piece_def Let_def ri_same_fields)
  next
    case True
    let ?k = "L - ?t" let ?xs = "take ?k bs" and ?ys = "drop ?k bs"
    have lk: "length ?xs = ?k" "?xs \<noteq> []" "?ys \<noteq> []" using True tx by auto
    have so: "src_ok env (is_mem st) ?fs buf ?xs" "src_ok env (is_mem st) ?fs (u64 (buf + ?k)) ?ys"
      using src_ok_split [of env "is_mem st" ?fs buf ?xs ?ys] src lk(1) by auto
    obtain info1 mem1 where c1: "v4v_memcpy_to_guest_ring_from_guest env (is_mem st) ?i (?t + 64) buf
        ?k = (None, info1, mem1)" "ri_same ?i info1" "ri_wf info1"
        "ring_upd ?fs (is_mem st) mem1 (?t + 64) ?xs"
      by (rule memcpy_from_guest_ok [OF mp so(1) lk(2), of "?t + 64" thesis])
        (use lk(1) tx L in \<open>auto simp: V4V_RING_MAX_SIZE_def\<close>)
    note s1 = ri_same_fields [OF c1(2)]
    have u1: "cupd ?fs L (is_mem st) mem1 ?t ?xs"
      using c1(4) tx lk(1) by (intro ring_upd_cupd) (auto simp: SIZEOF_RING_def)
    have so1: "src_ok env mem1 (ri_frames info1) (u64 (buf + ?k)) ?ys"
      using src_ok_cupd [OF so(2) u1] s1 by simp
    obtain info2 mem2 where c2: "v4v_memcpy_to_guest_ring_from_guest env mem1 info1 64 (u64 (buf + ?k))
        (length bs - ?k) = (None, info2, mem2)" "ri_same info1 info2" "ri_wf info2"
        "ring_upd ?fs mem1 mem2 64 ?ys"
      by (rule memcpy_from_guest_ok [OF ring_mappable_same [OF mp c1(2,3)] so1 lk(3), of 64 thesis])
        (use s1 len L in \<open>auto simp: V4V_RING_MAX_SIZE_def\<close>)
    have "cupd ?fs L mem1 mem2 0 ?ys"
      using c2(4) len L0 by (intro ring_upd_cupd) (auto simp: SIZEOF_RING_def)
    then have "cupd ?fs L (is_mem st) mem2 ?t (?xs @ ?ys)"
      using lk(1) tx len by (intro cupd_append [OF u1]) auto
    moreover have "u32 (length bs - ?k) = length bs - ?k" using len L by simp
    moreover have "(?t + length bs) mod L = length bs - ?k" using True tx len by (auto simp: mod_if)
    ultimately show ?thesis
      using c1 c2 True tx sp ut rdy(2) len s1 ri_same_trans [OF c1(2) c2(2)]
      by (auto simp: insert_piece_def Let_def ri_same_fields [OF c2(2)])
  qed
qed

section \<open>What the sender offers\<close>

text \<open>
  A vector of buffers in the sender's address space: every descriptor and every buffer is
  readable and lies outside the receiver's ring.
\<close>

definition iov_bytes :: "nat \<Rightarrow> nat \<Rightarrow> byte list" where
  "iov_bytes base n = le_bytes 8 base @ le_bytes 8 n"

fun iovs_ok :: "v4v_env \<Rightarrow> mem \<Rightarrow> mfn list \<Rightarrow> nat \<Rightarrow> (nat \<times> byte list) list \<Rightarrow> bool" where
  "iovs_ok env mem fs iovs [] = True"
| "iovs_ok env mem fs iovs ((base, bs) # ds) =
     (src_ok env mem fs iovs (iov_bytes base (length bs)) \<and> src_ok env mem fs base bs \<and>
      length bs < 2 ^ 64 \<and> iovs_ok env mem fs (u64 (iovs + 16)) ds)"

definition payload :: "v4v_env \<Rightarrow> mem \<Rightarrow> mfn list \<Rightarrow> nat \<Rightarrow> int \<Rightarrow> nat \<Rightarrow> nat \<Rightarrow> byte list \<Rightarrow> bool" where
  "payload env mem fs buf len iovs niov bs \<longleftrightarrow>
     (\<forall>a n. guest_handle_okay (cur env) a n) \<and>
     (if niov = 0 then len = int (length bs) \<and> src_ok env mem fs buf bs
      else \<exists>ds. length ds = niov \<and> iovs_ok env mem fs iovs ds \<and> bs = concat (map snd ds))"

lemma iovs_ok_cupd:
  "iovs_ok env mem fs iovs ds \<Longrightarrow> cupd fs L mem mem' t xs \<Longrightarrow> iovs_ok env mem' fs iovs ds"
  by (induction env mem fs iovs ds rule: iovs_ok.induct) (auto intro: src_ok_cupd)

lemma payload_cupd:
  "payload env mem fs buf len iovs niov bs \<Longrightarrow> cupd fs L mem mem' t xs \<Longrightarrow>
     payload env mem' fs buf len iovs niov bs"
  by (auto simp: payload_def intro: src_ok_cupd iovs_ok_cupd split: if_splits)

lemma parse_iov_bytes [simp]:
  "base < 2 ^ 64 \<Longrightarrow> n < 2 ^ 64 \<Longrightarrow> parse_iov (iov_bytes base n) = (base, n)"
  by (simp add: parse_iov_def iov_bytes_def get_field_def le_val_le_bytes)

lemma length_iov_bytes [simp]: "length (iov_bytes base n) = 16"
  by (simp add: iov_bytes_def)

lemma src_ok_read: "src_ok env mem fs a bs \<Longrightarrow> copy_from_guest_errno (cur env) mem a (length bs) = Inr bs"
  by (auto simp: src_ok_def intro: copy_from_guest_errno_okay)

lemma iov_read:
  assumes "src_ok env mem fs iovs (iov_bytes base n)"
  shows "copy_from_guest_errno (cur env) mem iovs 16 = Inr (iov_bytes base n)"
  using src_ok_read [OF assms] by simp

lemma iov_count_loop_ok:
  assumes "iovs_ok env mem fs iovs ds" "d \<le> V4V_RING_MAX_SIZE"
  shows "v4v_iov_count_loop env mem iovs (length ds) d =
    (if d + length (concat (map snd ds)) \<le> V4V_RING_MAX_SIZE
     then Inr (d + length (concat (map snd ds))) else Inl EINVAL)"
  using assms
proof (induction env mem fs iovs ds arbitrary: d rule: iovs_ok.induct)
  case (1 env mem fs iovs)
  then show ?case by simp
next
  case (2 env mem fs iovs base bs ds)
  then have "base < 18446744073709551616" by (simp add: src_ok_def)
  then show ?case
    using 2 iov_read [of env mem fs iovs base "length bs"] by (auto simp: Let_def add.assoc)
qed

lemma insert_loop_ok_0:
  assumes "ring_ready env (is_info st)" "ri_len (is_info st) = L" "is_tx st < L"
    "src_ok env (is_mem st) (ri_frames (is_info st)) buf bs" "length bs < L"
    "\<forall>a n. guest_handle_okay (cur env) a n"
  shows "\<exists>st'. insert_loop env st L buf (int (length bs)) iovs 0 = (None, st') \<and>
    ri_same (is_info st) (is_info st') \<and> ri_wf (is_info st') \<and>
    is_tx st' = (is_tx st + length bs) mod L \<and>
    cupd (ri_frames (is_info st)) L (is_mem st) (is_mem st') (is_tx st) bs"
proof -
  have L: "L \<le> 16777216" "ri_wf (is_info st)" using ring_readyD [OF assms(1)] assms(2,3) by auto
  then have "int (length bs) mod 4294967296 = int (length bs)" using assms(5) by simp
  then show ?thesis
    using insert_piece_ok [OF assms(1-4) _ assms(5)] assms(3,5,6) L
    by (cases "bs = []") (auto simp: Let_def V4V_MAX_RING_SIZE_def)
qed

lemma insert_loop_ok:
  assumes "ring_ready env (is_info st)" "ri_len (is_info st) = L" "is_tx st < L"
    "iovs_ok env (is_mem st) (ri_frames (is_info st)) iovs ds" "length (concat (map snd ds)) < L"
    "\<forall>a n. guest_handle_okay (cur env) a n"
  shows "\<exists>st'. insert_loop env st L buf (int (length (concat (map snd ds)))) iovs (length ds) = (None, st') \<and>
    ri_same (is_info st) (is_info st') \<and> ri_wf (is_info st') \<and>
    is_tx st' = (is_tx st + length (concat (map snd ds))) mod L \<and>
    cupd (ri_frames (is_info st)) L (is_mem st) (is_mem st') (is_tx st) (concat (map snd ds))"
  using assms
proof (induction ds arbitrary: st buf iovs)
  case Nil
  then have L: "L \<le> 16777216" "ri_wf (is_info st)" using ring_readyD [of env "is_info st"] by auto
  then show ?case using Nil.prems by (auto simp: Let_def V4V_MAX_RING_SIZE_def)
next
  case (Cons d ds)
  obtain base bs where d: "d = (base, bs)" by force
  let ?rest = "concat (map snd ds)"
  have L: "L \<le> 16777216" using ring_readyD [OF Cons.prems(1)] Cons.prems(2,3) by auto
  have src: "src_ok env (is_mem st) (ri_frames (is_info st)) iovs (iov_bytes base (length bs))"
    "src_ok env (is_mem st) (ri_frames (is_info st)) base bs"
    "iovs_ok env (is_mem st) (ri_frames (is_info st)) (u64 (iovs + 16)) ds"
    using Cons.prems(4) d by auto
  have rd: "copy_from_guest_errno (cur env) (is_mem st) iovs 16 = Inr (iov_bytes base (length bs))"
    by (rule iov_read [OF src(1)])
  have ln: "length bs + length ?rest < L" "base < 18446744073709551616"
    using Cons.prems(5) d src(2) by (auto simp: src_ok_def)
  show ?case
  proof (cases "bs = []")
    case True
    then show ?thesis
      using Cons.IH [OF Cons.prems(1-3) src(3) _ Cons.prems(6), of base] rd d ln
      by (auto simp: Let_def)
  next
    case False
    obtain st1 where p: "insert_piece env st L base (length bs) = (None, st1)"
      "ri_same (is_info st) (is_info st1)" "ri_wf (is_info st1)"
      "is_tx st1 = (is_tx st + length bs) mod L"
      "cupd (ri_frames (is_info st)) L (is_mem st) (is_mem st1) (is_tx st) bs"
      using insert_piece_ok [OF Cons.prems(1-3) src(2) False] ln by auto
    note s1 = ri_same_fields [OF p(2)]
    have rdy: "ring_ready env (is_info st1)" using ring_ready_same [OF Cons.prems(1) p(2,3)] .
    have io: "iovs_ok env (is_mem st1) (ri_frames (is_info st1)) (u64 (iovs + 16)) ds"
      using iovs_ok_cupd [OF src(3) p(5)] s1 by simp
    have pr: "ri_len (is_info st1) = L" "is_tx st1 < L" "length ?rest < L"
      using s1 Cons.prems(2,3) p(4) ln by auto
    let ?buf = "u64 (base + (if u32_sub L (is_tx st) < length bs then u32_sub L (is_tx st) else 0))"
    obtain st2 where q: "insert_loop env st1 L ?buf (int (length ?rest)) (u64 (iovs + 16)) (length ds)
        = (None, st2)" "ri_same (is_info st1) (is_info st2)" "ri_wf (is_info st2)"
        "is_tx st2 = (is_tx st1 + length ?rest) mod L"
        "cupd (ri_frames (is_info st1)) L (is_mem st1) (is_mem st2) (is_tx st1) ?rest"
      using Cons.IH [OF rdy pr(1,2) io pr(3) Cons.prems(6), of ?buf] by blast
    have m: "int (length bs + length ?rest) mod 4294967296 = int (length bs + length ?rest)"
      using ln L by (intro mod_pos_pos_trivial) auto
    have "insert_loop env st L buf (int (length (concat (map snd (d # ds))))) iovs (length (d # ds))
        = (None, st2)"
      using rd d ln L p(1) q(1) False m Cons.prems(6) by (simp add: Let_def V4V_MAX_RING_SIZE_def)
    moreover have "cupd (ri_frames (is_info st)) L (is_mem st) (is_mem st2) (is_tx st) (bs @ ?rest)"
      using q(5) p(4) s1 ln Cons.prems(3) by (intro cupd_append [OF p(5)]) auto
    moreover have "is_tx st2 = (is_tx st + (length bs + length ?rest)) mod L"
      using q(4) p(4) by (simp add: mod_add_left_eq add.assoc)
    ultimately show ?thesis
      using ri_same_trans [OF p(2) q(2)] q(3) d by auto
  qed
qed

section \<open>A successful insertion\<close>

text \<open>
  The ring memory after a message \<open>bs\<close> (header and payload) has been put at position \<open>t\<close> and the
  transmit pointer \<open>t'\<close> has been published.
\<close>

definition published :: "mfn list \<Rightarrow> nat \<Rightarrow> mem \<Rightarrow> mem \<Rightarrow> nat \<Rightarrow> byte list \<Rightarrow> nat \<Rightarrow> bool" where
  "published fs L mem mem' t bs t' \<longleftrightarrow>
     (\<forall>m. m \<notin> set fs \<longrightarrow> mem' m = mem m) \<and>
     (\<forall>i < length fs * PAGE_SIZE.
        rb fs mem' i =
          (if OFF_TX_PTR \<le> i \<and> i < OFF_TX_PTR + 4 then le_bytes 4 t' ! (i - OFF_TX_PTR)
           else if SIZEOF_RING \<le> i \<and> i < SIZEOF_RING + L \<and> coff L t (i - SIZEOF_RING) < length bs
           then bs ! coff L t (i - SIZEOF_RING) else rb fs mem i))"

lemma publishedI:
  assumes "cupd fs L mem mem1 t bs" "ring_upd fs mem1 mem' OFF_TX_PTR (le_bytes 4 t')"
  shows "published fs L mem mem' t bs t'"
  using assms by (auto simp: published_def cupd_def ring_upd_def)

lemma insert_finish_ok:
  assumes rdy: "ring_ready env (is_info st)" and t: "is_tx st < ri_len (is_info st)"
  shows "\<exists>info' mem'. insert_finish env st = (None, info', mem') \<and>
    ri_same ((is_info st)\<lparr>ri_tx_ptr := round16 (is_tx st) mod ri_len (is_info st)\<rparr>) info' \<and> ri_wf info' \<and>
    ring_upd (ri_frames (is_info st)) (is_mem st) mem' OFF_TX_PTR
      (le_bytes 4 (round16 (is_tx st) mod ri_len (is_info st)))"
proof -
  let ?L = "ri_len (is_info st)" and ?t' = "round16 (is_tx st) mod ri_len (is_info st)"
  let ?i = "(is_info st)\<lparr>ri_tx_ptr := ?t'\<rparr>" and ?fs = "ri_frames (is_info st)"
  have L0: "0 < ?L" using t by simp
  note R = ring_readyD [OF rdy L0]
  note rt = round_tx [OF R(5) t R(8)]
  have inv': "ri_inv ?i" using rt(2) R(2) L0 by (intro ri_inv_set_tx) auto
  then have wf: "ri_wf ?i" by (simp add: ri_inv_def)
  have p: "0 < ri_nmfns ?i" using R(9) by (cases "ri_nmfns (is_info st)") auto
  have mpb: "\<forall>m\<in>set (ri_frames ?i). map_page_ok env m" and dist: "distinct ?fs"
    using R(3) by (auto simp: ring_mappable_def)
  obtain info1 where mp: "v4v_ring_map_page env ?i 0 = (Inr (?fs ! 0), info1)"
    "ri_same ?i info1" "ri_wf info1"
    using map_page_ok [OF wf p mpb] by auto
  have "ring_upd ?fs (is_mem st) (page_write (is_mem st) (?fs ! 0) OFF_TX_PTR (le_bytes 4 ?t'))
      (0 * PAGE_SIZE + OFF_TX_PTR) (le_bytes 4 ?t')"
    using p length_ri_frames [OF wf]
    by (intro ring_upd_page_write [OF dist]) (auto simp: OFF_TX_PTR_def PAGE_SIZE_def)
  then show ?thesis
    using mp rt(1) by (simp add: insert_finish_def Let_def v4v_update_tx_ptr_def)
qed

definition message_bytes :: "v4v_addr \<Rightarrow> u32w \<Rightarrow> byte list \<Rightarrow> byte list" where
  "message_bytes src proto bs = encode_mh (16 + length bs) src proto @ bs"

lemma ri_same_set_tx: "ri_same a b \<Longrightarrow> ri_same (a\<lparr>ri_tx_ptr := t\<rparr>) (b\<lparr>ri_tx_ptr := t\<rparr>)"
  by (cases a) (auto simp: ri_same_iff)

lemma insert_loop_payload:
  assumes "ring_ready env (is_info st)" "ri_len (is_info st) = L" "is_tx st < L"
    "payload env (is_mem st) (ri_frames (is_info st)) buf len iovs niov bs" "length bs < L"
  shows "\<exists>st'. insert_loop env st L buf (int (length bs)) iovs niov = (None, st') \<and>
    ri_same (is_info st) (is_info st') \<and> ri_wf (is_info st') \<and>
    is_tx st' = (is_tx st + length bs) mod L \<and>
    cupd (ri_frames (is_info st)) L (is_mem st) (is_mem st') (is_tx st) bs"
proof (cases "niov = 0")
  case True
  then show ?thesis
    using insert_loop_ok_0 [OF assms(1-3) _ assms(5)] assms(4) by (auto simp: payload_def)
next
  case False
  then obtain ds where "length ds = niov" "bs = concat (map snd ds)"
    "iovs_ok env (is_mem st) (ri_frames (is_info st)) iovs ds"
    using assms(4) by (auto simp: payload_def)
  then show ?thesis
    using insert_loop_ok [OF assms(1-3)] assms(4,5) by (auto simp: payload_def)
qed

lemma insert_write_ok:
  assumes rdy: "ring_ready env info" and L0: "0 < ri_len info"
    and ring: "rg_tx_ptr ring = ri_tx_ptr info" "rg_len ring = ri_len info"
    and pay: "payload env mem (ri_frames info) buf len0 iovs niov bs"
    and room: "round16 (length bs) + 16 < ri_len info"
  shows "\<exists>info' mem'. insert_write env mem info ring src proto buf (int (length bs)) iovs niov
      = (None, info', mem') \<and>
    ri_same (info\<lparr>ri_tx_ptr := (ri_tx_ptr info + (16 + round16 (length bs))) mod ri_len info\<rparr>) info' \<and>
    ri_wf info' \<and>
    published (ri_frames info) (ri_len info) mem mem' (ri_tx_ptr info) (message_bytes src proto bs)
      ((ri_tx_ptr info + (16 + round16 (length bs))) mod ri_len info)"
proof -
  let ?L = "ri_len info" and ?tx = "ri_tx_ptr info" and ?fs = "ri_frames info"
  let ?mh = "encode_mh (16 + length bs) src proto"
  note R = ring_readyD [OF rdy L0]
  have tx16: "?tx + 16 \<le> ?L" using R(5,6,7) by (elim dvdE) simp
  have lb: "16 + length bs < ?L" using room round16_ge [of "length bs"] by simp
  have u: "u32 (?tx + SIZEOF_RING) = ?tx + 64" "u32 (?tx + SIZEOF_MH) = ?tx + 16"
    "nat ((int (length bs) + int SIZEOF_MH) mod 2 ^ 32) = 16 + length bs"
    using R(7,8) lb by (auto simp: SIZEOF_RING_def SIZEOF_MH_def nat_mod_distrib nat_add_distrib)
  obtain info1 mem1 where hd: "v4v_memcpy_to_guest_ring env mem info (?tx + 64) ?mh = (None, info1, mem1)"
    "ri_same info info1" "ri_wf info1" "ring_upd ?fs mem mem1 (?tx + 64) ?mh"
  proof (rule memcpy_to_ring_ok [OF R(3), of ?mh "?tx + 64" mem])
    show "?mh \<noteq> []" by (metis length_encode_mh list.size(3) zero_neq_numeral)
  qed (use tx16 R(9) that in auto)
  note s1 = ri_same_fields [OF hd(2)]
  have c1: "cupd ?fs ?L mem mem1 ?tx ?mh"
    using hd(4) tx16 R(7) by (intro ring_upd_cupd) (auto simp: SIZEOF_RING_def)
  let ?st = "\<lparr>is_tx = (?tx + 16) mod ?L, is_info = info1, is_mem = mem1\<rparr>"
  have tx1: "(if ?tx + 16 = ?L then 0 else ?tx + 16) = (?tx + 16) mod ?L" using tx16 by auto
  have rdy1: "ring_ready env info1" by (rule ring_ready_same [OF rdy hd(2,3)])
  have pay1: "payload env mem1 ?fs buf len0 iovs niov bs" by (rule payload_cupd [OF pay c1])
  obtain st2 where lp: "insert_loop env ?st ?L buf (int (length bs)) iovs niov = (None, st2)"
    "ri_same info1 (is_info st2)" "ri_wf (is_info st2)"
    "is_tx st2 = ((?tx + 16) mod ?L + length bs) mod ?L"
    "cupd ?fs ?L mem1 (is_mem st2) ((?tx + 16) mod ?L) bs"
    using insert_loop_payload [of env ?st ?L buf len0 iovs niov bs] rdy1 pay1 s1 L0 lb by auto
  note s2 = ri_same_fields [OF ri_same_trans [OF hd(2) lp(2)]]
  have rdy2: "ring_ready env (is_info st2)" by (rule ring_ready_same [OF rdy1 lp(2,3)])
  have t': "round16 (is_tx st2) mod ri_len (is_info st2) = (?tx + (16 + round16 (length bs))) mod ?L"
    using round_circ [OF R(5,7,6), of "length bs"] lp(4) s2 by simp
  obtain info3 mem3 where fin: "insert_finish env st2 = (None, info3, mem3)" "ri_wf info3"
    "ri_same ((is_info st2)\<lparr>ri_tx_ptr := (?tx + (16 + round16 (length bs))) mod ?L\<rparr>) info3"
    "ring_upd ?fs (is_mem st2) mem3 OFF_TX_PTR (le_bytes 4 ((?tx + (16 + round16 (length bs))) mod ?L))"
    using insert_finish_ok [OF rdy2] lp(4) s2 L0 t' by auto
  have "cupd ?fs ?L mem (is_mem st2) ?tx (?mh @ bs)"
    using lp(5) lb R(7) by (intro cupd_append [OF c1]) auto
  from publishedI [OF this fin(4)]
  have "published ?fs ?L mem mem3 ?tx (message_bytes src proto bs)
      ((?tx + (16 + round16 (length bs))) mod ?L)" by (simp add: message_bytes_def)
  moreover have "insert_write env mem info ring src proto buf (int (length bs)) iovs niov
      = (None, info3, mem3)"
    unfolding insert_write_def ring u using hd(1) lp(1) fin(1) s1(2) tx1 by (simp add: Let_def)
  ultimately show ?thesis
    using fin(2) ri_same_trans [OF ri_same_set_tx [OF ri_same_trans [OF hd(2) lp(2)]] fin(3)] by blast
qed

text \<open>The receive pointer in the ring's header, and what sanitising makes of it.\<close>

definition rx_field :: "mfn list \<Rightarrow> mem \<Rightarrow> nat" where
  "rx_field fs mem = le_val (rbs fs mem OFF_RX_PTR 4)"

lemma header_read:
  assumes rdy: "ring_ready env info" and L0: "0 < ri_len info"
  obtains info1 where "v4v_memcpy_from_guest_ring env mem info 0 SIZEOF_RING =
      (Inr (rbs (ri_frames info) mem 0 64), info1)" "ri_same info info1" "ri_wf info1"
proof (rule memcpy_from_ring_ok [of env info SIZEOF_RING 0 mem])
  show "ring_mappable env info" "0 + SIZEOF_RING \<le> ri_nmfns info * PAGE_SIZE"
    using ring_readyD [OF assms] by (auto simp: SIZEOF_RING_def)
qed (use that in \<open>auto simp: SIZEOF_RING_def\<close>)

lemma seen_rx_eq:
  assumes rdy: "ring_ready env info" and L0: "0 < ri_len info"
  shows "seen_rx env mem info =
    (let rx = V4V_ROUNDUP (rx_field (ri_frames info) mem) in if ri_len info \<le> rx then 0 else rx)"
proof -
  obtain info1 where rd: "v4v_memcpy_from_guest_ring env mem info 0 SIZEOF_RING =
      (Inr (rbs (ri_frames info) mem 0 64), info1)" by (rule header_read [OF assms])
  have "take 4 (drop 20 (rbs (ri_frames info) mem 0 64)) = rbs (ri_frames info) mem 20 4"
    by (rule nth_equalityI) auto
  then show ?thesis
    using rd by (simp add: seen_rx_def v4v_sanitize_ring_def parse_ring_def get_field_def
        rx_field_def OFF_RX_PTR_def Let_def)
qed

lemma insert_body_ok:
  assumes rdy: "ring_ready env info" and L0: "0 < ri_len info"
    and pay: "payload env mem (ri_frames info) buf len0 iovs niov bs"
    and room: "round16 (length bs) + 16 < ri_len info"
  shows "\<exists>info' mem'. insert_body env mem info src proto buf (int (length bs)) iovs niov =
    (if seen_free env mem info \<le> round16 (length bs) + 16 then Some EAGAIN else None, info', mem') \<and>
    ri_wf info' \<and>
    (if seen_free env mem info \<le> round16 (length bs) + 16 then ri_same info info' \<and> mem' = mem
     else
       ri_same (info\<lparr>ri_tx_ptr := (ri_tx_ptr info + (16 + round16 (length bs))) mod ri_len info\<rparr>) info' \<and>
       published (ri_frames info) (ri_len info) mem mem' (ri_tx_ptr info) (message_bytes src proto bs)
         ((ri_tx_ptr info + (16 + round16 (length bs))) mod ri_len info))"
proof -
  let ?L = "ri_len info" and ?sp = "seen_free env mem info" and ?tx = "ri_tx_ptr info"
  note R = ring_readyD [OF rdy L0]
  obtain info1 where rd: "v4v_memcpy_from_guest_ring env mem info 0 SIZEOF_RING =
      (Inr (rbs (ri_frames info) mem 0 64), info1)" and s: "ri_same info info1" "ri_wf info1"
    by (rule header_read [OF rdy L0])
  note s1 = ri_same_fields [OF s(1)]
  let ?ring = "v4v_sanitize_ring (parse_ring (rbs (ri_frames info) mem 0 64)) info1"
  have L1: "0 < ri_len info1" and inv1: "ri_inv info1" using L0 s1 ri_inv_same [OF R(2) s] by auto
  note f = sanitize_fields [OF L1, of "parse_ring (rbs (ri_frames info) mem 0 64)", unfolded s1]
  have "seen_rx env mem info = rg_rx_ptr ?ring"
    using rd s1 by (simp add: seen_rx_def v4v_sanitize_ring_def)
  then have fr: "ring_free ?ring info1 = int ?sp" and sp: "?sp \<le> ?L"
    using ring_free_eq [OF inv1 L1, of "parse_ring (rbs (ri_frames info) mem 0 64)"] s1
      free_bytes_bounds [OF f(3) R(7)] by (auto simp: seen_free_def)
  have ms: "msg_space (int (length bs)) = round16 (length bs) + 16"
    using msg_space_pos [of "int (length bs)"] room R(8) round16_ge [of "length bs"] by simp
  have pay1: "payload env mem (ri_frames info1) buf len0 iovs niov bs" using pay s1 by simp
  have room1: "round16 (length bs) + 16 < ri_len info1" using room s1 by simp
  have fields1: "rg_tx_ptr ?ring = ri_tx_ptr info1" "rg_len ?ring = ri_len info1" using f s1 by auto
  obtain info2 mem2 where w: "insert_write env mem info1 ?ring src proto buf (int (length bs)) iovs niov
      = (None, info2, mem2)" "ri_wf info2"
    "ri_same (info1\<lparr>ri_tx_ptr := (?tx + (16 + round16 (length bs))) mod ?L\<rparr>) info2"
    "published (ri_frames info) ?L mem mem2 ?tx (message_bytes src proto bs)
      ((?tx + (16 + round16 (length bs))) mod ?L)"
    using insert_write_ok [OF ring_ready_same [OF rdy s] L1 fields1 pay1 room1, of src proto] s1 by auto
  have u: "u64_of_int (int ?sp) = ?sp" using sp R(8) by simp
  show ?thesis
  proof (cases "?sp \<le> round16 (length bs) + 16")
    case True
    then show ?thesis using rd s ms by (auto simp: insert_body_def Let_def fr u)
  next
    case False
    then show ?thesis
      using rd s ms w ri_same_trans [OF ri_same_set_tx [OF s(1)] w(3)]
      by (auto simp: insert_body_def Let_def fr u)
  qed
qed

text \<open>An insertion reduces to its body once the vector and the size are known to be acceptable.\<close>

lemma insert_eq:
  assumes "0 < ri_len info" "length bs < 2 ^ 31 - 16" "payload env mem (ri_frames info) buf len iovs niov bs"
  shows "v4v_ringbuf_insert env mem info src_id proto buf len iovs niov =
    (if niov \<noteq> 0 \<and> V4V_RING_MAX_SIZE < length bs then (Some EINVAL, len, info, mem)
     else if ri_len info \<le> 16 + round16 (length bs) then (Some EMSGSIZE, int (length bs), info, mem)
     else case insert_body env mem info (id_addr src_id) proto buf (int (length bs)) iovs niov of
       (r, info', mem') \<Rightarrow> (r, int (length bs), info', mem'))"
proof -
  let ?n = "if niov = 0 then Inr len else map_sum id int (v4v_iov_count env mem iovs niov)"
  have n: "?n = (if niov \<noteq> 0 \<and> V4V_RING_MAX_SIZE < length bs then Inl EINVAL else Inr (int (length bs)))"
    using assms(3) iov_count_loop_ok [of env mem "ri_frames info" iovs _ 0]
    by (auto simp: payload_def v4v_iov_count_def)
  have ms: "msg_space (int (length bs)) = 16 + round16 (length bs)"
    using msg_space_pos [of "int (length bs)"] assms(2) by simp
  show ?thesis
    using n ms assms(1) by (auto simp: v4v_ringbuf_insert_def Let_def split: if_splits)
qed

lemma insert_result:
  assumes "ring_ready env info" "0 < ri_len info" "length bs < 2 ^ 31 - 16"
    "payload env mem (ri_frames info) buf len iovs niov bs"
  shows "case v4v_ringbuf_insert env mem info src_id proto buf len iovs niov of (r, n, info', mem') \<Rightarrow>
    (let size = 16 + round16 (length bs);
         tx' = (ri_tx_ptr info + size) mod ri_len info
     in if niov \<noteq> 0 \<and> V4V_RING_MAX_SIZE < length bs
        then r = Some EINVAL \<and> n = len \<and> info' = info \<and> mem' = mem
        else n = int (length bs) \<and>
          (if ri_len info \<le> size then r = Some EMSGSIZE \<and> info' = info \<and> mem' = mem
           else if seen_free env mem info \<le> size
           then r = Some EAGAIN \<and> ri_same info info' \<and> ri_wf info' \<and> mem' = mem
           else r = None \<and> ri_same (info\<lparr>ri_tx_ptr := tx'\<rparr>) info' \<and> ri_wf info' \<and>
             published (ri_frames info) (ri_len info) mem mem' (ri_tx_ptr info)
               (message_bytes (id_addr src_id) proto bs) tx'))"
  unfolding insert_eq [OF assms(2-4)]
  using assms(2) insert_body_ok [OF assms(1,2,4), of "id_addr src_id" proto]
  by (auto simp: Let_def add.commute)

text \<open>
  C2.  The complete outcome of inserting a message into a registered ring whose pages are
  mapped, when the sender's buffers are readable and outside the ring: too long a vector is
  \<open>EINVAL\<close>, a message that can never fit is \<open>EMSGSIZE\<close>, one that does not fit now is \<open>EAGAIN\<close>,
  and in each of these cases memory is unchanged; otherwise the ring holds the header and the
  payload at the old transmit pointer, wrapped around the end, the new transmit pointer is
  published, and no other byte of memory has changed.
\<close>

theorem v4v_ringbuf_insert_result:
  assumes "ring_ready env info" "0 < ri_len info" "length bs < 2 ^ 31 - 16"
    "payload env mem (ri_frames info) buf len iovs niov bs"
  shows "case v4v_ringbuf_insert env mem info src_id proto buf len iovs niov of (r, n, info', mem') \<Rightarrow>
    (let size = 16 + round16 (length bs);
         tx' = (ri_tx_ptr info + size) mod ri_len info
     in if niov \<noteq> 0 \<and> V4V_RING_MAX_SIZE < length bs
        then r = Some EINVAL \<and> n = len \<and> info' = info \<and> mem' = mem
        else n = int (length bs) \<and>
          (if ri_len info \<le> size then r = Some EMSGSIZE \<and> info' = info \<and> mem' = mem
           else if seen_free env mem info \<le> size
           then r = Some EAGAIN \<and> ri_same info info' \<and> ri_wf info' \<and> mem' = mem
           else r = None \<and> ri_same (info\<lparr>ri_tx_ptr := tx'\<rparr>) info' \<and> ri_wf info' \<and>
             published (ri_frames info) (ri_len info) mem mem' (ri_tx_ptr info)
               (message_bytes (id_addr src_id) proto bs) tx'))"
  using assms by (rule insert_result)

text \<open>A message of three bytes for the sample ring wraps around its end.\<close>

lemma sample_ready: "ring_ready sample_env sample_info"
  using sample_inv
  by (simp add: ring_ready_def ring_mappable_def ring_fits_def ri_inv_def sample_info_def sample_env_def
      ri_frames_def v4v_consts)

definition sample_data :: "byte list" where
  "sample_data = [0, 42, 0]"

lemma sample_payload: "payload sample_env sample_mem (ri_frames sample_info) 0 3 0 0 sample_data"
  by (auto simp: payload_def src_ok_def guest_ready_def must_retry_def guest_bytes_def guest_frames_def guest_frame_def hvm_xlate_def sample_data_def
      sample_env_def sample_mem_def sample_info_def ri_frames_def PAGE_SIZE_def upt_rec)

lemma sample_free: "seen_free sample_env sample_mem sample_info = 64"
proof -
  have "rx_field (ri_frames sample_info) sample_mem = 48"
    by (simp add: rx_field_def rbs_def rb_def sample_info_def sample_mem_def ri_frames_def v4v_consts upt_rec)
  then show ?thesis
    using seen_rx_eq [OF sample_ready, of sample_mem]
    by (simp add: seen_free_def free_bytes_def sample_info_def V4V_ROUNDUP_def)
qed

theorem v4v_ringbuf_insert_result_witness:
  "case v4v_ringbuf_insert sample_env sample_mem sample_info (ri_id sample_info) 6 0 3 0 0 of (r, n, info', mem') \<Rightarrow>
     r = None \<and> n = 3 \<and> ri_tx_ptr info' = 16 \<and>
     published [5] 64 sample_mem mem' 48 (message_bytes (id_addr (ri_id sample_info)) 6 sample_data) 16"
proof -
  have i: "ri_len sample_info = 64" "ri_tx_ptr sample_info = 48" "ri_frames sample_info = [5]"
    by (simp_all add: sample_info_def ri_frames_def)
  have d: "length sample_data = 3" "round16 3 = 16" by (simp_all add: sample_data_def round16_def)
  show ?thesis
    using v4v_ringbuf_insert_result [OF sample_ready _ _ sample_payload, of "ri_id sample_info" 6] d
    by (auto simp: i sample_free Let_def ri_same_fields V4V_RING_MAX_SIZE_def split: prod.splits)
qed

end
