(* ===== verification/V4v_Consumer.thy ===== *)
theory V4v_Consumer
  imports V4v_Ring_Insert
begin

text \<open>
  The receiving side of a ring: the inline functions of \<open>xen/include/public/v4v.h\<close> that a guest
  driver or the device model uses to take messages out, and their correctness against the
  abstract content of a ring, a queue of messages.
\<close>

section \<open>Taking a message out\<close>

text \<open>
  The ring as its owner maps it, one flat structure; \<open>ur_ring i\<close> is the byte at \<open>r->ring[i]\<close>.
  The receiver's buffers live in its address space, a map from addresses to bytes.
\<close>

record v4v_uring =
  ur_len :: nat
  ur_rx_ptr :: nat
  ur_tx_ptr :: nat
  ur_ring :: "nat \<Rightarrow> byte"

definition v4v_ring_bytes_to_read :: "v4v_uring \<Rightarrow> nat" where
  "v4v_ring_bytes_to_read r =
     (let ret = s32 (int (ur_tx_ptr r) - int (ur_rx_ptr r))
      in if 0 \<le> ret then nat ret else nat ((int (ur_len r) + ret) mod 2 ^ 32))"

definition ring_slice :: "v4v_uring \<Rightarrow> nat \<Rightarrow> nat \<Rightarrow> byte list" where
  "ring_slice r off n = map (\<lambda>i. ur_ring r (off + i)) [0..<n]"

definition memcpy :: "(nat \<Rightarrow> byte) \<Rightarrow> nat \<Rightarrow> byte list \<Rightarrow> nat \<Rightarrow> byte" where
  "memcpy am dst bs = (\<lambda>a. if dst \<le> a \<and> a < dst + length bs then bs ! (a - dst) else am a)"

record v4v_mh =
  mh_len :: nat
  mh_source :: v4v_addr
  mh_protocol :: u32w

definition parse_mh :: "byte list \<Rightarrow> v4v_mh" where
  "parse_mh bs =
     \<lparr>mh_len = get_field bs 0 4,
      mh_source = \<lparr>a_port = of_nat (get_field bs 4 4), a_domain = of_nat (get_field bs 8 2)\<rparr>,
      mh_protocol = of_nat (get_field bs 12 4)\<rparr>"

text \<open>
  The result is the return value, what is stored through \<open>from\<close> and \<open>protocol\<close> when a message is
  there, the ring, and the receiver's memory.  \<open>buf = 0\<close> is the null pointer.
\<close>

type_synonym copy_out_result =
  "int \<times> (v4v_addr \<times> u32w) option \<times> v4v_uring \<times> (nat \<Rightarrow> byte)"

text \<open>The payload copy of \<open>v4v_copy_out\<close>: the receive pointer after it, and the memory.\<close>

definition copy_out_data ::
  "v4v_uring \<Rightarrow> (nat \<Rightarrow> byte) \<Rightarrow> nat \<Rightarrow> nat \<Rightarrow> nat \<Rightarrow> nat \<Rightarrow> nat \<times> (nat \<Rightarrow> byte)" where
  "copy_out_data r am buf t rxp len =
     (let bte = u32_sub (ur_len r) rxp;
          (rxp2, len2, t2, buf2, am2) =
            (if bte < len then
               (if t < bte
                then (0, len - bte, 0, (if buf = 0 then 0 else u64 (buf + t)),
                      (if buf = 0 then am else memcpy am buf (ring_slice r rxp t)))
                else (0, len - bte, t - bte, (if buf = 0 then 0 else u64 (buf + bte)),
                      (if buf = 0 then am else memcpy am buf (ring_slice r rxp bte))))
             else (rxp, len, t, buf, am));
          am3 = (if buf2 \<noteq> 0 \<and> t2 \<noteq> 0
                 then memcpy am2 buf2 (ring_slice r rxp2 (if t2 < len2 then t2 else len2))
                 else am2);
          rxp3 = u32 (rxp2 + V4V_ROUNDUP len2)
      in (if rxp3 = ur_len r then 0 else rxp3, am3))"

definition v4v_copy_out ::
  "v4v_uring \<Rightarrow> (nat \<Rightarrow> byte) \<Rightarrow> nat \<Rightarrow> nat \<Rightarrow> bool \<Rightarrow> copy_out_result" where
  "v4v_copy_out r am buf t consume =
     (let btr = v4v_ring_bytes_to_read r; mh = parse_mh (ring_slice r (ur_rx_ptr r) SIZEOF_MH)
      in if btr < SIZEOF_MH then (- 1, None, r, am)
         else if btr < mh_len mh then (- 1, None, r, am)
         else
           (let rxp0 = u32 (ur_rx_ptr r + SIZEOF_MH);
                rxp1 = (if rxp0 = ur_len r then 0 else rxp0);
                len = u32_sub (mh_len mh) SIZEOF_MH;
                (rxp, am') = copy_out_data r am buf t rxp1 len
            in (s32 (int len), Some (mh_source mh, mh_protocol mh),
                (if consume then r\<lparr>ur_rx_ptr := rxp\<rparr> else r), am')))"

definition v4v_memcpy_skip ::
  "(nat \<Rightarrow> byte) \<Rightarrow> nat \<Rightarrow> byte list \<Rightarrow> nat \<Rightarrow> (nat \<Rightarrow> byte) \<times> nat" where
  "v4v_memcpy_skip am dst src skip =
     (if skip = 0 then (memcpy am dst src, 0)
      else if length src \<le> skip then (am, skip - length src)
      else (memcpy am (u64 (dst + skip)) (drop skip src), 0))"

text \<open>The payload copy of \<open>v4v_copy_out_offset\<close>; \<open>buf\<close> is already moved back by \<open>skip\<close>.\<close>

definition copy_out_data_skip ::
  "v4v_uring \<Rightarrow> (nat \<Rightarrow> byte) \<Rightarrow> nat \<Rightarrow> nat \<Rightarrow> nat \<Rightarrow> nat \<Rightarrow> nat \<Rightarrow> nat \<times> (nat \<Rightarrow> byte)" where
  "copy_out_data_skip r am buf t rxp len skip =
     (let bte = u32_sub (ur_len r) rxp;
          (rxp2, len2, t2, buf2, am2, skip2) =
            (if bte < len then
               (if t < bte
                then (case (if buf = 0 then (am, skip)
                            else v4v_memcpy_skip am buf (ring_slice r rxp t) skip) of
                        (am', skip') \<Rightarrow>
                          (0, len - bte, 0, (if buf = 0 then 0 else u64 (buf + t)), am', skip'))
                else (case (if buf = 0 then (am, skip)
                            else v4v_memcpy_skip am buf (ring_slice r rxp bte) skip) of
                        (am', skip') \<Rightarrow>
                          (0, len - bte, t - bte, (if buf = 0 then 0 else u64 (buf + bte)), am', skip')))
             else (rxp, len, t, buf, am, skip));
          am3 = (if buf2 \<noteq> 0 \<and> t2 \<noteq> 0
                 then fst (v4v_memcpy_skip am2 buf2
                             (ring_slice r rxp2 (if t2 < len2 then t2 else len2)) skip2)
                 else am2);
          rxp3 = u32 (rxp2 + V4V_ROUNDUP len2)
      in (if rxp3 = ur_len r then 0 else rxp3, am3))"

definition v4v_copy_out_offset ::
  "v4v_uring \<Rightarrow> (nat \<Rightarrow> byte) \<Rightarrow> nat \<Rightarrow> nat \<Rightarrow> bool \<Rightarrow> nat \<Rightarrow> copy_out_result" where
  "v4v_copy_out_offset r am buf0 t consume skip =
     (let btr = v4v_ring_bytes_to_read r; mh = parse_mh (ring_slice r (ur_rx_ptr r) SIZEOF_MH);
          buf = u64 (buf0 + 2 ^ 64 - skip)
      in if btr < SIZEOF_MH then (- 1, None, r, am)
         else if btr < mh_len mh then (- 1, None, r, am)
         else
           (let rxp0 = u32 (ur_rx_ptr r + SIZEOF_MH);
                rxp1 = (if rxp0 = ur_len r then 0 else rxp0);
                len = u32_sub (mh_len mh) SIZEOF_MH;
                (rxp, am') = copy_out_data_skip r am buf t rxp1 len skip
            in (s32 (int len), Some (mh_source mh, mh_protocol mh),
                (if consume then r\<lparr>ur_rx_ptr := rxp\<rparr> else r), am')))"

section \<open>The queue of messages in a ring\<close>

record v4v_message =
  m_source :: v4v_addr
  m_protocol :: u32w
  m_data :: "byte list"

definition msize :: "v4v_message \<Rightarrow> nat" where
  "msize m = 16 + round16 (length (m_data m))"

abbreviation total :: "v4v_message list \<Rightarrow> nat" where
  "total ms \<equiv> sum_list (map msize ms)"

text \<open>The \<open>n\<close> bytes at ring positions \<open>t, t + 1, \<dots>\<close>, wrapping around the end.\<close>

definition cread :: "(nat \<Rightarrow> byte) \<Rightarrow> nat \<Rightarrow> nat \<Rightarrow> nat \<Rightarrow> byte list" where
  "cread c L t n = map (\<lambda>i. c ((t + i) mod L)) [0..<n]"

fun queued :: "(nat \<Rightarrow> byte) \<Rightarrow> nat \<Rightarrow> nat \<Rightarrow> v4v_message list \<Rightarrow> bool" where
  "queued c L rx [] = True"
| "queued c L rx (m # ms) =
     (cread c L rx (16 + length (m_data m)) = message_bytes (m_source m) (m_protocol m) (m_data m) \<and>
      queued c L ((rx + msize m) mod L) ms)"

definition uring_holds :: "v4v_uring \<Rightarrow> v4v_message list \<Rightarrow> bool" where
  "uring_holds r ms \<longleftrightarrow>
     0 < ur_len r \<and> ur_len r \<le> V4V_MAX_RING_SIZE \<and> 16 dvd ur_len r \<and>
     ur_rx_ptr r < ur_len r \<and> 16 dvd ur_rx_ptr r \<and>
     total ms < ur_len r \<and> ur_tx_ptr r = (ur_rx_ptr r + total ms) mod ur_len r \<and>
     queued (ur_ring r) (ur_len r) (ur_rx_ptr r) ms"

lemma length_cread [simp]: "length (cread c L t n) = n"
  by (simp add: cread_def)

lemma msize_dvd [simp]: "16 dvd msize m"
  by (simp add: msize_def)

lemma msize_ge: "16 + length (m_data m) \<le> msize m"
  using round16_ge [of "length (m_data m)"] by (simp add: msize_def)

lemma total_dvd [simp]: "16 dvd total ms"
  by (induction ms) auto

lemma cread_add: "cread c L t (m + n) = cread c L t m @ cread c L ((t + m) mod L) n"
  by (rule nth_equalityI) (auto simp: cread_def nth_append mod_add_left_eq)

lemma cread_slice:
  assumes "t + n \<le> ur_len r"
  shows "cread (ur_ring r) (ur_len r) t n = ring_slice r t n"
  using assms by (auto intro!: nth_equalityI simp: cread_def ring_slice_def)

lemma length_ring_slice [simp]: "length (ring_slice r t n) = n"
  by (simp add: ring_slice_def)

lemma parse_mh_encode:
  assumes "n < 2 ^ 32"
  shows "parse_mh (encode_mh n src proto) = \<lparr>mh_len = n, mh_source = src, mh_protocol = proto\<rparr>"
proof -
  have "unat (a_port src) < 4294967296" "unat proto < 4294967296" "unat (a_domain src) < 65536"
    using unsigned_less [of "a_port src", where ?'a = nat] unsigned_less [of proto, where ?'a = nat]
      unsigned_less [of "a_domain src", where ?'a = nat] by auto
  then show ?thesis
    using assms by (simp add: parse_mh_def encode_mh_def get_field_def)
qed

lemma bytes_to_read_eq:
  assumes "uring_holds r ms"
  shows "v4v_ring_bytes_to_read r = total ms"
proof -
  let ?L = "ur_len r" and ?rx = "ur_rx_ptr r"
  have L: "?L \<le> 16777216" "?rx < ?L" "total ms < ?L" "ur_tx_ptr r = (?rx + total ms) mod ?L"
    using assms by (auto simp: uring_holds_def V4V_MAX_RING_SIZE_def)
  show ?thesis
  proof (cases "?rx + total ms < ?L")
    case True
    then show ?thesis using L by (simp add: v4v_ring_bytes_to_read_def)
  next
    case False
    then have tx: "ur_tx_ptr r = ?rx + total ms - ?L" using L by (simp add: mod_if)
    then have "int (ur_tx_ptr r) - int ?rx = int (total ms) - int ?L" using False by linarith
    then show ?thesis using L by (simp add: v4v_ring_bytes_to_read_def Let_def)
  qed
qed

section \<open>Correctness of taking a message out\<close>

lemma memcpy_Nil [simp]: "memcpy am dst [] = am"
  by (auto simp: memcpy_def fun_eq_iff)

lemma memcpy_append: "memcpy (memcpy am dst xs) (dst + length xs) ys = memcpy am dst (xs @ ys)"
  by (auto simp: memcpy_def fun_eq_iff nth_append)

lemma ring_slice_take: "t \<le> n \<Longrightarrow> ring_slice r off t = take t (ring_slice r off n)"
  by (auto intro!: nth_equalityI simp: ring_slice_def)

text \<open>The geometry of the first message of a ring.\<close>

lemma first_message:
  assumes "uring_holds r (m # ms)"
  defines "n \<equiv> length (m_data m)" and "p \<equiv> (ur_rx_ptr r + 16) mod ur_len r"
  shows "parse_mh (ring_slice r (ur_rx_ptr r) SIZEOF_MH) =
      \<lparr>mh_len = 16 + n, mh_source = m_source m, mh_protocol = m_protocol m\<rparr>"
    and "ur_rx_ptr r + 16 \<le> ur_len r" and "16 + n \<le> total (m # ms)" and "p < ur_len r" and "16 dvd p"
    and "cread (ur_ring r) (ur_len r) p n = m_data m"
    and "16 + n < ur_len r" and "ur_len r \<le> 16777216"
proof -
  let ?L = "ur_len r" and ?rx = "ur_rx_ptr r"
  have h: "?L \<le> 16777216" "16 dvd ?L" "?rx < ?L" "16 dvd ?rx" "total (m # ms) < ?L"
    "cread (ur_ring r) ?L ?rx (16 + n) = encode_mh (16 + n) (m_source m) (m_protocol m) @ m_data m"
    using assms(1) by (auto simp: uring_holds_def V4V_MAX_RING_SIZE_def n_def message_bytes_def)
  show le: "?rx + 16 \<le> ?L" using h(2-4) by (elim dvdE) simp
  show n: "16 + n \<le> total (m # ms)" using msize_ge [of m] by (simp add: n_def)
  show "16 + n < ?L" "?L \<le> 16777216" using n h(1,5) by auto
  show "p < ?L" "16 dvd p" using h(2-4) by (auto simp: p_def dvd_mod)
  have "cread (ur_ring r) ?L ?rx 16 @ cread (ur_ring r) ?L p n =
      encode_mh (16 + n) (m_source m) (m_protocol m) @ m_data m"
    using h(6) by (simp add: cread_add p_def)
  then have e: "cread (ur_ring r) ?L ?rx 16 = encode_mh (16 + n) (m_source m) (m_protocol m)"
    "cread (ur_ring r) ?L p n = m_data m" by auto
  then show "cread (ur_ring r) ?L p n = m_data m" by simp
  have "ring_slice r ?rx 16 = encode_mh (16 + n) (m_source m) (m_protocol m)"
    using e(1) cread_slice [OF le] by simp
  then show "parse_mh (ring_slice r ?rx SIZEOF_MH) =
      \<lparr>mh_len = 16 + n, mh_source = m_source m, mh_protocol = m_protocol m\<rparr>"
    using n h(1,5) parse_mh_encode [of "16 + n"] by (simp add: SIZEOF_MH_def)
qed

lemma data_pieces:
  assumes "p < ur_len r" "n < ur_len r" "cread (ur_ring r) (ur_len r) p n = d"
  shows "ur_len r - p < n \<Longrightarrow>
      d = ring_slice r p (ur_len r - p) @ ring_slice r 0 (n - (ur_len r - p))"
    and "n \<le> ur_len r - p \<Longrightarrow> d = ring_slice r p n"
proof -
  show "ur_len r - p < n \<Longrightarrow>
      d = ring_slice r p (ur_len r - p) @ ring_slice r 0 (n - (ur_len r - p))"
    using assms cread_add [of "ur_ring r" "ur_len r" p "ur_len r - p" "n - (ur_len r - p)"]
    by (simp add: cread_slice)
  show "n \<le> ur_len r - p \<Longrightarrow> d = ring_slice r p n"
    using assms by (simp add: cread_slice)
qed

lemma round16_add: "16 dvd b \<Longrightarrow> round16 (b + n) = b + round16 n"
proof -
  assume "16 dvd b"
  then obtain k where "b = 16 * k" by auto
  then have "b + n + 15 = (n + 15) + 16 * k" by simp
  then have "(b + n + 15) div 16 = k + (n + 15) div 16" by (simp only: div_mult_self2)
  then show ?thesis unfolding round16_def by (simp only:) (simp add: \<open>b = 16 * k\<close>)
qed

lemma round16_mono: "a \<le> b \<Longrightarrow> round16 a \<le> round16 b"
  by (simp add: round16_def div_le_mono)

text \<open>Where the receive pointer ends up, computed piecewise as the code does.\<close>

lemma next_rx:
  assumes "16 dvd L" "p < L" "16 dvd p" "round16 n < L" "L \<le> 16777216"
  shows "L - p < n \<Longrightarrow>
      (let q = u32 (0 + V4V_ROUNDUP (n - (L - p))) in if q = L then 0 else q) = (p + round16 n) mod L"
    and "n \<le> L - p \<Longrightarrow>
      (let q = u32 (p + V4V_ROUNDUP n) in if q = L then 0 else q) = (p + round16 n) mod L"
proof -
  have d: "16 dvd L - p" using assms(1,3) by (simp add: dvd_diff_nat)
  have n: "n < L" using assms(4) round16_ge [of n] by simp
  {
    assume w: "L - p < n"
    define x where "x = V4V_ROUNDUP (n - (L - p))"
    have "x = round16 (n - (L - p))"
      unfolding x_def using n assms(5) by (intro V4V_ROUNDUP_eq) simp
    then have "round16 n = (L - p) + x"
      using round16_add [OF d, of "n - (L - p)"] w by simp
    then have "p + round16 n = L + x" "x < L" using assms(2,4) by auto
    then show "(let q = u32 (0 + V4V_ROUNDUP (n - (L - p))) in if q = L then 0 else q) =
        (p + round16 n) mod L"
      using assms(5) by (simp add: Let_def x_def [symmetric])
  }
  assume w: "n \<le> L - p"
  then have "round16 n \<le> L - p" using round16_mono [OF w] round16_id [OF d] by simp
  moreover have "V4V_ROUNDUP n = round16 n" using n assms(5) by (intro V4V_ROUNDUP_eq) simp
  ultimately show "(let q = u32 (p + V4V_ROUNDUP n) in if q = L then 0 else q) = (p + round16 n) mod L"
    using assms(2,5) by (auto simp: Let_def)
qed

lemma uring_holds_tl:
  assumes "uring_holds r (m # ms)"
  shows "uring_holds (r\<lparr>ur_rx_ptr := (ur_rx_ptr r + msize m) mod ur_len r\<rparr>) ms"
  using assms by (auto simp: uring_holds_def dvd_mod mod_add_left_eq add.assoc)

text \<open>The two pieces of a payload that wraps, and what of them a bound \<open>t\<close> leaves.\<close>

lemma take_pieces:
  assumes "b < n" "d = ring_slice r p b @ ring_slice r 0 (n - b)"
  shows "t < b \<Longrightarrow> ring_slice r p t = take t d"
    and "\<not> t < b \<Longrightarrow>
      ring_slice r p b @ ring_slice r 0 (if t - b < n - b then t - b else n - b) = take t d"
  using assms ring_slice_take [of t b r p] ring_slice_take [of "t - b" "n - b" r 0] by auto

lemma copy_out_data_wrap:
  assumes b: "u32_sub (ur_len r) p = b" "b < n" and d: "d = ring_slice r p b @ ring_slice r 0 (n - b)"
    and x: "(let q = u32 (0 + V4V_ROUNDUP (n - b)) in if q = ur_len r then 0 else q) = x"
    and buf: "buf + t < 2 ^ 64"
  shows "copy_out_data r am buf t p n = (x, if buf = 0 then am else memcpy am buf (take t d))"
proof -
  note tp = take_pieces [OF b(2) d, of t]
  have x': "(if u32 (0 + V4V_ROUNDUP (n - b)) = ur_len r then 0 else u32 (0 + V4V_ROUNDUP (n - b))) = x"
    using x by (simp only: Let_def)
  show ?thesis
  proof (cases "t < b")
    case True
    then show ?thesis using b x' tp(1) unfolding copy_out_data_def Let_def by simp
  next
    case ge: False
    have u: "u64 (buf + b) = buf + b" using ge buf by simp
    let ?ys = "ring_slice r 0 (if t - b < n - b then t - b else n - b)"
    have m: "memcpy (memcpy am buf (ring_slice r p b)) (buf + b) ?ys = memcpy am buf (take t d)"
      using memcpy_append [of am buf "ring_slice r p b" ?ys] tp(2) [OF ge] by (simp only: length_ring_slice)
    have m0: "memcpy am buf (ring_slice r p b) = memcpy am buf (take t d)" if "t - b = 0"
      using m that b(2) by (simp add: ring_slice_def)
    show ?thesis
      using ge b m m0 unfolding copy_out_data_def Let_def b(1) x' [symmetric]
      by (cases "buf = 0"; cases "t - b = 0") (simp_all add: u x' del: diff_is_0_eq)
  qed
qed

lemma copy_out_data_eq:
  assumes "16 dvd ur_len r" "p < ur_len r" "16 dvd p" "round16 n < ur_len r" "ur_len r \<le> 16777216"
    and d: "cread (ur_ring r) (ur_len r) p n = d" and buf: "buf + t < 2 ^ 64"
  shows "copy_out_data r am buf t p n =
    ((p + round16 n) mod ur_len r, if buf = 0 then am else memcpy am buf (take t d))"
proof -
  let ?L = "ur_len r"
  have b: "u32_sub ?L p = ?L - p" using assms(2,5) by (simp add: u32_sub_le)
  have n: "n < ?L" using assms(4) round16_ge [of n] by simp
  note D = data_pieces [OF assms(2) n d] and nx = next_rx [OF assms(1-5)]
  show ?thesis
  proof (cases "?L - p < n")
    case False
    then have "ring_slice r p (if t < n then t else n) = take t d"
      using D(2) ring_slice_take [of t n r p] by auto
    then show ?thesis
      using False b nx(2) by (auto simp: copy_out_data_def Let_def)
  next
    case True
    then show ?thesis by (intro copy_out_data_wrap [OF b] D nx buf)
  qed
qed

text \<open>The steps before the payload copy, shared by both functions.\<close>

lemma first_message_steps:
  assumes h: "uring_holds r (m # ms)"
  defines "p \<equiv> (ur_rx_ptr r + 16) mod ur_len r"
  shows "\<not> v4v_ring_bytes_to_read r < SIZEOF_MH"
    and "\<not> v4v_ring_bytes_to_read r < 16 + length (m_data m)"
    and "(let q = u32 (ur_rx_ptr r + SIZEOF_MH) in if q = ur_len r then 0 else q) = p"
    and "u32_sub (16 + length (m_data m)) SIZEOF_MH = length (m_data m)"
    and "s32 (int (length (m_data m))) = int (length (m_data m))"
    and "(p + round16 (length (m_data m))) mod ur_len r = (ur_rx_ptr r + msize m) mod ur_len r"
    and "round16 (length (m_data m)) < ur_len r"
proof -
  note F = first_message [OF h]
  show "\<not> v4v_ring_bytes_to_read r < SIZEOF_MH"
    "\<not> v4v_ring_bytes_to_read r < 16 + length (m_data m)"
    using bytes_to_read_eq [OF h] F(3) by (auto simp: SIZEOF_MH_def)
  show "(let q = u32 (ur_rx_ptr r + SIZEOF_MH) in if q = ur_len r then 0 else q) = p"
    "u32_sub (16 + length (m_data m)) SIZEOF_MH = length (m_data m)"
    "s32 (int (length (m_data m))) = int (length (m_data m))"
    using F(2,7,8) by (auto simp: SIZEOF_MH_def u32_sub_le p_def Let_def)
  show "(p + round16 (length (m_data m))) mod ur_len r = (ur_rx_ptr r + msize m) mod ur_len r"
    by (simp add: msize_def mod_add_left_eq add.assoc p_def)
  show "round16 (length (m_data m)) < ur_len r"
    using h by (simp add: msize_def uring_holds_def)
qed

lemma v4v_copy_out_first:
  assumes h: "uring_holds r (m # ms)" and buf: "buf + t < 2 ^ 64"
  shows "v4v_copy_out r am buf t consume =
    (int (length (m_data m)), Some (m_source m, m_protocol m),
     (if consume then r\<lparr>ur_rx_ptr := (ur_rx_ptr r + msize m) mod ur_len r\<rparr> else r),
     (if buf = 0 then am else memcpy am buf (take t (m_data m))))"
proof -
  note F = first_message [OF h] and S = first_message_steps [OF h]
  have L: "16 dvd ur_len r" using h by (auto simp: uring_holds_def)
  note cd = copy_out_data_eq [OF L F(4,5) S(7) F(8,6) buf, of am]
  show ?thesis
    using S(1,2) unfolding v4v_copy_out_def
    by (simp add: F(1) S(3) [unfolded Let_def] S(4,5) cd S(6) Let_def)
qed

lemma v4v_copy_out_empty:
  assumes "uring_holds r []"
  shows "v4v_copy_out r am buf t consume = (- 1, None, r, am)"
  using bytes_to_read_eq [OF assms] by (simp add: v4v_copy_out_def Let_def SIZEOF_MH_def)

text \<open>Copying a piece of the message that starts \<open>k\<close> bytes into it, skipping \<open>skip\<close> bytes in all.\<close>

lemma memcpy_skip_piece:
  assumes "length xs + dst + skip < 2 ^ 64"
  shows "v4v_memcpy_skip am dst xs skip = (memcpy am (dst + skip) (drop skip xs), skip - length xs)"
  using assms by (auto simp: v4v_memcpy_skip_def)

lemma memcpy_drop_append:
  "memcpy (memcpy am (dst + skip) (drop skip xs)) (dst + length xs + (skip - length xs))
     (drop (skip - length xs) ys) = memcpy am (dst + skip) (drop skip (xs @ ys))"
proof (cases "skip \<le> length xs")
  case True
  then show ?thesis
    using memcpy_append [of am "dst + skip" "drop skip xs" ys] by simp
next
  case False
  then show ?thesis by (simp add: add.commute add.left_commute)
qed

lemma copy_out_data_skip_wrap:
  assumes b: "u32_sub (ur_len r) p = b" "b < n" and d: "d = ring_slice r p b @ ring_slice r 0 (n - b)"
    and x: "(let q = u32 (0 + V4V_ROUNDUP (n - b)) in if q = ur_len r then 0 else q) = x"
    and buf: "0 < buf" "buf + t + skip < 2 ^ 64" "buf + n + skip < 2 ^ 64"
  shows "copy_out_data_skip r am buf t p n skip =
    (x, memcpy am (buf + skip) (drop skip (take t d)))"
proof -
  note tp = take_pieces [OF b(2) d, of t]
  have x': "(if u32 (0 + V4V_ROUNDUP (n - b)) = ur_len r then 0 else u32 (0 + V4V_ROUNDUP (n - b))) = x"
    using x by (simp only: Let_def)
  show ?thesis
  proof (cases "t < b")
    case True
    then have "length (take t d) + buf + skip < 2 ^ 64" using buf by simp
    then show ?thesis
      using True b x' tp(1) buf(1) memcpy_skip_piece [of "take t d" buf skip am]
      unfolding copy_out_data_skip_def Let_def by simp
  next
    case ge: False
    let ?xs = "ring_slice r p b" and ?ys = "ring_slice r 0 (if t - b < n - b then t - b else n - b)"
    have u: "u64 (buf + b) = buf + b" "0 < buf + b" using ge buf by auto
    have m1: "v4v_memcpy_skip am buf ?xs skip = (memcpy am (buf + skip) (drop skip ?xs), skip - b)"
      using memcpy_skip_piece [of ?xs buf skip am] ge buf by simp
    have "length ?ys + (buf + b) + (skip - b) < 2 ^ 64" using buf ge b(2) by auto
    then have m2: "fst (v4v_memcpy_skip (memcpy am (buf + skip) (drop skip ?xs)) (buf + b) ?ys (skip - b))
        = memcpy am (buf + skip) (drop skip (take t d))"
      using memcpy_drop_append [of am buf skip ?xs ?ys] unfolding tp(2) [OF ge]
      by (simp only: memcpy_skip_piece fst_conv length_ring_slice)
    have m0: "memcpy am (buf + skip) (drop skip ?xs) = memcpy am (buf + skip) (drop skip (take t d))"
      if "t - b = 0"
      using tp(2) [OF ge] that b(2) by (simp add: ring_slice_def)
    show ?thesis
      using ge b m1 m2 m0 buf(1) u unfolding copy_out_data_skip_def Let_def b(1) x' [symmetric]
      by (cases "t - b = 0") (simp_all add: x' del: diff_is_0_eq)
  qed
qed

lemma copy_out_data_skip_eq:
  assumes "16 dvd ur_len r" "p < ur_len r" "16 dvd p" "round16 n < ur_len r" "ur_len r \<le> 16777216"
    and d: "cread (ur_ring r) (ur_len r) p n = d"
    and buf: "0 < buf" "buf + t + skip < 2 ^ 64" "buf + n + skip < 2 ^ 64"
  shows "copy_out_data_skip r am buf t p n skip =
    ((p + round16 n) mod ur_len r, memcpy am (buf + skip) (drop skip (take t d)))"
proof -
  let ?L = "ur_len r"
  have b: "u32_sub ?L p = ?L - p" using assms(2,5) by (simp add: u32_sub_le)
  have n: "n < ?L" using assms(4) round16_ge [of n] by simp
  note D = data_pieces [OF assms(2) n d] and nx = next_rx [OF assms(1-5)]
  show ?thesis
  proof (cases "?L - p < n")
    case False
    then have "ring_slice r p (if t < n then t else n) = take t d"
      using D(2) ring_slice_take [of t n r p] by auto
    then show ?thesis
      using False b nx(2) buf memcpy_skip_piece [of "take t d" buf skip am]
      by (auto simp: copy_out_data_skip_def Let_def)
  next
    case True
    then show ?thesis by (intro copy_out_data_skip_wrap [OF b] D nx buf)
  qed
qed

lemma v4v_copy_out_offset_first:
  assumes h: "uring_holds r (m # ms)" and buf: "skip < buf" "buf + t < 2 ^ 64" "buf + length (m_data m) < 2 ^ 64"
  shows "v4v_copy_out_offset r am buf t consume skip =
    (int (length (m_data m)), Some (m_source m, m_protocol m),
     (if consume then r\<lparr>ur_rx_ptr := (ur_rx_ptr r + msize m) mod ur_len r\<rparr> else r),
     memcpy am buf (drop skip (take t (m_data m))))"
proof -
  note F = first_message [OF h] and S = first_message_steps [OF h]
  have L: "16 dvd ur_len r" using h by (auto simp: uring_holds_def)
  have e: "u64 (buf + 2 ^ 64 - skip) = buf - skip"
  proof -
    have "buf + 2 ^ 64 - skip = (buf - skip) + 2 ^ 64" using buf(1) by simp
    then have "u64 (buf + 2 ^ 64 - skip) = u64 (buf - skip)" by (simp only: u64_def mod_add_self2)
    then show ?thesis using buf by simp
  qed
  have cd: "copy_out_data_skip r am (buf - skip) t ((ur_rx_ptr r + 16) mod ur_len r) (length (m_data m)) skip =
      ((ur_rx_ptr r + msize m) mod ur_len r, memcpy am buf (drop skip (take t (m_data m))))"
    using copy_out_data_skip_eq [OF L F(4,5) S(7) F(8,6), of "buf - skip" t skip am] buf S(6) by simp
  show ?thesis
    using S(1,2) unfolding v4v_copy_out_offset_def
    by (simp add: F(1) S(3) [unfolded Let_def] S(4,5) cd e [simplified] Let_def)
qed

section \<open>Reading a message piece by piece\<close>

text \<open>
  A receiver with small buffers calls \<open>v4v_copy_out_offset\<close> repeatedly without consuming: it has taken
  the first \<open>k\<close> bytes into \<open>buf\<close> and asks for the next \<open>n\<close>.
\<close>

fun read_pieces :: "v4v_uring \<Rightarrow> (nat \<Rightarrow> byte) \<Rightarrow> nat \<Rightarrow> nat \<Rightarrow> nat list \<Rightarrow> v4v_uring \<times> (nat \<Rightarrow> byte)" where
  "read_pieces r am buf k [] = (r, am)"
| "read_pieces r am buf k (n # ns) =
     (case v4v_copy_out_offset r am (buf + k) (k + n) False k of
        (_, _, r', am') \<Rightarrow> read_pieces r' am' buf (k + n) ns)"

lemma read_pieces_eq:
  assumes "uring_holds r (m # ms)" "0 < buf" "k + sum_list ns \<le> length (m_data m)"
    "buf + 2 * length (m_data m) < 2 ^ 64"
  shows "read_pieces r am buf k ns = (r, memcpy am (buf + k) (drop k (take (k + sum_list ns) (m_data m))))"
  using assms(3)
proof (induction ns arbitrary: k am)
  case (Cons n ns)
  let ?d = "m_data m"
  have "drop k (take (k + n + sum_list ns) ?d) = drop k (take (k + n) ?d) @ drop (k + n) (take (k + n + sum_list ns) ?d)"
    using take_add [of "k + n" "sum_list ns" ?d] Cons.prems by (simp add: drop_take)
  moreover have "length (drop k (take (k + n) ?d)) = n" using Cons.prems by simp
  ultimately have "memcpy (memcpy am (buf + k) (drop k (take (k + n) ?d))) (buf + k + n) (drop (k + n) (take (k + n + sum_list ns) ?d)) =
      memcpy am (buf + k) (drop k (take (k + n + sum_list ns) ?d))"
    using memcpy_append [of am "buf + k" "drop k (take (k + n) ?d)" "drop (k + n) (take (k + n + sum_list ns) ?d)"] by simp
  moreover have "v4v_copy_out_offset r am (buf + k) (k + n) False k =
      (int (length ?d), Some (m_source m, m_protocol m), r, memcpy am (buf + k) (drop k (take (k + n) ?d)))"
    using v4v_copy_out_offset_first [OF assms(1), of k "buf + k" "k + n" am False] Cons.prems assms(2,4) by simp
  ultimately show ?case
    using Cons.IH [of "k + n" "memcpy am (buf + k) (drop k (take (k + n) ?d))"] Cons.prems by (simp add: add.assoc)
qed simp

text \<open>
  C20.  The two receive functions agree: reading the first message of a ring in pieces of any sizes
  with \<open>v4v_copy_out_offset\<close> puts into the buffer exactly what one call of \<open>v4v_copy_out\<close> for the whole
  length puts there, and leaves the ring as it was, also where the message wraps around its end.
\<close>

theorem copy_out_in_pieces:
  assumes "uring_holds r (m # ms)" "0 < buf" "sum_list ns = length (m_data m)"
    "buf + 2 * length (m_data m) < 2 ^ 64"
  shows "read_pieces r am buf 0 ns = snd (snd (v4v_copy_out r am buf (length (m_data m)) False))"
  using read_pieces_eq [OF assms(1,2), of 0 ns am] v4v_copy_out_first [OF assms(1), of buf "length (m_data m)" am False] assms
  by simp

definition wrapped_message :: v4v_message where
  "wrapped_message = \<lparr>m_source = \<lparr>a_port = 9, a_domain = 1\<rparr>, m_protocol = 6, m_data = [1, 2, 3]\<rparr>"

text \<open>A ring of 64 bytes whose only message starts at 48, so that its payload is at the beginning.\<close>

definition wrapped_uring :: v4v_uring where
  "wrapped_uring = \<lparr>ur_len = 64, ur_rx_ptr = 48, ur_tx_ptr = 16,
     ur_ring = (\<lambda>i. message_bytes (m_source wrapped_message) (m_protocol wrapped_message) (m_data wrapped_message) ! ((i + 16) mod 64))\<rparr>"

theorem copy_out_in_pieces_witness:
  "map (snd (read_pieces wrapped_uring (\<lambda>_. 0) 100 0 [2, 0, 1])) [99, 100, 101, 102, 103] = [0, 1, 2, 3, 0]"
proof -
  let ?b = "message_bytes (m_source wrapped_message) (m_protocol wrapped_message) (m_data wrapped_message)"
  have l: "length ?b = 19" by (simp add: message_bytes_def wrapped_message_def encode_mh_def)
  have "((48 + i) mod 64 + 16) mod 64 = i" if "i < 19" for i :: nat
    using that by (simp add: mod_add_left_eq)
  then have "cread (ur_ring wrapped_uring) 64 48 19 = ?b"
    by (auto intro!: nth_equalityI simp: cread_def wrapped_uring_def l)
  moreover have "ur_len wrapped_uring = 64" "ur_rx_ptr wrapped_uring = 48" "ur_tx_ptr wrapped_uring = 16"
    "length (m_data wrapped_message) = 3" "msize wrapped_message = 32"
    by (simp_all add: wrapped_uring_def wrapped_message_def msize_def round16_def)
  ultimately have h: "uring_holds wrapped_uring [wrapped_message]"
    by (simp add: uring_holds_def V4V_MAX_RING_SIZE_def)
  have l3: "length (m_data wrapped_message) = 3" by (simp add: wrapped_message_def)
  have "v4v_copy_out wrapped_uring (\<lambda>_. 0) 100 3 False = (3, Some (m_source wrapped_message, m_protocol wrapped_message), wrapped_uring,
      memcpy (\<lambda>_. 0) 100 [1, 2, 3])"
    using v4v_copy_out_first [OF h, of 100 3 "\<lambda>_. 0" False] by (simp add: wrapped_message_def)
  moreover have "read_pieces wrapped_uring (\<lambda>_. 0) 100 0 [2, 0, 1] = snd (snd (v4v_copy_out wrapped_uring (\<lambda>_. 0) 100 3 False))"
    using copy_out_in_pieces [OF h, of 100 "[2, 0, 1]" "\<lambda>_. 0", unfolded l3] by simp
  ultimately show ?thesis by (simp add: memcpy_def del: read_pieces.simps)
qed

end
