(* ===== verification/V4v_Fifo.thy ===== *)
theory V4v_Fifo
  imports V4v_Consumer
begin

text \<open>
  A V4V ring is a reliable first-in first-out channel: the hypervisor's insertion and the
  receiver's \<open>v4v_copy_out\<close>, which share nothing but the pages of the ring, implement a queue of
  messages.  The contract is the locale \<open>message_channel\<close>; it is interpreted on the two real
  operations, and its consequence for every interleaving of sends and receives is proved once.
\<close>

section \<open>The contract of a message channel\<close>

text \<open>An event of a run; a send carries the message it offers.\<close>

datatype ('a, 'm) chan_event = Send 'a 'm | Recv

text \<open>The messages accepted and the messages delivered by a sequence of events.\<close>

fun chan_run ::
  "('a \<Rightarrow> 's \<Rightarrow> bool \<times> 's) \<Rightarrow> ('s \<Rightarrow> 'm option \<times> 's) \<Rightarrow> ('a, 'm) chan_event list \<Rightarrow> 's \<Rightarrow>
     'm list \<times> 'm list \<times> 's" where
  "chan_run send recv [] s = ([], [], s)"
| "chan_run send recv (Send a m # es) s =
     (let (ok, s1) = send a s; (acc, del, s2) = chan_run send recv es s1
      in (if ok then m # acc else acc, del, s2))"
| "chan_run send recv (Recv # es) s =
     (let (mo, s1) = recv s; (acc, del, s2) = chan_run send recv es s1
      in (acc, case mo of Some m \<Rightarrow> m # del | None \<Rightarrow> del, s2))"

text \<open>Every send may fail in any way; one that succeeds offered the message it is labelled with.\<close>

fun chan_ok ::
  "('a \<Rightarrow> 's \<Rightarrow> bool \<times> 's) \<Rightarrow> ('s \<Rightarrow> 'm option \<times> 's) \<Rightarrow> ('a \<Rightarrow> 's \<Rightarrow> 'm \<Rightarrow> bool) \<Rightarrow> ('a \<Rightarrow> 's \<Rightarrow> bool) \<Rightarrow>
     ('a, 'm) chan_event list \<Rightarrow> 's \<Rightarrow> bool" where
  "chan_ok send recv offers allowed [] s = True"
| "chan_ok send recv offers allowed (Send a m # es) s =
     (allowed a s \<and> (fst (send a s) \<longrightarrow> offers a s m) \<and>
      chan_ok send recv offers allowed es (snd (send a s)))"
| "chan_ok send recv offers allowed (Recv # es) s = chan_ok send recv offers allowed es (snd (recv s))"

locale message_channel =
  fixes repr :: "'s \<Rightarrow> 'm list \<Rightarrow> bool"
    and send :: "'a \<Rightarrow> 's \<Rightarrow> bool \<times> 's"
    and recv :: "'s \<Rightarrow> 'm option \<times> 's"
    and offers :: "'a \<Rightarrow> 's \<Rightarrow> 'm \<Rightarrow> bool"
    and allowed :: "'a \<Rightarrow> 's \<Rightarrow> bool"
  assumes send_queues: "repr s q \<Longrightarrow> allowed a s \<Longrightarrow> offers a s m \<Longrightarrow> send a s = (True, s') \<Longrightarrow>
      repr s' (q @ [m])"
    and send_refused: "repr s q \<Longrightarrow> allowed a s \<Longrightarrow> send a s = (False, s') \<Longrightarrow> repr s' q"
    and recv_takes: "repr s (m # q) \<Longrightarrow> recv s = (mo, s') \<Longrightarrow> mo = Some m \<and> repr s' q"
    and recv_empty: "repr s [] \<Longrightarrow> recv s = (mo, s') \<Longrightarrow> mo = None \<and> repr s' []"
begin

lemma run_fifo:
  assumes "chan_ok send recv offers allowed es s" "repr s q" "chan_run send recv es s = (acc, del, s')"
  shows "\<exists>q'. repr s' q' \<and> q @ acc = del @ q'"
  using assms
proof (induction es arbitrary: s q acc del)
  case Nil
  then show ?case by auto
next
  case (Cons e es)
  show ?case
  proof (cases e)
    case (Send a m)
    obtain ok s1 where r: "send a s = (ok, s1)" by force
    obtain acc1 del1 where c: "chan_run send recv es s1 = (acc1, del1, s')"
      using Cons.prems(3) Send r by (auto split: prod.splits)
    have "repr s1 (if ok then q @ [m] else q)"
      using Cons.prems(1,2) Send r send_queues send_refused by auto
    then show ?thesis
      using Cons.IH [of s1 _ acc1 del1] Cons.prems(1,3) Send r c by (fastforce split: if_splits)
  next
    case Recv
    obtain mo s1 where r: "recv s = (mo, s1)" by force
    obtain acc1 del1 where c: "chan_run send recv es s1 = (acc1, del1, s')"
      using Cons.prems(3) Recv r by (auto split: prod.splits)
    have "chan_ok send recv offers allowed es s1" using Cons.prems(1) Recv r by simp
    then show ?thesis
      using Cons.IH [OF _ _ c] Cons.prems(2,3) Recv r c recv_takes recv_empty
      by (cases q) fastforce+
  qed
qed

end

section \<open>A ring as a channel\<close>

type_synonym chan_state = "v4v_ring_info \<times> mem"

record send_args =
  sa_env :: v4v_env
  sa_src :: v4v_ring_id
  sa_proto :: u32w
  sa_buf :: nat
  sa_len :: int
  sa_iovs :: nat
  sa_niov :: nat

definition ring_send :: "send_args \<Rightarrow> chan_state \<Rightarrow> bool \<times> chan_state" where
  "ring_send a s =
     (case v4v_ringbuf_insert (sa_env a) (snd s) (fst s) (sa_src a) (sa_proto a) (sa_buf a) (sa_len a)
             (sa_iovs a) (sa_niov a) of
        (r, n, info', mem') \<Rightarrow> (r = None, info', mem'))"

text \<open>The receiver's view of the ring, and a receive that consumes the message.\<close>

definition ring_view :: "mfn list \<Rightarrow> mem \<Rightarrow> v4v_uring" where
  "ring_view fs mem =
     \<lparr>ur_len = le_val (rbs fs mem 16 4), ur_rx_ptr = le_val (rbs fs mem OFF_RX_PTR 4),
      ur_tx_ptr = le_val (rbs fs mem OFF_TX_PTR 4), ur_ring = (\<lambda>i. rb fs mem (SIZEOF_RING + i))\<rparr>"

definition ring_recv :: "chan_state \<Rightarrow> v4v_message option \<times> chan_state" where
  "ring_recv s =
     (let fs = ri_frames (fst s)
      in case v4v_copy_out (ring_view fs (snd s)) (\<lambda>_. 0) PAGE_SIZE V4V_RING_MAX_SIZE True of
           (ret, None, r, am) \<Rightarrow> (None, s)
         | (ret, Some (from, protocol), r, am) \<Rightarrow>
             (Some \<lparr>m_source = from, m_protocol = protocol,
                    m_data = map (\<lambda>i. am (PAGE_SIZE + i)) [0..<nat ret]\<rparr>,
              (fst s, page_write (snd s) (fs ! 0) OFF_RX_PTR (le_bytes 4 (ur_rx_ptr r)))))"

definition ring_repr :: "chan_state \<Rightarrow> v4v_message list \<Rightarrow> bool" where
  "ring_repr s q \<longleftrightarrow>
     (let fs = ri_frames (fst s); v = ring_view fs (snd s)
      in ri_inv (fst s) \<and> ring_fits (fst s) \<and> distinct fs \<and> 0 < ri_len (fst s) \<and>
         ur_len v = ri_len (fst s) \<and> ur_tx_ptr v = ri_tx_ptr (fst s) \<and> uring_holds v q)"

definition ring_offers :: "send_args \<Rightarrow> chan_state \<Rightarrow> v4v_message \<Rightarrow> bool" where
  "ring_offers a s m \<longleftrightarrow>
     m_source m = id_addr (sa_src a) \<and> m_protocol m = sa_proto a \<and> length (m_data m) < 2 ^ 31 - 16 \<and>
     payload (sa_env a) (snd s) (ri_frames (fst s)) (sa_buf a) (sa_len a) (sa_iovs a) (sa_niov a) (m_data m)"

definition ring_allowed :: "send_args \<Rightarrow> chan_state \<Rightarrow> bool" where
  "ring_allowed a s \<longleftrightarrow>
     - (2 ^ 31) \<le> sa_len a \<and> sa_len a < 2 ^ 31 \<and>
     (\<forall>m \<in> set (ri_frames (fst s)). map_page_ok (sa_env a) m)"

section \<open>Queues and writes\<close>

lemma queued_cong:
  assumes "\<And>i. i < total ms \<Longrightarrow> c' ((rx + i) mod L) = c ((rx + i) mod L)"
  shows "queued c' L rx ms = queued c L rx ms"
  using assms
proof (induction ms arbitrary: rx)
  case Nil
  then show ?case by simp
next
  case (Cons m ms)
  have "cread c' L rx (16 + length (m_data m)) = cread c L rx (16 + length (m_data m))"
    using Cons.prems msize_ge [of m] by (auto simp: cread_def)
  moreover have "queued c' L ((rx + msize m) mod L) ms = queued c L ((rx + msize m) mod L) ms"
  proof (rule Cons.IH)
    fix i
    assume "i < total ms"
    then show "c' (((rx + msize m) mod L + i) mod L) = c (((rx + msize m) mod L + i) mod L)"
      using Cons.prems [of "msize m + i"] by (simp add: mod_add_left_eq add.assoc)
  qed
  ultimately show ?case by simp
qed

lemma queued_snoc:
  assumes "rx < L"
  shows "queued c L rx (ms @ [m]) \<longleftrightarrow> queued c L rx ms \<and>
    cread c L ((rx + total ms) mod L) (16 + length (m_data m)) =
      message_bytes (m_source m) (m_protocol m) (m_data m)"
  using assms by (induction ms arbitrary: rx) (auto simp: mod_add_left_eq add.assoc)

text \<open>Positions in use are far from the transmit pointer, going forward.\<close>

lemma coff_used:
  assumes "rx < L" "i < T" "T < L"
  shows "coff L ((rx + T) mod L) ((rx + i) mod L) = i + L - T"
  using coff_shift [of rx L "(rx + i) mod L" T] coff_add [of rx L i] assms by simp

lemma free_bytes_used:
  assumes "rx < L" "T < L"
  shows "free_bytes L rx ((rx + T) mod L) = L - T"
proof (cases "rx + T < L")
  case True
  then show ?thesis using assms by (auto simp: free_bytes_def mod_if)
next
  case False
  then have m: "(rx + T) mod L = rx + T - L" using assms by (simp add: mod_if)
  have "(L - T + L) mod L = L - T" using False assms by (subst mod_add_self2) simp
  moreover have "rx + L - (rx + T - L) = L - T + L" using False assms by simp
  ultimately show ?thesis unfolding m using False assms by (auto simp: free_bytes_def)
qed

section \<open>The laws\<close>

lemma ring_reprD:
  assumes "ring_repr (info, mem) q"
  defines "v \<equiv> ring_view (ri_frames info) mem"
  shows "ri_inv info" "ring_fits info" "distinct (ri_frames info)" "0 < ri_len info" "ur_len v = ri_len info"
    "ur_tx_ptr v = ri_tx_ptr info" "uring_holds v q" "ri_len info \<le> 16777216"
    "ur_rx_ptr v < ri_len info" "16 dvd ur_rx_ptr v" "total q < ri_len info"
    "ri_tx_ptr info = (ur_rx_ptr v + total q) mod ri_len info" "length (ri_frames info) = ri_nmfns info"
    "64 + ri_len info \<le> length (ri_frames info) * PAGE_SIZE"
  using assms length_ri_frames [of info]
  by (auto simp: ring_repr_def Let_def uring_holds_def V4V_MAX_RING_SIZE_def ring_fits_def
      SIZEOF_RING_def ri_inv_def)

lemma ring_repr_ready:
  assumes "ring_repr (info, mem) q" "\<forall>m\<in>set (ri_frames info). map_page_ok env m"
  shows "ring_ready env info"
  using ring_reprD [OF assms(1)] assms(2) by (auto simp: ring_ready_def ring_mappable_def ri_inv_def)

lemma seen_free_repr:
  assumes r: "ring_repr (info, mem) q" and ok: "\<forall>m\<in>set (ri_frames info). map_page_ok env m"
  shows "seen_free env mem info = ri_len info - total q"
proof -
  let ?rx = "ur_rx_ptr (ring_view (ri_frames info) mem)"
  note R = ring_reprD [OF r]
  have rx: "rx_field (ri_frames info) mem = ?rx"
    by (simp add: rx_field_def ring_view_def)
  have "V4V_ROUNDUP ?rx = ?rx"
    using R(8-10) by (simp add: V4V_ROUNDUP_eq round16_id)
  then have "seen_rx env mem info = ?rx"
    using seen_rx_eq [OF ring_repr_ready [OF r ok] R(4)] rx R(9) by simp
  then show ?thesis
    using free_bytes_used [OF R(9,11)] R(12) by (simp add: seen_free_def)
qed

text \<open>What the receiver sees of a published message.\<close>

lemma rbs_cong:
  assumes "\<And>i. i < n \<Longrightarrow> rb fs mem' (off + i) = rb fs mem (off + i)"
  shows "rbs fs mem' off n = rbs fs mem off n"
  using assms by (auto simp: rbs_def)

lemma view_published:
  assumes p: "published fs L mem mem' t bs t'" and fits: "64 + L \<le> length fs * PAGE_SIZE"
    and t': "t' < 2 ^ 32"
  shows "ur_len (ring_view fs mem') = ur_len (ring_view fs mem)"
    "ur_rx_ptr (ring_view fs mem') = ur_rx_ptr (ring_view fs mem)"
    "ur_tx_ptr (ring_view fs mem') = t'"
    "j < L \<Longrightarrow> ur_ring (ring_view fs mem') j =
       (if coff L t j < length bs then bs ! coff L t j else ur_ring (ring_view fs mem) j)"
proof -
  have rb: "rb fs mem' i = (if 24 \<le> i \<and> i < 28 then le_bytes 4 t' ! (i - 24)
      else if 64 \<le> i \<and> i < 64 + L \<and> coff L t (i - 64) < length bs
      then bs ! coff L t (i - 64) else rb fs mem i)" if "i < 64 + L" for i
    using p that fits by (simp add: published_def OFF_TX_PTR_def SIZEOF_RING_def)
  have "rbs fs mem' 16 4 = rbs fs mem 16 4" "rbs fs mem' 20 4 = rbs fs mem 20 4"
    using rb by (auto intro!: rbs_cong)
  moreover have "rbs fs mem' 24 4 = le_bytes 4 t'"
    using rb by (auto intro!: nth_equalityI)
  ultimately show "ur_len (ring_view fs mem') = ur_len (ring_view fs mem)"
    "ur_rx_ptr (ring_view fs mem') = ur_rx_ptr (ring_view fs mem)"
    "ur_tx_ptr (ring_view fs mem') = t'"
    using t' by (simp_all add: ring_view_def OFF_RX_PTR_def OFF_TX_PTR_def)
  show "j < L \<Longrightarrow> ur_ring (ring_view fs mem') j =
       (if coff L t j < length bs then bs ! coff L t j else ur_ring (ring_view fs mem) j)"
    using rb [of "64 + j"] by (simp add: ring_view_def SIZEOF_RING_def)
qed

lemma uring_holds_published:
  assumes h: "uring_holds v q" and m: "msize m < ur_len v - total q"
    and v': "ur_len v' = ur_len v" "ur_rx_ptr v' = ur_rx_ptr v"
      "ur_tx_ptr v' = (ur_tx_ptr v + msize m) mod ur_len v"
    and c: "\<And>j. j < ur_len v \<Longrightarrow> ur_ring v' j =
      (let bs = message_bytes (m_source m) (m_protocol m) (m_data m)
       in if coff (ur_len v) (ur_tx_ptr v) j < length bs then bs ! coff (ur_len v) (ur_tx_ptr v) j
          else ur_ring v j)"
  shows "uring_holds v' (q @ [m])"
proof -
  let ?L = "ur_len v" and ?rx = "ur_rx_ptr v" and ?T = "total q" and ?tx = "ur_tx_ptr v"
  let ?bs = "message_bytes (m_source m) (m_protocol m) (m_data m)"
  have H: "?rx < ?L" "?T < ?L" "?tx = (?rx + ?T) mod ?L" "queued (ur_ring v) ?L ?rx q" "?tx < ?L"
    using h by (auto simp: uring_holds_def)
  have lb: "length ?bs = 16 + length (m_data m)" by (simp add: message_bytes_def)
  have "queued (ur_ring v') ?L ?rx q = queued (ur_ring v) ?L ?rx q"
  proof (rule queued_cong)
    fix i
    assume i: "i < ?T"
    have "\<not> i + ?L - ?T < length ?bs" using lb msize_ge [of m] m i H(2) by linarith
    then show "ur_ring v' ((?rx + i) mod ?L) = ur_ring v ((?rx + i) mod ?L)"
      using c [of "(?rx + i) mod ?L"] coff_used [OF H(1) i H(2)] H by (simp add: Let_def)
  qed
  moreover have "cread (ur_ring v') ?L ?tx (16 + length (m_data m)) = ?bs"
  proof (rule nth_equalityI)
    fix i
    assume i: "i < length (cread (ur_ring v') ?L ?tx (16 + length (m_data m)))"
    then have "coff ?L ?tx ((?tx + i) mod ?L) = i"
      using coff_add [OF H(5), of i] msize_ge [of m] m by simp
    then show "cread (ur_ring v') ?L ?tx (16 + length (m_data m)) ! i = ?bs ! i"
      using c [of "(?tx + i) mod ?L"] i lb H(5) by (simp add: cread_def Let_def)
  qed (simp add: lb)
  ultimately have "queued (ur_ring v') ?L ?rx (q @ [m])"
    using queued_snoc [OF H(1), of "ur_ring v'" q m] H(3,4) by simp
  then show ?thesis
    using h m v' H(3) by (simp add: uring_holds_def mod_add_left_eq add.assoc)
qed

lemma touches_rb:
  assumes t: "touches fs mem mem' I" and d: "distinct fs" and i: "i < length fs * PAGE_SIZE" "i \<notin> I"
  shows "rb fs mem' i = rb fs mem i"
proof (rule ccontr)
  assume "rb fs mem' i \<noteq> rb fs mem i"
  then obtain k where k: "k \<in> I" "k div PAGE_SIZE < length fs"
    "fs ! (i div PAGE_SIZE) = fs ! (k div PAGE_SIZE)" "i mod PAGE_SIZE = k mod PAGE_SIZE"
    using t by (auto simp: touches_def rb_def)
  have "i div PAGE_SIZE < length fs" using i(1) by (simp add: less_mult_imp_div_less)
  then have "i div PAGE_SIZE = k div PAGE_SIZE" using d k(2,3) by (simp add: nth_eq_iff_index_eq)
  then have "i = k" using k(4) by (metis div_mult_mod_eq)
  with k(1) i(2) show False by simp
qed

lemma view_untouched:
  assumes t: "touches fs mem mem' (msg_area I)" and d: "distinct fs" and f: "64 + L \<le> length fs * PAGE_SIZE"
  shows "ur_len (ring_view fs mem') = ur_len (ring_view fs mem)"
    "ur_rx_ptr (ring_view fs mem') = ur_rx_ptr (ring_view fs mem)"
    "ur_tx_ptr (ring_view fs mem') = ur_tx_ptr (ring_view fs mem)"
    "j < L \<Longrightarrow> j \<notin> I \<Longrightarrow> ur_ring (ring_view fs mem') j = ur_ring (ring_view fs mem) j"
proof -
  have "rb fs mem' i = rb fs mem i" if "i < 64" for i
    using that f by (intro touches_rb [OF t d]) (auto simp: SIZEOF_RING_def)
  then have "rbs fs mem' 16 4 = rbs fs mem 16 4" "rbs fs mem' 20 4 = rbs fs mem 20 4"
    "rbs fs mem' 24 4 = rbs fs mem 24 4"
    by (auto intro!: rbs_cong)
  then show "ur_len (ring_view fs mem') = ur_len (ring_view fs mem)"
    "ur_rx_ptr (ring_view fs mem') = ur_rx_ptr (ring_view fs mem)"
    "ur_tx_ptr (ring_view fs mem') = ur_tx_ptr (ring_view fs mem)"
    by (simp_all add: ring_view_def OFF_RX_PTR_def OFF_TX_PTR_def)
  show "j < L \<Longrightarrow> j \<notin> I \<Longrightarrow> ur_ring (ring_view fs mem') j = ur_ring (ring_view fs mem) j"
    using touches_rb [OF t d, of "64 + j"] f by (simp add: ring_view_def SIZEOF_RING_def image_iff)
qed

lemma ring_repr_same:
  assumes "ri_same info info'" "ri_wf info'"
  shows "ring_repr (info, mem) q \<Longrightarrow> ring_repr (info', mem) q"
  using ri_inv_same [OF _ assms]
  by (auto simp: ring_repr_def Let_def ring_fits_def ri_same_fields [OF assms(1)])

lemma ring_repr_untouched:
  assumes r: "ring_repr (info, mem) q"
    and t: "touches (ri_frames info) mem mem'
      (msg_area (circ (ri_len info) (ri_tx_ptr info) (ri_len info - total q)))"
  shows "ring_repr (info, mem') q"
proof -
  let ?fs = "ri_frames info" and ?L = "ri_len info" and ?v = "ring_view (ri_frames info) mem"
  let ?v' = "ring_view (ri_frames info) mem'"
  note R = ring_reprD [OF r] and V = view_untouched [OF t ring_reprD(3,14) [OF r]]
  have "queued (ur_ring ?v') ?L (ur_rx_ptr ?v) q = queued (ur_ring ?v) ?L (ur_rx_ptr ?v) q"
  proof (rule queued_cong)
    fix i
    assume i: "i < total q"
    have "(ur_rx_ptr ?v + i) mod ?L \<notin> circ ?L (ri_tx_ptr info) (?L - total q)"
      using circ_iff [of "ri_tx_ptr info" ?L "(ur_rx_ptr ?v + i) mod ?L" "?L - total q"]
        coff_used [OF R(9) i R(11)] R(4,12) by simp
    then show "ur_ring ?v' ((ur_rx_ptr ?v + i) mod ?L) = ur_ring ?v ((ur_rx_ptr ?v + i) mod ?L)"
      using R(4) by (intro V(4)) auto
  qed
  then have "uring_holds ?v' q" using R(5,7) V(1-3) by (simp add: uring_holds_def)
  then show ?thesis using r V(1-3) by (simp add: ring_repr_def Let_def)
qed

lemma ring_send_refused:
  assumes r: "ring_repr s q" and a: "ring_allowed a s" and f: "ring_send a s = (False, s')"
  shows "ring_repr s' q"
proof -
  obtain info mem where s: "s = (info, mem)" by force
  obtain e n info' mem' where ins: "v4v_ringbuf_insert (sa_env a) mem info (sa_src a) (sa_proto a)
      (sa_buf a) (sa_len a) (sa_iovs a) (sa_niov a) = (e, n, info', mem')" by (metis prod_cases4)
  have e: "e \<noteq> None" "s' = (info', mem')" using f s ins by (auto simp: ring_send_def)
  note r = r [unfolded s]
  note R = ring_reprD [OF r]
  have ok: "\<forall>m\<in>set (ri_frames info). map_page_ok (sa_env a) m" and
    len: "- (2 ^ 31) \<le> sa_len a" "sa_len a < 2 ^ 31"
    using a s by (auto simp: ring_allowed_def)
  from ins len show ?thesis
  proof (cases rule: insert_cases)
    case 1
    then show ?thesis using e r by simp
  next
    case 2
    have "0 < ri_nmfns info" using R(13,14) by (cases "ri_nmfns info") auto
    then have "ring_step (write_area info (seen_free (sa_env a) mem info)) info mem info' mem'"
      "ri_same info info'" "touches (ri_frames info) mem mem'
        (msg_area (circ (ri_len info) (ri_tx_ptr info) (ri_len info - total q)))"
      using insert_body_touch [OF R(1) 2(1,4,5,6,2,3)] e(1) ok seen_free_repr [OF r ok] by auto
    moreover from this have "ri_wf info'" using ring_step_fields(5) by (auto simp: ri_inv_def)
    ultimately show ?thesis
      using e(2) ring_repr_same ring_repr_untouched [OF r] by blast
  qed
qed

lemma insert_offered:
  assumes "v4v_ringbuf_insert env mem info src_id proto buf len iovs niov = (None, n, info', mem')"
    "payload env mem fs buf len iovs niov bs" "length bs < 2 ^ 31 - 16"
  shows "insert_body env mem info (id_addr src_id) proto buf (int (length bs)) iovs niov = (None, info', mem')"
    and "round16 (length bs) + 16 < ri_len info"
proof -
  have "(if niov = 0 then Inr len else map_sum id int (v4v_iov_count env mem iovs niov)) = Inl EINVAL \<or>
      (if niov = 0 then Inr len else map_sum id int (v4v_iov_count env mem iovs niov)) = Inr (int (length bs))"
    using assms(2) iov_count_loop_ok [of env mem fs iovs _ 0]
    by (auto simp: payload_def v4v_iov_count_def)
  then show "insert_body env mem info (id_addr src_id) proto buf (int (length bs)) iovs niov = (None, info', mem')"
    "round16 (length bs) + 16 < ri_len info"
    using assms(1) msg_space_pos [of "int (length bs)"] assms(3)
    by (auto simp: v4v_ringbuf_insert_def split: if_splits prod.splits)
qed

lemma ring_send_queues:
  assumes r: "ring_repr s q" and a: "ring_allowed a s" and o: "ring_offers a s m"
    and f: "ring_send a s = (True, s')"
  shows "ring_repr s' (q @ [m])"
proof -
  obtain info mem where s: "s = (info, mem)" by force
  obtain n info' mem' where ins: "v4v_ringbuf_insert (sa_env a) mem info (sa_src a) (sa_proto a)
      (sa_buf a) (sa_len a) (sa_iovs a) (sa_niov a) = (None, n, info', mem')" and s': "s' = (info', mem')"
    using f s by (auto simp: ring_send_def split: prod.splits)
  note r = r [unfolded s]
  note R = ring_reprD [OF r]
  let ?fs = "ri_frames info" and ?L = "ri_len info" and ?bs = "m_data m"
  let ?tx' = "(ri_tx_ptr info + msize m) mod ri_len info"
  have ok: "\<forall>m\<in>set ?fs. map_page_ok (sa_env a) m" using a s by (auto simp: ring_allowed_def)
  have m: "m_source m = id_addr (sa_src a)" "m_protocol m = sa_proto a" "length ?bs < 2 ^ 31 - 16"
    "payload (sa_env a) mem ?fs (sa_buf a) (sa_len a) (sa_iovs a) (sa_niov a) ?bs"
    using o s by (auto simp: ring_offers_def)
  note I = insert_offered [OF ins m(4,3)]
  have p: "?L - total q > msize m" "ri_wf info'" "ri_same (info\<lparr>ri_tx_ptr := ?tx'\<rparr>) info'"
    "published ?fs ?L mem mem' (ri_tx_ptr info) (message_bytes (m_source m) (m_protocol m) ?bs) ?tx'"
    using insert_body_ok [OF ring_repr_ready [OF r ok] R(4) m(4) I(2), of "id_addr (sa_src a)" "sa_proto a"]
      I(1) seen_free_repr [OF r ok] m(1,2)
    by (auto simp: msize_def add.commute split: if_splits)
  have t: "?tx' < ?L" using R(4) by simp
  have "?tx' < 4294967296" using t R(8) by linarith
  note V = view_published [OF p(4) R(14), simplified, OF this]
  have "uring_holds (ring_view ?fs mem') (q @ [m])"
    using R(5,6) p(1) V by (intro uring_holds_published [OF R(7)]) (simp_all add: Let_def)
  moreover have inv': "ri_inv info'"
  proof (rule ri_inv_same [OF _ p(3,2)])
    show "ri_inv (info\<lparr>ri_tx_ptr := ?tx'\<rparr>)"
      using t R(1,4) by (intro ri_inv_set_tx) (auto simp: ri_inv_def dvd_mod)
  qed
  ultimately show ?thesis
    using R V(1,3) inv' ri_same_fields [OF p(3)]
    by (simp add: s' ring_repr_def Let_def ring_fits_def)
qed

lemma view_set_rx:
  fixes mem :: mem
  assumes "distinct fs" "64 + L \<le> length fs * PAGE_SIZE" "x < 2 ^ 32"
  defines "mem' \<equiv> page_write mem (fs ! 0) OFF_RX_PTR (le_bytes 4 x)"
  shows "ur_len (ring_view fs mem') = ur_len (ring_view fs mem)"
    "ur_rx_ptr (ring_view fs mem') = x"
    "ur_tx_ptr (ring_view fs mem') = ur_tx_ptr (ring_view fs mem)"
    "j < L \<Longrightarrow> ur_ring (ring_view fs mem') j = ur_ring (ring_view fs mem) j"
proof -
  have "0 < length fs" using assms(2) by (cases fs) auto
  then have u: "ring_upd fs mem mem' 20 (le_bytes 4 x)"
    using ring_upd_page_write [OF assms(1), of 0 20 "le_bytes 4 x" mem]
    by (simp add: mem'_def PAGE_SIZE_def OFF_RX_PTR_def)
  have "rbs fs mem' 16 4 = rbs fs mem 16 4" "rbs fs mem' 24 4 = rbs fs mem 24 4"
    using assms(2) by (auto intro!: rbs_cong ring_upd_rb [OF u])
  moreover have "rbs fs mem' 20 4 = le_bytes 4 x"
    using ring_upd_rbs [OF u] assms(2) by simp
  ultimately show "ur_len (ring_view fs mem') = ur_len (ring_view fs mem)"
    "ur_rx_ptr (ring_view fs mem') = x"
    "ur_tx_ptr (ring_view fs mem') = ur_tx_ptr (ring_view fs mem)"
    using assms(3) by (simp_all add: ring_view_def OFF_RX_PTR_def OFF_TX_PTR_def)
  show "j < L \<Longrightarrow> ur_ring (ring_view fs mem') j = ur_ring (ring_view fs mem) j"
    using assms(2) ring_upd_rb [OF u, of "64 + j"] by (simp add: ring_view_def SIZEOF_RING_def)
qed

lemma uring_holds_cong:
  assumes "uring_holds v q" "ur_len v' = ur_len v" "ur_rx_ptr v' = ur_rx_ptr v" "ur_tx_ptr v' = ur_tx_ptr v"
    "\<And>j. j < ur_len v \<Longrightarrow> ur_ring v' j = ur_ring v j"
  shows "uring_holds v' q"
  using assms queued_cong [of q "ur_ring v'" "ur_rx_ptr v" "ur_len v" "ur_ring v"]
  by (simp add: uring_holds_def)

lemma ring_recv_takes:
  assumes r: "ring_repr s (m # q)" and f: "ring_recv s = (mo, s')"
  shows "mo = Some m \<and> ring_repr s' q"
proof -
  obtain info mem where s: "s = (info, mem)" by force
  note r = r [unfolded s]
  note R = ring_reprD [OF r]
  let ?fs = "ri_frames info" and ?L = "ri_len info" let ?v = "ring_view ?fs mem"
  let ?x = "(ur_rx_ptr ?v + msize m) mod ?L"
  let ?mem' = "page_write mem (?fs ! 0) OFF_RX_PTR (le_bytes 4 ?x)"
  have n: "length (m_data m) \<le> 16777216" using R(8,11) msize_ge [of m] by simp
  have co: "v4v_copy_out ?v (\<lambda>_. 0) PAGE_SIZE V4V_RING_MAX_SIZE True =
    (int (length (m_data m)), Some (m_source m, m_protocol m), ?v\<lparr>ur_rx_ptr := ?x\<rparr>,
     memcpy (\<lambda>_. 0) PAGE_SIZE (m_data m))"
    using v4v_copy_out_first [OF R(7), of PAGE_SIZE V4V_RING_MAX_SIZE "\<lambda>_. 0" True] R(5) n
    by (simp add: v4v_consts)
  have "map (\<lambda>i. memcpy (\<lambda>_. 0) PAGE_SIZE (m_data m) (PAGE_SIZE + i)) [0..<length (m_data m)] = m_data m"
    by (rule nth_equalityI) (auto simp: memcpy_def)
  then have res: "mo = Some m" "s' = (info, ?mem')" using f co s by (auto simp: ring_recv_def Let_def)
  have "?x < ?L" using R(4) by simp
  then have "?x < 4294967296" using R(8) by linarith
  then have x32: "?x < 2 ^ 32" by simp
  note V = view_set_rx [where mem = mem and x = ?x, OF R(3,14)]
  have "uring_holds (?v\<lparr>ur_rx_ptr := ?x\<rparr>) q" using uring_holds_tl [OF R(7)] R(5) by simp
  then have "uring_holds (ring_view ?fs ?mem') q"
    by (rule uring_holds_cong) (use V [OF x32] R(5) in simp_all)
  then show ?thesis using res R V [OF x32] by (simp add: ring_repr_def Let_def)
qed

lemma ring_recv_empty:
  assumes r: "ring_repr s []" and f: "ring_recv s = (mo, s')"
  shows "mo = None \<and> ring_repr s' []"
proof -
  have "uring_holds (ring_view (ri_frames (fst s)) (snd s)) []"
    using r by (simp add: ring_repr_def Let_def)
  from v4v_copy_out_empty [OF this] show ?thesis
    using f r by (simp add: ring_recv_def Let_def)
qed

interpretation rc: message_channel ring_repr ring_send ring_recv ring_offers ring_allowed
  using ring_send_queues ring_send_refused ring_recv_takes ring_recv_empty
  by unfold_locales blast+

text \<open>
  C3.  End to end, a ring is a reliable FIFO channel: over any interleaving of sends (accepted,
  refused for lack of room, or failing half-way on a faulting buffer or a bad vector) and
  receives, the messages the receiver has taken out followed by those still in the ring are
  exactly the messages that were there at the start followed by those accepted since, in order,
  with their source address, protocol and payload intact.
\<close>

theorem ring_fifo:
  assumes "ring_repr s q" "chan_ok ring_send ring_recv ring_offers ring_allowed es s"
    and "chan_run ring_send ring_recv es s = (accepted, delivered, s')"
  shows "\<exists>q'. ring_repr s' q' \<and> q @ accepted = delivered @ q'"
  using rc.run_fifo [OF assms(2,1,3)] .

text \<open>The sample ring: an empty receive, a send and a receive.\<close>

definition sample_send :: send_args where
  "sample_send = \<lparr>sa_env = sample_env, sa_src = ri_id sample_info, sa_proto = 6, sa_buf = 0, sa_len = 3,
     sa_iovs = 0, sa_niov = 0\<rparr>"

definition sample_message :: v4v_message where
  "sample_message = \<lparr>m_source = id_addr (ri_id sample_info), m_protocol = 6, m_data = sample_data\<rparr>"

definition sample_run :: "v4v_message list \<times> v4v_message list \<times> chan_state" where
  "sample_run = chan_run ring_send ring_recv [Recv, Send sample_send sample_message, Recv] (sample_info, sample_mem)"

lemma sample_repr: "ring_repr (sample_info, sample_mem) []"
  using sample_inv
  by (simp add: ring_repr_def Let_def ring_fits_def uring_holds_def ring_view_def rbs_def rb_def
      ri_frames_def sample_info_def sample_mem_def v4v_consts upt_rec)

lemma sample_ok:
  "chan_ok ring_send ring_recv ring_offers ring_allowed
    [Recv, Send sample_send sample_message, Recv] (sample_info, sample_mem)"
proof -
  have r: "ring_recv (sample_info, sample_mem) = (None, sample_info, sample_mem)"
    using v4v_copy_out_empty [of "ring_view (ri_frames sample_info) sample_mem"] sample_repr
    by (auto simp: ring_recv_def ring_repr_def Let_def)
  then show ?thesis
    using sample_payload
    by (simp add: ring_allowed_def ring_offers_def sample_send_def sample_message_def sample_data_def
        sample_env_def)
qed

theorem ring_fifo_witness:
  "\<exists>q'. ring_repr (snd (snd sample_run)) q' \<and> fst sample_run = fst (snd sample_run) @ q'"
  using ring_fifo [OF sample_repr sample_ok, of "fst sample_run" "fst (snd sample_run)" "snd (snd sample_run)"]
  by (simp add: sample_run_def)

end
