(* ===== verification/V4v_Pending.thy ===== *)
theory V4v_Pending
  imports V4v_Ring_Insert
begin

text \<open>
  The section "pending" of \<open>xen/common/v4v.c\<close>: senders that were refused for lack of room are
  queued on the ring, with the room they need, and are notified once the receiver has made it.
  The lemmas show that a domain is queued at most once per ring, that its entry asks for the
  largest message it was refused, and how \<open>v4v_ringbuf_payload_space\<close>, which decides when to
  notify, relates to what an insertion accepts.
\<close>

section \<open>Operations\<close>

definition v4v_pending_remove_all :: "v4v_ring_info \<Rightarrow> v4v_ring_info" where
  "v4v_pending_remove_all info = info\<lparr>ri_pending := []\<rparr>"

text \<open>Entries that fit are unlinked and pushed on the list of those to notify.\<close>

fun pending_find_loop ::
  "v4v_pending_ent list \<Rightarrow> nat \<Rightarrow> v4v_pending_ent list \<Rightarrow> v4v_pending_ent list \<times> v4v_pending_ent list" where
  "pending_find_loop [] payload_space to_notify = ([], to_notify)"
| "pending_find_loop (ent # es) payload_space to_notify =
     (if pe_len ent \<le> payload_space then pending_find_loop es payload_space (ent # to_notify)
      else let (rest, tn) = pending_find_loop es payload_space to_notify in (ent # rest, tn))"

definition v4v_pending_find ::
  "v4v_ring_info \<Rightarrow> nat \<Rightarrow> v4v_pending_ent list \<Rightarrow> v4v_ring_info \<times> v4v_pending_ent list" where
  "v4v_pending_find info payload_space to_notify =
     (let (rest, tn) = pending_find_loop (ri_pending info) payload_space to_notify
      in (info\<lparr>ri_pending := rest\<rparr>, tn))"

text \<open>\<open>ok\<close> tells whether \<open>xmalloc\<close> finds memory; the length is stored in 32 bits.\<close>

definition v4v_pending_queue :: "bool \<Rightarrow> v4v_ring_info \<Rightarrow> domid \<Rightarrow> int \<Rightarrow> errno option \<times> v4v_ring_info" where
  "v4v_pending_queue ok info src_id len =
     (if \<not> ok then (Some ENOMEM, info)
      else (None, info\<lparr>ri_pending := \<lparr>pe_id = src_id, pe_len = u32_of_int len\<rparr> # ri_pending info\<rparr>))"

text \<open>The scan stops at the first entry of the domain and raises its length if needed.\<close>

fun pending_raise :: "v4v_pending_ent list \<Rightarrow> domid \<Rightarrow> int \<Rightarrow> v4v_pending_ent list option" where
  "pending_raise [] src_id len = None"
| "pending_raise (ent # es) src_id len =
     (if pe_id ent = src_id
      then Some ((if pe_len ent < u32_of_int len then ent\<lparr>pe_len := u32_of_int len\<rparr> else ent) # es)
      else map_option ((#) ent) (pending_raise es src_id len))"

definition v4v_pending_requeue :: "bool \<Rightarrow> v4v_ring_info \<Rightarrow> domid \<Rightarrow> int \<Rightarrow> errno option \<times> v4v_ring_info" where
  "v4v_pending_requeue ok info src_id len =
     (case pending_raise (ri_pending info) src_id len of
        Some es \<Rightarrow> (None, info\<lparr>ri_pending := es\<rparr>)
      | None \<Rightarrow> v4v_pending_queue ok info src_id len)"

definition v4v_pending_cancel :: "v4v_ring_info \<Rightarrow> domid \<Rightarrow> v4v_ring_info" where
  "v4v_pending_cancel info src_id =
     info\<lparr>ri_pending := filter (\<lambda>ent. pe_id ent \<noteq> src_id) (ri_pending info)\<rparr>"

section \<open>What the operations do\<close>

text \<open>The room a domain waits for.\<close>

definition wanted :: "v4v_pending_ent list \<Rightarrow> domid \<Rightarrow> nat option" where
  "wanted es d = map_option pe_len (find (\<lambda>e. pe_id e = d) es)"

definition pending_ok :: "v4v_pending_ent list \<Rightarrow> bool" where
  "pending_ok es \<longleftrightarrow> distinct (map pe_id es)"

lemma pending_find_loop_eq:
  "pending_find_loop es sp tn =
     (filter (\<lambda>e. sp < pe_len e) es, rev (filter (\<lambda>e. pe_len e \<le> sp) es) @ tn)"
  by (induction es arbitrary: tn) auto

lemma pending_find_eq:
  "v4v_pending_find info sp tn =
     (info\<lparr>ri_pending := filter (\<lambda>e. sp < pe_len e) (ri_pending info)\<rparr>,
      rev (filter (\<lambda>e. pe_len e \<le> sp) (ri_pending info)) @ tn)"
  by (simp add: v4v_pending_find_def pending_find_loop_eq)

lemma pending_raise_None: "pending_raise es d n = None \<longleftrightarrow> wanted es d = None"
  by (induction es) (auto simp: wanted_def)

lemma pending_raise_ids: "pending_raise es d n = Some es' \<Longrightarrow> map pe_id es' = map pe_id es"
  by (induction es arbitrary: es') (auto split: if_splits)

lemma wanted_Cons: "wanted (e # es) = (wanted es)(pe_id e \<mapsto> pe_len e)"
  by (auto simp: wanted_def)

lemma pending_raise_wanted:
  "pending_raise es d n = Some es' \<Longrightarrow>
     wanted es' = (wanted es)(d \<mapsto> max (the (wanted es d)) (u32_of_int n))"
proof (induction es arbitrary: es')
  case (Cons e es)
  show ?case
  proof (cases "pe_id e = d")
    case True
    then have "es' = (if pe_len e < u32_of_int n then e\<lparr>pe_len := u32_of_int n\<rparr> else e) # es" using Cons.prems by simp
    then show ?thesis using True by (auto simp: wanted_Cons max_def fun_eq_iff)
  next
    case False
    then obtain es1 where "pending_raise es d n = Some es1" "es' = e # es1" using Cons.prems by auto
    then show ?thesis using Cons.IH [of es1] False by (auto simp: wanted_Cons fun_eq_iff)
  qed
qed simp

lemma wanted_notin: "d \<notin> pe_id ` set es \<Longrightarrow> wanted es d = None"
  by (induction es) (auto simp: wanted_def)

lemma wanted_filter:
  "pending_ok es \<Longrightarrow> wanted (filter P es) d =
     (case find (\<lambda>e. pe_id e = d) es of None \<Rightarrow> None | Some e \<Rightarrow> if P e then Some (pe_len e) else None)"
proof (induction es)
  case (Cons e es)
  then have "wanted (filter P es) (pe_id e) = None"
    by (intro wanted_notin) (auto simp: pending_ok_def)
  with Cons show ?case by (auto simp: wanted_Cons pending_ok_def)
qed (simp add: wanted_def)

lemma pending_ok_filter: "pending_ok es \<Longrightarrow> pending_ok (filter P es)"
  by (simp add: pending_ok_def distinct_map_filter)

text \<open>Everything but the pending list is untouched.\<close>

definition pend_same :: "v4v_ring_info \<Rightarrow> v4v_ring_info \<Rightarrow> bool" where
  "pend_same info info' \<longleftrightarrow> info' = info\<lparr>ri_pending := ri_pending info'\<rparr>"

lemma requeue_cases:
  assumes "v4v_pending_requeue ok info d n = (r, info')"
  shows "pend_same info info'" "pending_ok (ri_pending info) \<Longrightarrow> pending_ok (ri_pending info')"
    "r = None \<Longrightarrow> wanted (ri_pending info') =
       (wanted (ri_pending info))(d \<mapsto> max (case wanted (ri_pending info) d of None \<Rightarrow> 0 | Some k \<Rightarrow> k)
          (u32_of_int n))"
    "r \<noteq> None \<Longrightarrow> r = Some ENOMEM \<and> info' = info \<and> \<not> ok \<and> wanted (ri_pending info) d = None"
proof -
  consider (raise) es where "pending_raise (ri_pending info) d n = Some es" "r = None"
      "info' = info\<lparr>ri_pending := es\<rparr>"
    | (queue) "pending_raise (ri_pending info) d n = None" "v4v_pending_queue ok info d n = (r, info')"
    using assms by (auto simp: v4v_pending_requeue_def split: option.splits)
  note C = this
  show "pend_same info info'"
    by (rule C) (auto simp: pend_same_def v4v_pending_queue_def split: if_splits)
  show "pending_ok (ri_pending info')" if "pending_ok (ri_pending info)"
  proof (cases rule: C)
    case raise
    then show ?thesis using that pending_raise_ids by (simp add: pending_ok_def)
  next
    case queue
    then have "d \<notin> pe_id ` set (ri_pending info)"
      by (auto simp: pending_raise_None wanted_def find_None_iff)
    with that queue show ?thesis by (auto simp: pending_ok_def v4v_pending_queue_def split: if_splits)
  qed
  show "wanted (ri_pending info') =
       (wanted (ri_pending info))(d \<mapsto> max (case wanted (ri_pending info) d of None \<Rightarrow> 0 | Some k \<Rightarrow> k)
          (u32_of_int n))" if "r = None"
  proof (cases rule: C)
    case raise
    then have "wanted (ri_pending info) d \<noteq> None" using pending_raise_None [of "ri_pending info" d n] by simp
    with raise pending_raise_wanted [OF raise(1)] show ?thesis by auto
  next
    case queue
    then show ?thesis
      using that by (auto simp: v4v_pending_queue_def pending_raise_None wanted_Cons split: if_splits)
  qed
  show "r = Some ENOMEM \<and> info' = info \<and> \<not> ok \<and> wanted (ri_pending info) d = None" if "r \<noteq> None"
    by (rule C) (use that in \<open>auto simp: v4v_pending_queue_def pending_raise_None split: if_splits\<close>)
qed

section \<open>The room that is announced\<close>

text \<open>A receiver that follows the protocol keeps its pointer aligned and inside the ring.\<close>

definition rx_sane :: "mem \<Rightarrow> v4v_ring_info \<Rightarrow> bool" where
  "rx_sane mem info \<longleftrightarrow>
     rx_field (ri_frames info) mem < ri_len info \<and> 16 dvd rx_field (ri_frames info) mem"

lemma get_rx_ptr_ok:
  assumes rdy: "ring_ready env info" and L0: "0 < ri_len info" and n: "ri_nmfns info = ri_npage info"
  obtains info' where "v4v_ringbuf_get_rx_ptr env mem info = (Inr (rx_field (ri_frames info) mem), info')"
    "ri_same info info'" "ri_wf info'"
proof -
  note R = ring_readyD [OF rdy L0]
  have p: "0 < ri_nmfns info" using R(9) by (cases "ri_nmfns info") auto
  obtain info' where mp: "v4v_ring_map_page env info 0 = (Inr (ri_frames info ! 0), info')"
    "ri_same info info'" "ri_wf info'"
    using map_page_ok [OF R(1) p] R(3) by (auto simp: ring_mappable_def)
  have "page_read mem (ri_frames info ! 0) OFF_RX_PTR 4 = rbs (ri_frames info) mem OFF_RX_PTR 4"
    by (auto simp: page_read_def rbs_def rb_def OFF_RX_PTR_def PAGE_SIZE_def)
  then have "v4v_ringbuf_get_rx_ptr env mem info = (Inr (rx_field (ri_frames info) mem), info')"
    using mp n p by (simp add: v4v_ringbuf_get_rx_ptr_def rx_field_def)
  then show thesis using that mp by blast
qed

lemma seen_rx_sane:
  assumes "ring_ready env info" "0 < ri_len info" "rx_sane mem info"
  shows "seen_rx env mem info = rx_field (ri_frames info) mem"
proof -
  have "ri_len info \<le> 16777216" using ring_readyD [OF assms(1,2)] by simp
  with assms(3) show ?thesis
    by (simp add: seen_rx_eq [OF assms(1,2)] rx_sane_def V4V_ROUNDUP_eq round16_id Let_def)
qed

lemma payload_space_eq:
  assumes rdy: "ring_ready env info" and L0: "0 < ri_len info" and n: "ri_nmfns info = ri_npage info"
    and rx: "rx_sane mem info"
  obtains info' where "v4v_ringbuf_payload_space env mem info =
      ((if seen_rx env mem info = ri_tx_ptr info then ri_len info - 16 else seen_free env mem info - 32), info')"
    "ri_same info info'" "ri_wf info'"
proof -
  let ?L = "ri_len info" and ?rx = "rx_field (ri_frames info) mem" and ?tx = "ri_tx_ptr info"
  note R = ring_readyD [OF rdy L0]
  have b: "?rx < ?L" "?tx < ?L" "?L \<le> 16777216" "16 \<le> ?L" "seen_rx env mem info = ?rx"
    using rx R seen_rx_sane [OF rdy L0 rx] by (auto simp: rx_sane_def dvd_imp_le)
  have f: "seen_free env mem info = (if ?rx < ?tx then ?rx + ?L - ?tx else ?rx - ?tx)" if "?rx \<noteq> ?tx"
    using that b by (auto simp: seen_free_def free_bytes_def le_mod_geq)
  have r3: "V4V_ROUNDUP (Suc 0) = 16" by (simp add: V4V_ROUNDUP_def)
  obtain info' where g: "v4v_ringbuf_get_rx_ptr env mem info = (Inr ?rx, info')" "ri_same info info'" "ri_wf info'"
    by (rule get_rx_ptr_ok [OF rdy L0 n])
  have "v4v_ringbuf_payload_space env mem info =
      ((if ?rx = ?tx then ?L - 16 else seen_free env mem info - 32), info')"
  proof (cases "?rx = ?tx")
    case True
    then show ?thesis
      using g(1) L0 b u32_sub_le [of 16 ?L] by (simp add: v4v_ringbuf_payload_space_def SIZEOF_MH_def)
  next
    case False
    then show ?thesis
      unfolding f [OF False] using g(1) L0 b
      by (auto simp: v4v_ringbuf_payload_space_def SIZEOF_MH_def Let_def r3)
  qed
  with g(2,3) that b(5) show thesis by simp
qed

lemma fits_iff_room:
  assumes "16 dvd (sp::nat)" "0 < n"
  shows "round16 n + 16 < sp \<longleftrightarrow> n \<le> sp - 32"
proof -
  obtain k where sp: "sp = 16 * k" using assms(1) by blast
  have "round16 n + 16 < 16 * k \<longleftrightarrow> n + 15 < 16 * (k - 1)"
    unfolding round16_def by (cases k) (simp_all, linarith)
  then show ?thesis using assms(2) sp by (cases k) auto
qed

lemma insert_fst:
  assumes "ring_ready env info" "0 < ri_len info" "payload env mem (ri_frames info) buf len iovs niov bs"
    and "16 + round16 (length bs) < ri_len info"
  shows "fst (v4v_ringbuf_insert env mem info src_id proto buf len iovs niov) =
    (if seen_free env mem info \<le> 16 + round16 (length bs) then Some EAGAIN else None)"
proof -
  have l: "length bs < 16777216" using ring_readyD(8) [OF assms(1,2)] assms(4) round16_ge [of "length bs"] by simp
  show ?thesis
    using insert_eq [OF assms(2) _ assms(3), of src_id proto] insert_body_ok [OF assms(1-3), of "id_addr src_id" proto]
      assms(4) l by (auto simp: add.commute V4V_RING_MAX_SIZE_def)
qed

lemma insert_by_room:
  assumes rdy: "ring_ready env info" "0 < ri_len info" and rx: "16 dvd seen_free env mem info"
    and pay: "payload env mem (ri_frames info) buf len iovs niov bs" "bs \<noteq> []" "length bs \<le> V4V_RING_MAX_SIZE"
  shows "fst (v4v_ringbuf_insert env mem info src_id proto buf len iovs niov) =
    (if ri_len info - 32 < length bs then Some EMSGSIZE
     else if length bs \<le> seen_free env mem info - 32 then None else Some EAGAIN)"
proof -
  have p: "0 < length bs" using pay(2) by simp
  have big: "ri_len info \<le> 16 + round16 (length bs) \<longleftrightarrow> ri_len info - 32 < length bs"
    using fits_iff_room [OF ring_readyD(5) [OF rdy] p] by linarith
  have "fst (v4v_ringbuf_insert env mem info src_id proto buf len iovs niov) = Some EMSGSIZE"
    if "ri_len info \<le> 16 + round16 (length bs)"
    using insert_eq [OF rdy(2) _ pay(1), of src_id proto] that pay(3) by (simp add: V4V_RING_MAX_SIZE_def)
  moreover have "length bs \<le> seen_free env mem info - 32 \<longleftrightarrow> \<not> seen_free env mem info \<le> 16 + round16 (length bs)"
    using fits_iff_room [OF rx p] by linarith
  ultimately show ?thesis
    using insert_fst [OF rdy pay(1), of src_id proto] big by (cases "ri_len info \<le> 16 + round16 (length bs)") auto
qed

lemma seen_free_dvd:
  assumes "ring_ready env info" "0 < ri_len info" "rx_sane mem info"
  shows "16 dvd seen_free env mem info"
  using seen_rx_sane [OF assms] assms(3) ring_readyD [OF assms(1,2)]
  by (simp add: seen_free_def rx_sane_def free_bytes_dvd)

lemma seen_free_cases:
  assumes "ring_ready env info" "0 < ri_len info" "rx_sane mem info"
  shows "rx_field (ri_frames info) mem = ri_tx_ptr info \<Longrightarrow> seen_free env mem info = ri_len info"
    and "rx_field (ri_frames info) mem \<noteq> ri_tx_ptr info \<Longrightarrow> seen_free env mem info < ri_len info"
  using seen_rx_sane [OF assms] assms(2) by (simp_all add: seen_free_def free_bytes_def)

text \<open>
  C8.  How the room that is announced relates to what an insertion accepts.  For a ring whose pages
  are in place and whose receiver keeps its pointer aligned and inside the ring, and for any readable
  message of 1 byte to 16 MiB outside the ring: a message longer than the ring's length less 32 is
  \<open>EMSGSIZE\<close>; any other is accepted precisely when \<open>v4v_ringbuf_payload_space\<close> is at least its length, and
  is told to try again otherwise.  In a ring that is not empty the room announced is never above that
  limit, so it decides alone; in an empty ring it is the length less 16, which is 16 bytes more than
  any message can have.
\<close>

theorem payload_space_exact:
  assumes rdy: "ring_ready env info" "0 < ri_len info" "ri_nmfns info = ri_npage info" "rx_sane mem info"
    and pay: "payload env mem (ri_frames info) buf len iovs niov bs" "bs \<noteq> []" "length bs \<le> V4V_RING_MAX_SIZE"
  defines "space \<equiv> fst (v4v_ringbuf_payload_space env mem info)"
  shows "fst (v4v_ringbuf_insert env mem info src_id proto buf len iovs niov) =
      (if ri_len info - 32 < length bs then Some EMSGSIZE
       else if length bs \<le> space then None else Some EAGAIN) \<and>
    (if rx_field (ri_frames info) mem = ri_tx_ptr info then space = ri_len info - 16
     else space \<le> ri_len info - 32)"
proof -
  obtain info' where "v4v_ringbuf_payload_space env mem info =
      ((if seen_rx env mem info = ri_tx_ptr info then ri_len info - 16 else seen_free env mem info - 32), info')"
    by (rule payload_space_eq [OF rdy])
  then have sp: "space = (if rx_field (ri_frames info) mem = ri_tx_ptr info then ri_len info - 16 else seen_free env mem info - 32)"
    using seen_rx_sane [OF rdy(1,2,4)] by (simp add: space_def)
  then show ?thesis
    using insert_by_room [OF rdy(1,2) seen_free_dvd [OF rdy(1,2,4)] pay, of src_id proto]
      seen_free_cases [OF rdy(1,2,4)] by auto
qed

theorem payload_space_exact_witness:
  "fst (v4v_ringbuf_insert sample_env sample_mem sample_info (ri_id sample_info) 6 0 3 0 0) = None \<and>
    fst (v4v_ringbuf_payload_space sample_env sample_mem sample_info) = 48"
proof -
  have s: "0 < ri_len sample_info" "ri_nmfns sample_info = ri_npage sample_info" "ri_len sample_info = 64"
    by (simp_all add: sample_info_def)
  have rx: "rx_field (ri_frames sample_info) sample_mem = 48"
    by (simp add: rx_field_def rbs_def rb_def sample_info_def sample_mem_def ri_frames_def v4v_consts upt_rec)
  then have "rx_sane sample_mem sample_info" by (simp add: rx_sane_def s(3))
  moreover have "sample_data \<noteq> []" "length sample_data = 3" "3 \<le> V4V_RING_MAX_SIZE" "ri_tx_ptr sample_info = 48"
    by (simp_all add: sample_data_def V4V_RING_MAX_SIZE_def sample_info_def)
  ultimately show ?thesis
    using payload_space_exact [OF sample_ready s(1,2) _ sample_payload, of "ri_id sample_info" 6] rx s(3) by simp
qed

end
