(* ===== verification/V4v_Table.thy ===== *)
theory V4v_Table
  imports V4v_Pending
begin

unbundle bit_operations_syntax

text \<open>
  The ring table of a domain: \<open>ring_hash\<close>, an array of \<open>V4V_HTABLE_SIZE\<close> lists of ring descriptors
  (\<open>xen/include/xen/v4v.h\<close>, \<open>v4v_ring_find_info\<close> and the list operations used by the hypercalls of
  \<open>xen/common/v4v.c\<close>).  The locale \<open>keyed_table\<close> is the contract the hypercalls rely on: a finite
  map from ring identifiers to descriptors.  It is interpreted on the hash table.
\<close>

section \<open>The hash table\<close>

definition V4V_HTABLE_SIZE :: nat where "V4V_HTABLE_SIZE = 32"

type_synonym v4v_table = "v4v_ring_info list list"

definition v4v_hash_fn :: "v4v_ring_id \<Rightarrow> nat" where
  "v4v_hash_fn i =
     (let port = a_port (id_addr i);
          ret = (ucast (drop_bit 16 port) :: 16 word) XOR ucast port XOR a_domain (id_addr i) XOR id_partner i
      in unat (ret AND 31))"

definition tbl_empty :: v4v_table where
  "tbl_empty = replicate V4V_HTABLE_SIZE []"

definition v4v_ring_find_info :: "v4v_table \<Rightarrow> v4v_ring_id \<Rightarrow> v4v_ring_info option" where
  "v4v_ring_find_info tbl i = find (\<lambda>info. ri_id info = i) (tbl ! v4v_hash_fn i)"

definition V4V_DOMID_NONE :: domid where "V4V_DOMID_NONE = 0x7fff"

definition v4v_ring_find_info_by_addr :: "domid \<Rightarrow> v4v_table \<Rightarrow> v4v_addr \<Rightarrow> domid \<Rightarrow> v4v_ring_info option" where
  "v4v_ring_find_info_by_addr d tbl a p =
     (let i = \<lparr>id_addr = \<lparr>a_port = a_port a, a_domain = d\<rparr>, id_partner = p\<rparr>
      in case v4v_ring_find_info tbl i of
           Some info \<Rightarrow> Some info
         | None \<Rightarrow> v4v_ring_find_info tbl (i\<lparr>id_partner := V4V_DOMID_NONE\<rparr>))"

text \<open>
  \<open>hlist_add_head\<close>; a write through the pointer found by \<open>v4v_ring_find_info\<close>; \<open>hlist_del\<close>.
\<close>

definition tbl_add :: "v4v_ring_info \<Rightarrow> v4v_table \<Rightarrow> v4v_table" where
  "tbl_add info tbl = (let h = v4v_hash_fn (ri_id info) in tbl[h := info # tbl ! h])"

definition tbl_store :: "v4v_ring_info \<Rightarrow> v4v_table \<Rightarrow> v4v_table" where
  "tbl_store info tbl =
     (let h = v4v_hash_fn (ri_id info)
      in tbl[h := update_first (\<lambda>i. ri_id i = ri_id info) info (tbl ! h)])"

definition tbl_del :: "v4v_ring_id \<Rightarrow> v4v_table \<Rightarrow> v4v_table" where
  "tbl_del i tbl = (let h = v4v_hash_fn i in tbl[h := remove_first (\<lambda>info. ri_id info = i) (tbl ! h)])"

definition tbl_inv :: "v4v_table \<Rightarrow> bool" where
  "tbl_inv tbl \<longleftrightarrow> length tbl = V4V_HTABLE_SIZE \<and>
     (\<forall>h < V4V_HTABLE_SIZE. distinct (map ri_id (tbl ! h)) \<and>
        (\<forall>info \<in> set (tbl ! h). v4v_hash_fn (ri_id info) = h))"

section \<open>The contract\<close>

text \<open>What the hypercalls do to a table, one event at a time, and the same on a map.\<close>

datatype ('k, 'v) tbl_event = Tbl_add 'v | Tbl_store 'v | Tbl_del 'k

fun tbl_step ::
  "('v \<Rightarrow> 'k) \<Rightarrow> ('t \<Rightarrow> 'k \<Rightarrow> 'v option) \<Rightarrow> ('v \<Rightarrow> 't \<Rightarrow> 't) \<Rightarrow> ('v \<Rightarrow> 't \<Rightarrow> 't) \<Rightarrow> ('k \<Rightarrow> 't \<Rightarrow> 't) \<Rightarrow>
     ('k, 'v) tbl_event \<Rightarrow> 't \<Rightarrow> 't" where
  "tbl_step key lookup add store del (Tbl_add v) t =
     (case lookup t (key v) of None \<Rightarrow> add v t | Some _ \<Rightarrow> t)"
| "tbl_step key lookup add store del (Tbl_store v) t =
     (case lookup t (key v) of None \<Rightarrow> t | Some _ \<Rightarrow> store v t)"
| "tbl_step key lookup add store del (Tbl_del k) t =
     (case lookup t k of None \<Rightarrow> t | Some _ \<Rightarrow> del k t)"

fun map_step :: "('v \<Rightarrow> 'k) \<Rightarrow> ('k, 'v) tbl_event \<Rightarrow> ('k \<rightharpoonup> 'v) \<Rightarrow> ('k \<rightharpoonup> 'v)" where
  "map_step key (Tbl_add v) m = (if m (key v) = None then m(key v \<mapsto> v) else m)"
| "map_step key (Tbl_store v) m = (if m (key v) = None then m else m(key v \<mapsto> v))"
| "map_step key (Tbl_del k) m = m(k := None)"

lemma map_step_new: "map_step key e m k = Some v \<Longrightarrow> m k = Some v \<or> e = Tbl_add v \<or> e = Tbl_store v"
  by (cases e) (auto split: if_splits)

locale keyed_table =
  fixes key :: "'v \<Rightarrow> 'k"
    and empty :: 't
    and lookup :: "'t \<Rightarrow> 'k \<Rightarrow> 'v option"
    and add :: "'v \<Rightarrow> 't \<Rightarrow> 't"
    and store :: "'v \<Rightarrow> 't \<Rightarrow> 't"
    and del :: "'k \<Rightarrow> 't \<Rightarrow> 't"
    and entries :: "'t \<Rightarrow> 'v list"
    and invar :: "'t \<Rightarrow> bool"
  assumes invar_empty: "invar empty" and lookup_empty: "lookup empty k = None"
    and invar_add: "invar t \<Longrightarrow> lookup t (key v) = None \<Longrightarrow> invar (add v t)"
    and lookup_add: "invar t \<Longrightarrow> lookup (add v t) = (lookup t)(key v \<mapsto> v)"
    and invar_store: "invar t \<Longrightarrow> invar (store v t)"
    and lookup_store: "invar t \<Longrightarrow> lookup t (key v) \<noteq> None \<Longrightarrow> lookup (store v t) = (lookup t)(key v \<mapsto> v)"
    and invar_del: "invar t \<Longrightarrow> invar (del k t)"
    and lookup_del: "invar t \<Longrightarrow> lookup (del k t) = (lookup t)(k := None)"
    and lookup_entries: "invar t \<Longrightarrow> lookup t k = Some v \<longleftrightarrow> v \<in> set (entries t) \<and> key v = k"
begin

lemma lookup_key: "invar t \<Longrightarrow> lookup t k = Some v \<Longrightarrow> key v = k"
  by (simp add: lookup_entries)

lemma step_invar:
  assumes "invar t"
  shows "invar (tbl_step key lookup add store del e t)"
proof (cases e)
  case (Tbl_add v)
  then show ?thesis using assms invar_add [OF assms, of v] by (cases "lookup t (key v)") simp_all
next
  case (Tbl_store v)
  then show ?thesis using assms invar_store [OF assms, of v] by (cases "lookup t (key v)") simp_all
next
  case (Tbl_del k)
  then show ?thesis using assms invar_del [OF assms, of k] by (cases "lookup t k") simp_all
qed

lemma step_lookup:
  assumes "invar t"
  shows "lookup (tbl_step key lookup add store del e t) = map_step key e (lookup t)"
proof (cases e)
  case (Tbl_add v)
  then show ?thesis using lookup_add [OF assms, of v] by (cases "lookup t (key v)") simp_all
next
  case (Tbl_store v)
  then show ?thesis using lookup_store [OF assms, of v] by (cases "lookup t (key v)") simp_all
next
  case (Tbl_del k)
  then show ?thesis using lookup_del [OF assms, of k] by (cases "lookup t k") (simp_all add: fun_upd_idem)
qed

lemma run_refines:
  assumes "invar t"
  shows "invar (fold (tbl_step key lookup add store del) es t) \<and>
    lookup (fold (tbl_step key lookup add store del) es t) = fold (map_step key) es (lookup t)"
  using assms
proof (induction es arbitrary: t)
  case (Cons e es)
  show ?case using Cons.IH [OF step_invar [OF Cons.prems], of e] step_lookup [OF Cons.prems, of e] by simp
qed simp

text \<open>An event brings in no entry but its own.\<close>

lemma entries_step:
  assumes "invar t" "v \<in> set (entries (tbl_step key lookup add store del e t))"
  shows "v \<in> set (entries t) \<or> e = Tbl_add v \<or> e = Tbl_store v"
proof -
  have "lookup (tbl_step key lookup add store del e t) (key v) = Some v"
    using assms(2) lookup_entries [OF step_invar [OF assms(1)], of e "key v" v] by simp
  then have "lookup t (key v) = Some v \<or> e = Tbl_add v \<or> e = Tbl_store v"
    unfolding step_lookup [OF assms(1)] by (rule map_step_new)
  then show ?thesis unfolding lookup_entries [OF assms(1)] by blast
qed

end

section \<open>The hash table keeps the contract\<close>

lemma hash_less [simp]: "v4v_hash_fn i < V4V_HTABLE_SIZE"
proof -
  have "unat (w AND 31) < 32" for w :: "16 word"
  proof -
    have "w AND 31 \<le> 31" by (rule word_and_le1)
    then have "unat (w AND 31) \<le> unat (31 :: 16 word)" by (simp add: word_le_nat_alt)
    then show ?thesis by simp
  qed
  then show ?thesis by (simp add: v4v_hash_fn_def V4V_HTABLE_SIZE_def Let_def)
qed

lemma tbl_invD:
  assumes "tbl_inv t"
  shows "length t = V4V_HTABLE_SIZE" "h < V4V_HTABLE_SIZE \<Longrightarrow> distinct (map ri_id (t ! h))"
    "h < V4V_HTABLE_SIZE \<Longrightarrow> info \<in> set (t ! h) \<Longrightarrow> v4v_hash_fn (ri_id info) = h"
  using assms by (auto simp: tbl_inv_def)

lemma tbl_inv_upd:
  assumes "tbl_inv t" "h < V4V_HTABLE_SIZE" "distinct (map ri_id b)"
    "\<forall>info \<in> set b. v4v_hash_fn (ri_id info) = h"
  shows "tbl_inv (t[h := b])"
  using assms by (auto simp: tbl_inv_def nth_list_update)

lemma nth_upd_hash:
  assumes "tbl_inv t"
  shows "t[v4v_hash_fn k := b] ! v4v_hash_fn i = (if v4v_hash_fn i = v4v_hash_fn k then b else t ! v4v_hash_fn i)"
  using assms by (auto simp: tbl_inv_def nth_list_update)

lemma tbl_lookup_add: "tbl_inv t \<Longrightarrow> v4v_ring_find_info (tbl_add v t) = (v4v_ring_find_info t)(ri_id v \<mapsto> v)"
  by (auto simp: v4v_ring_find_info_def tbl_add_def Let_def nth_upd_hash fun_eq_iff)

lemma tbl_lookup_store:
  assumes "tbl_inv t" "v4v_ring_find_info t (ri_id v) \<noteq> None"
  shows "v4v_ring_find_info (tbl_store v t) = (v4v_ring_find_info t)(ri_id v \<mapsto> v)"
proof
  fix i
  show "v4v_ring_find_info (tbl_store v t) i = ((v4v_ring_find_info t)(ri_id v \<mapsto> v)) i"
  proof (cases "i = ri_id v")
    case True
    then show ?thesis
      using assms find_update_first_same [of "\<lambda>i. ri_id i = ri_id v" "t ! v4v_hash_fn (ri_id v)" v]
      by (simp add: v4v_ring_find_info_def tbl_store_def Let_def nth_upd_hash)
  next
    case False
    then show ?thesis
      using assms find_update_first_other [of "\<lambda>i. ri_id i = ri_id v" "\<lambda>info. ri_id info = i" v]
      by (auto simp: v4v_ring_find_info_def tbl_store_def Let_def nth_upd_hash)
  qed
qed

lemma tbl_lookup_del:
  assumes "tbl_inv t"
  shows "v4v_ring_find_info (tbl_del k t) = (v4v_ring_find_info t)(k := None)"
proof
  fix i
  show "v4v_ring_find_info (tbl_del k t) i = ((v4v_ring_find_info t)(k := None)) i"
  proof (cases "i = k")
    case True
    then show ?thesis
      using find_key_remove_first [OF tbl_invD(2) [OF assms hash_less], of k]
      by (simp add: v4v_ring_find_info_def tbl_del_def Let_def nth_upd_hash [OF assms])
  next
    case False
    then show ?thesis
      using find_remove_first_other [of "\<lambda>info. ri_id info = k" "\<lambda>info. ri_id info = i"]
      by (auto simp: v4v_ring_find_info_def tbl_del_def Let_def nth_upd_hash [OF assms])
  qed
qed

lemma map_key_update_first:
  "map ri_id (update_first (\<lambda>i. ri_id i = ri_id v) v b) = map ri_id b"
  by (induction b) auto

lemma tbl_inv_add: "tbl_inv t \<Longrightarrow> v4v_ring_find_info t (ri_id v) = None \<Longrightarrow> tbl_inv (tbl_add v t)"
  using tbl_invD [of t]
  by (auto simp: tbl_add_def Let_def v4v_ring_find_info_def find_key_None_iff intro!: tbl_inv_upd)

lemma tbl_inv_store: "tbl_inv t \<Longrightarrow> tbl_inv (tbl_store v t)"
  unfolding tbl_store_def Let_def
proof (rule tbl_inv_upd)
  let ?h = "v4v_hash_fn (ri_id v)" and ?b = "update_first (\<lambda>i. ri_id i = ri_id v) v (t ! v4v_hash_fn (ri_id v))"
  assume t: "tbl_inv t"
  then show "tbl_inv t" .
  show "?h < V4V_HTABLE_SIZE" by simp
  show "distinct (map ri_id ?b)" using tbl_invD(2) [OF t hash_less] by (simp add: map_key_update_first)
  show "\<forall>info \<in> set ?b. v4v_hash_fn (ri_id info) = ?h"
    using tbl_invD(3) [OF t hash_less, of _ "ri_id v"]
      set_update_first_subset [of "\<lambda>i. ri_id i = ri_id v" v "t ! ?h"] by auto
qed

lemma tbl_inv_del: "tbl_inv t \<Longrightarrow> tbl_inv (tbl_del k t)"
  using tbl_invD(2,3) [of t "v4v_hash_fn k"] set_remove_first_subset [of "\<lambda>info. ri_id info = k" "t ! v4v_hash_fn k"]
  by (auto simp: tbl_del_def Let_def intro!: tbl_inv_upd distinct_remove_first)

lemma find_key_distinct: "distinct (map f xs) \<Longrightarrow> x \<in> set xs \<Longrightarrow> find (\<lambda>y. f y = f x) xs = Some x"
  by (induction xs) (auto simp: image_iff)

lemma tbl_lookup_entries:
  assumes "tbl_inv t"
  shows "v4v_ring_find_info t k = Some v \<longleftrightarrow> v \<in> set (concat t) \<and> ri_id v = k"
proof
  assume "v4v_ring_find_info t k = Some v"
  then have "v \<in> set (t ! v4v_hash_fn k)" "ri_id v = k"
    using find_Some_mem [of "\<lambda>info. ri_id info = k"] by (auto simp: v4v_ring_find_info_def)
  moreover have "v4v_hash_fn k < length t" using assms by (simp add: tbl_invD(1))
  ultimately show "v \<in> set (concat t) \<and> ri_id v = k" by (auto intro: nth_mem)
next
  assume a: "v \<in> set (concat t) \<and> ri_id v = k"
  then obtain b where "b \<in> set t" "v \<in> set b" by auto
  then obtain h where h: "h < length t" "v \<in> set (t ! h)" by (metis in_set_conv_nth)
  then have "h = v4v_hash_fn k" using a assms tbl_invD(1,3) by metis
  then have "distinct (map ri_id (t ! v4v_hash_fn k))" "v \<in> set (t ! v4v_hash_fn k)"
    using h(2) tbl_invD(2) [OF assms] by auto
  then have "find (\<lambda>info. ri_id info = ri_id v) (t ! v4v_hash_fn k) = Some v"
    by (rule find_key_distinct)
  then show "v4v_ring_find_info t k = Some v" using a by (simp add: v4v_ring_find_info_def)
qed

lemma tbl_distinct_prefix:
  assumes "tbl_inv t"
  shows "n \<le> V4V_HTABLE_SIZE \<Longrightarrow> distinct (map ri_id (concat (take n t))) \<and>
    (\<forall>info \<in> set (concat (take n t)). v4v_hash_fn (ri_id info) < n)"
proof (induction n)
  case (Suc n)
  have n: "n < length t" "n < V4V_HTABLE_SIZE" using Suc.prems tbl_invD(1) [OF assms] by auto
  note T = tbl_invD(2,3) [OF assms n(2)]
  define c where "c = concat (take n t)"
  have IH: "distinct (map ri_id c)" "\<And>x. x \<in> set c \<Longrightarrow> v4v_hash_fn (ri_id x) < n"
    using Suc by (auto simp: c_def)
  have c: "concat (take (Suc n) t) = c @ t ! n" by (simp add: take_Suc_conv_app_nth [OF n(1)] c_def)
  have "ri_id x \<noteq> ri_id y" if "x \<in> set c" "y \<in> set (t ! n)" for x y
    using IH(2) [OF that(1)] T(2) [OF that(2)] by auto
  then have "ri_id ` set c \<inter> ri_id ` set (t ! n) = {}" by blast
  then show ?case unfolding c using IH T by (auto simp: less_Suc_eq)
qed simp

lemma tbl_distinct: "tbl_inv t \<Longrightarrow> distinct (map ri_id (concat t))"
  using tbl_distinct_prefix [of t V4V_HTABLE_SIZE] by (simp add: tbl_invD(1))

lemma tbl_inv_empty: "tbl_inv tbl_empty"
  by (simp add: tbl_inv_def tbl_empty_def)

lemma tbl_lookup_empty: "v4v_ring_find_info tbl_empty k = None"
  using hash_less [of k] by (simp add: v4v_ring_find_info_def tbl_empty_def)

interpretation ht: keyed_table ri_id tbl_empty v4v_ring_find_info tbl_add tbl_store tbl_del concat tbl_inv
  by (rule keyed_table.intro)
    (rule tbl_inv_empty tbl_lookup_empty tbl_inv_add tbl_lookup_add tbl_inv_store tbl_lookup_store tbl_inv_del
      tbl_lookup_del tbl_lookup_entries; assumption)+

text \<open>
  C9.  The hash table of rings is a finite map from ring identifiers: starting from the empty
  table, after any sequence of registrations, updates and removals, looking up any identifier
  gives what the same sequence leaves in a map, collisions of the hash function included, and
  no identifier has two descriptors.
\<close>

theorem ring_table_is_map:
  "v4v_ring_find_info (fold (tbl_step ri_id v4v_ring_find_info tbl_add tbl_store tbl_del) es tbl_empty) =
     fold (map_step ri_id) es (\<lambda>_. None) \<and>
   distinct (map ri_id (concat (fold (tbl_step ri_id v4v_ring_find_info tbl_add tbl_store tbl_del) es tbl_empty)))"
  (is "v4v_ring_find_info ?t = _ \<and> _")
proof -
  have "v4v_ring_find_info tbl_empty = (\<lambda>_. None)" using ht.lookup_empty by blast
  then have "tbl_inv ?t" "v4v_ring_find_info ?t = fold (map_step ri_id) es (\<lambda>_. None)"
    using ht.run_refines [OF ht.invar_empty, of es] by simp_all
  then show ?thesis using tbl_distinct by blast
qed

end
