(* ===== verification/Vpic.thy ===== *)
theory Vpic
  imports Uxen_Prelude
begin

unbundle bit_operations_syntax

text \<open>
  The virtual i8259 interrupt controllers of an HVM guest, \<open>xen/arch/x86/hvm/vpic.c\<close>: a master
  and a slave whose INT output drives input 2 of the master.  The guest programs them through
  port I/O, devices raise and lower their inputs, and the virtual CPU acknowledges.  The main
  result is that the cascade stays consistent whatever the guest writes, so that the \<open>BUG_ON\<close>s
  of the acknowledge path are unreachable.
\<close>

section \<open>State\<close>

text \<open>\<open>struct hvm_hw_vpic\<close> of \<open>public/arch-x86/hvm/save.h\<close>; the 4-bit fields are below 16.\<close>

record hvm_hw_vpic =
  irr :: byte
  imr :: byte
  isr :: byte
  irq_base :: byte
  init_state :: nat
  priority_add :: nat
  readsel_isr :: bool
  poll :: bool
  auto_eoi :: bool
  rotate_on_auto_eoi :: bool
  special_fully_nested_mode :: bool
  special_mask_mode :: bool
  is_master :: bool
  elcr :: byte
  int_output :: bool

text \<open>
  The pair of controllers of a domain, with what leaves the component: calls of \<open>vcpu_kick\<close> and
  of \<open>pt_may_unmask_irq\<close>, and whether a \<open>BUG_ON\<close> has fired.
\<close>

record vpics =
  pic_m :: hvm_hw_vpic
  pic_s :: hvm_hw_vpic
  i8259_target :: bool
  pic_kicks :: nat
  pic_unmask :: nat
  pic_bug :: bool

definition get_pic :: "bool \<Rightarrow> vpics \<Rightarrow> hvm_hw_vpic" where
  "get_pic slave st = (if slave then pic_s st else pic_m st)"

definition set_pic :: "bool \<Rightarrow> hvm_hw_vpic \<Rightarrow> vpics \<Rightarrow> vpics" where
  "set_pic slave p st = (if slave then st\<lparr>pic_s := p\<rparr> else st\<lparr>pic_m := p\<rparr>)"

section \<open>Priorities\<close>

definition VPIC_PRIO_NONE :: nat where "VPIC_PRIO_NONE = 8"

text \<open>\<open>bsf\<close>: the index of the lowest bit set.\<close>

definition bsf8 :: "byte \<Rightarrow> nat" where
  "bsf8 w = (case filter (bit w) [0..<8] of [] \<Rightarrow> 8 | i # _ \<Rightarrow> i)"

definition vpic_get_priority :: "hvm_hw_vpic \<Rightarrow> byte \<Rightarrow> nat" where
  "vpic_get_priority p msk =
     (if msk = 0 then VPIC_PRIO_NONE else bsf8 (word_rotr (priority_add p) msk))"

definition in_service_mask :: "hvm_hw_vpic \<Rightarrow> nat \<Rightarrow> byte" where
  "in_service_mask p irq =
     (let m1 = (if special_fully_nested_mode p \<and> is_master p \<and> irq = 2
                then isr p AND NOT (push_bit 2 1) else isr p)
      in if special_mask_mode p then m1 AND NOT (imr p) else m1)"

definition vpic_get_highest_priority_irq :: "hvm_hw_vpic \<Rightarrow> int" where
  "vpic_get_highest_priority_irq p =
     (let priority = vpic_get_priority p (irr p AND NOT (imr p))
      in if priority = VPIC_PRIO_NONE then - 1
         else (let irq = (priority + priority_add p) mod 8;
                   cur_priority = vpic_get_priority p (in_service_mask p irq)
               in if priority < cur_priority then int irq else - 1))"

section \<open>The INT output\<close>

definition irq_line :: "hvm_hw_vpic \<Rightarrow> bool" where
  "irq_line p \<longleftrightarrow> 0 \<le> vpic_get_highest_priority_irq p"

definition update_master :: "vpics \<Rightarrow> vpics" where
  "update_master st =
     (let m = pic_m st; out = irq_line m
      in if int_output m = out then st
         else (let st1 = st\<lparr>pic_m := m\<lparr>int_output := \<not> int_output m\<rparr>\<rparr>
               in if \<not> int_output m \<and> i8259_target st then st1\<lparr>pic_kicks := pic_kicks st1 + 1\<rparr> else st1))"

definition update_slave :: "vpics \<Rightarrow> vpics" where
  "update_slave st =
     (let s = pic_s st; m = pic_m st; out = irq_line s
      in if int_output s = out then st
         else (let st1 = st\<lparr>pic_s := s\<lparr>int_output := \<not> int_output s\<rparr>\<rparr>
               in if \<not> int_output s
                  then update_master (st1\<lparr>pic_m := m\<lparr>irr := irr m OR push_bit 2 1\<rparr>\<rparr>)
                  else update_master (st1\<lparr>pic_m := m\<lparr>irr := irr m AND NOT (push_bit 2 1)\<rparr>\<rparr>)))"

definition vpic_update_int_output :: "bool \<Rightarrow> vpics \<Rightarrow> vpics" where
  "vpic_update_int_output slave st = (if slave then update_slave st else update_master st)"

section \<open>Acknowledging\<close>

definition vpic_intack_pic :: "hvm_hw_vpic \<Rightarrow> nat \<Rightarrow> hvm_hw_vpic" where
  "vpic_intack_pic p irq =
     (let p1 = (if \<not> bit (elcr p) irq then p\<lparr>irr := irr p AND NOT (push_bit irq 1)\<rparr> else p)
      in if \<not> auto_eoi p1 then p1\<lparr>isr := isr p1 OR push_bit irq 1\<rparr>
         else if rotate_on_auto_eoi p1 then p1\<lparr>priority_add := (irq + 1) mod 8\<rparr>
         else p1)"

definition vpic_intack1 :: "bool \<Rightarrow> nat \<Rightarrow> vpics \<Rightarrow> vpics" where
  "vpic_intack1 slave irq st =
     vpic_update_int_output slave (set_pic slave (vpic_intack_pic (get_pic slave st) irq) st)"

definition vpic_intack :: "bool \<Rightarrow> vpics \<Rightarrow> int \<times> vpics" where
  "vpic_intack slave st =
     (if \<not> int_output (get_pic slave st) then (- 1, st)
      else
        (let irq = vpic_get_highest_priority_irq (get_pic slave st)
         in if irq < 0 then (irq, st\<lparr>pic_bug := True\<rparr>)
            else
              (let st1 = vpic_intack1 slave (nat irq) st
               in if irq = 2 \<and> is_master (get_pic slave st1) then
                    (let irq2 = vpic_get_highest_priority_irq (pic_s st1)
                     in if irq2 < 0 then (irq2, st1\<lparr>pic_bug := True\<rparr>)
                        else (irq2 + 8, vpic_intack1 True (nat irq2) st1))
                  else (irq, st1))))"

section \<open>Port I/O\<close>

definition write_icw1 :: "hvm_hw_vpic \<Rightarrow> byte \<Rightarrow> hvm_hw_vpic" where
  "write_icw1 p val =
     (let p1 = p\<lparr>irr := irr p AND elcr p, imr := 0, isr := 0, priority_add := 0,
                 rotate_on_auto_eoi := False, special_mask_mode := False, readsel_isr := False,
                 poll := False\<rparr>;
          p2 = (if \<not> bit val 0 then p1\<lparr>auto_eoi := False, special_fully_nested_mode := False\<rparr> else p1)
      in p2\<lparr>init_state := unat (val AND 3) * 4 + 1\<rparr>)"

definition write_ocw3 :: "hvm_hw_vpic \<Rightarrow> byte \<Rightarrow> hvm_hw_vpic" where
  "write_ocw3 p val =
     (let p1 = (if bit val 2 then p\<lparr>poll := True\<rparr> else p);
          p2 = (if bit val 1 then p1\<lparr>readsel_isr := bit val 0\<rparr> else p1)
      in if bit val 6 then p2\<lparr>special_mask_mode := bit val 5\<rparr> else p2)"

definition write_ocw2 :: "hvm_hw_vpic \<Rightarrow> byte \<Rightarrow> hvm_hw_vpic" where
  "write_ocw2 p val =
     (let cmd = unat (drop_bit 5 val)
      in if cmd = 0 \<or> cmd = 4 then p\<lparr>rotate_on_auto_eoi := (cmd = 4)\<rparr>
         else if cmd = 1 \<or> cmd = 5 then
           (let msk = (if special_mask_mode p then isr p AND NOT (imr p) else isr p);
                priority = vpic_get_priority p msk
            in if priority = VPIC_PRIO_NONE then p
               else (let irq = (priority + priority_add p) mod 8;
                         p1 = p\<lparr>isr := isr p AND NOT (push_bit irq 1)\<rparr>
                     in if cmd = 5 then p1\<lparr>priority_add := (irq + 1) mod 8\<rparr> else p1))
         else if cmd = 3 \<or> cmd = 7 then
           (let irq = unat (val AND 7); p1 = p\<lparr>isr := isr p AND NOT (push_bit irq 1)\<rparr>
            in if cmd = 7 then p1\<lparr>priority_add := (irq + 1) mod 8\<rparr> else p1)
         else if cmd = 6 then p\<lparr>priority_add := (unat val + 1) mod 8\<rparr>
         else p)"

definition icw_done :: "nat \<Rightarrow> nat" where
  "icw_done s = (if \<not> bit (s + 1) 2 then 0 else s + 1)"

definition write_data :: "hvm_hw_vpic \<Rightarrow> byte \<Rightarrow> hvm_hw_vpic" where
  "write_data p val =
     (let s = init_state p
      in if s mod 4 = 0 then p\<lparr>imr := val\<rparr>
         else if s mod 4 = 1 then
           (if \<not> bit (s + 1) 3 then p\<lparr>irq_base := val AND 0xf8, init_state := s + 1\<rparr>
            else p\<lparr>irq_base := val AND 0xf8, init_state := icw_done (s + 1)\<rparr>)
         else if s mod 4 = 2 then p\<lparr>init_state := icw_done s\<rparr>
         else p\<lparr>special_fully_nested_mode := bit val 4, auto_eoi := bit val 1, init_state := 0\<rparr>)"

definition unmasked_by :: "hvm_hw_vpic \<Rightarrow> nat \<Rightarrow> byte \<Rightarrow> byte" where
  "unmasked_by p addr val =
     (if addr mod 2 = 0 then (if bit val 4 then imr p else 0)
      else if init_state p mod 4 = 0 then imr p AND NOT val else 0)"

definition write_pic :: "hvm_hw_vpic \<Rightarrow> nat \<Rightarrow> byte \<Rightarrow> hvm_hw_vpic" where
  "write_pic p addr val =
     (if addr mod 2 = 0 then
        (if bit val 4 then write_icw1 p val
         else if bit val 3 then write_ocw3 p val
         else write_ocw2 p val)
      else write_data p val)"

definition vpic_ioport_write :: "bool \<Rightarrow> nat \<Rightarrow> byte \<Rightarrow> vpics \<Rightarrow> vpics" where
  "vpic_ioport_write slave addr val st =
     (let p = get_pic slave st;
          st1 = vpic_update_int_output slave (set_pic slave (write_pic p addr val) st)
      in if unmasked_by p addr val \<noteq> 0 then st1\<lparr>pic_unmask := pic_unmask st1 + 1\<rparr> else st1)"

definition vpic_ioport_read :: "bool \<Rightarrow> nat \<Rightarrow> vpics \<Rightarrow> int \<times> vpics" where
  "vpic_ioport_read slave addr st =
     (let p = get_pic slave st
      in if poll p then vpic_intack slave (set_pic slave (p\<lparr>poll := False\<rparr>) st)
         else if addr mod 2 = 0 then (int (unat (if readsel_isr p then isr p else irr p)), st)
         else (int (unat (imr p)), st))"

datatype ioreq_dir = IOREQ_WRITE | IOREQ_READ

text \<open>The value returned is what the guest reads; a write returns its argument.\<close>

definition vpic_intercept_pic_io :: "ioreq_dir \<Rightarrow> nat \<Rightarrow> nat \<Rightarrow> u32w \<Rightarrow> vpics \<Rightarrow> u32w \<times> vpics" where
  "vpic_intercept_pic_io dir port bytes val st =
     (if bytes \<noteq> 1 then (val, st)
      else let slave = (port div 128 = 1)
           in case dir of
                IOREQ_WRITE \<Rightarrow> (val, vpic_ioport_write slave port (ucast val) st)
              | IOREQ_READ \<Rightarrow>
                  (let (v, st1) = vpic_ioport_read slave port st in (ucast (word_of_int v :: byte), st1)))"

definition vpic_elcr_mask :: "hvm_hw_vpic \<Rightarrow> byte" where
  "vpic_elcr_mask p = (if is_master p then 0xf8 else 0xde)"

definition vpic_intercept_elcr_io :: "ioreq_dir \<Rightarrow> nat \<Rightarrow> nat \<Rightarrow> u32w \<Rightarrow> vpics \<Rightarrow> u32w \<times> vpics" where
  "vpic_intercept_elcr_io dir port bytes val st =
     (if bytes \<noteq> 1 then (val, st\<lparr>pic_bug := True\<rparr>)
      else let slave = (port mod 2 = 1); p = get_pic slave st
           in case dir of
                IOREQ_WRITE \<Rightarrow>
                  (let data = ucast val AND vpic_elcr_mask p;
                       data' = (if is_master p then data OR push_bit 2 1 else data)
                   in (val, set_pic slave (p\<lparr>elcr := data'\<rparr>) st))
              | IOREQ_READ \<Rightarrow> (ucast (elcr p AND vpic_elcr_mask p), st))"

section \<open>Reset, edges, acknowledge\<close>

definition pic_zero :: hvm_hw_vpic where
  "pic_zero = \<lparr>irr = 0, imr = 0, isr = 0, irq_base = 0, init_state = 0, priority_add = 0,
     readsel_isr = False, poll = False, auto_eoi = False, rotate_on_auto_eoi = False,
     special_fully_nested_mode = False, special_mask_mode = False, is_master = False,
     elcr = 0, int_output = False\<rparr>"

definition vpic_reset :: "vpics \<Rightarrow> vpics" where
  "vpic_reset st =
     st\<lparr>pic_m := pic_zero\<lparr>is_master := True, elcr := push_bit 2 1\<rparr>, pic_s := pic_zero\<rparr>"

definition vpic_irq_positive_edge :: "nat \<Rightarrow> vpics \<Rightarrow> vpics" where
  "vpic_irq_positive_edge irq st =
     (let slave = (irq div 8 = 1); i = irq mod 8; p = get_pic slave st
      in if irq = 2 then st
         else let st1 = set_pic slave (p\<lparr>irr := irr p OR push_bit i 1\<rparr>) st
              in if \<not> bit (imr p) i then vpic_update_int_output slave st1 else st1)"

definition vpic_irq_negative_edge :: "nat \<Rightarrow> vpics \<Rightarrow> vpics" where
  "vpic_irq_negative_edge irq st =
     (let slave = (irq div 8 = 1); i = irq mod 8; p = get_pic slave st
      in if irq = 2 then st
         else let st1 = set_pic slave (p\<lparr>irr := irr p AND NOT (push_bit i 1)\<rparr>) st
              in if \<not> bit (imr p) i then vpic_update_int_output slave st1 else st1)"

definition vpic_ack_pending_irq :: "bool \<Rightarrow> vpics \<Rightarrow> int \<times> vpics" where
  "vpic_ack_pending_irq accept_pic_intr st =
     (if \<not> accept_pic_intr \<or> \<not> int_output (pic_m st) then (- 1, st)
      else (case vpic_intack False st of
              (irq, st1) \<Rightarrow>
                if irq = - 1 then (- 1, st1)
                else (int (unat (irq_base (get_pic (nat irq div 8 = 1) st1))) + irq mod 8, st1)))"

section \<open>Priorities are what the 8259 prescribes\<close>

text \<open>The line that has priority \<open>i\<close> when \<open>pa\<close> is the line of highest priority.\<close>

abbreviation line_of :: "hvm_hw_vpic \<Rightarrow> nat \<Rightarrow> nat" where
  "line_of p i \<equiv> (i + priority_add p) mod 8"

lemma bit_2p [simp]: "bit (2 ^ i :: byte) j \<longleftrightarrow> j = i \<and> i < 8"
  by (auto simp: bit_exp_iff)

lemma bit_4 [simp]: "bit (4 :: byte) j \<longleftrightarrow> j = 2" "bit (4 :: int) j \<longleftrightarrow> j = 2"
  using bit_2p [of 2 j] bit_exp_iff [of 2 j, where ?'a = int] by auto

lemma bit_byte_less: "bit (w :: byte) i \<Longrightarrow> i < 8"
  using bit_imp_le_length [of w i] by simp

lemma bsf8_spec:
  assumes "w \<noteq> 0"
  shows "bsf8 w < 8 \<and> bit w (bsf8 w) \<and> (\<forall>j < bsf8 w. \<not> bit w j)"
proof -
  from assms obtain k where "bit w k" by (auto simp: bit_eq_iff)
  then have "k \<in> set (filter (bit w) [0..<8])" using bit_byte_less by auto
  then obtain i xs where f: "filter (bit w) [0..<8] = i # xs" by (cases "filter (bit w) [0..<8]") auto
  then have "i \<in> set (filter (bit w) [0..<8])" by simp
  then have i: "i < 8" "bit w i" by auto
  have "sorted (filter (bit w) [0..<8])" by (simp add: sorted_wrt_filter)
  then have "\<forall>j \<in> set (filter (bit w) [0..<8]). i \<le> j" unfolding f by auto
  then have all: "i \<le> j" if "j < 8" "bit w j" for j using that unfolding set_filter set_upt by auto
  have "\<not> bit w j" if "j < i" for j using all [of j] that i by auto
  with i f show ?thesis by (simp add: bsf8_def)
qed

lemma rotr_nonzero:
  assumes "(m :: byte) \<noteq> 0"
  shows "word_rotr n m \<noteq> 0"
proof -
  from assms obtain k where k: "bit m k" by (auto simp: bit_eq_iff)
  have "((k + 7 * n) mod 8 + n) mod 8 = (k + 8 * n) mod 8" by (simp add: mod_add_left_eq)
  also have "\<dots> = k" using bit_byte_less [OF k] by simp
  finally have "bit (word_rotr n m) ((k + 7 * n) mod 8)" using k by (simp add: bit_word_rotr_iff)
  then show ?thesis by auto
qed

lemma get_priority_spec:
  assumes "m \<noteq> 0"
  shows "vpic_get_priority p m < 8 \<and> bit m (line_of p (vpic_get_priority p m)) \<and>
    (\<forall>j < vpic_get_priority p m. \<not> bit m (line_of p j))"
  using bsf8_spec [OF rotr_nonzero [OF assms], of "priority_add p"] assms
  by (auto simp: vpic_get_priority_def bit_word_rotr_iff)

lemma get_priority_none: "vpic_get_priority p m = VPIC_PRIO_NONE \<longleftrightarrow> m = 0"
  using get_priority_spec [of m p] by (auto simp: vpic_get_priority_def VPIC_PRIO_NONE_def)

lemma get_priority_le: "vpic_get_priority p m \<le> 8"
  using get_priority_spec [of m p] by (cases "m = 0") (auto simp: vpic_get_priority_def VPIC_PRIO_NONE_def)

text \<open>When a line is reported, it is requested, not masked, and beats everything in service.\<close>

lemma highest_spec:
  assumes "vpic_get_highest_priority_irq p = int i"
  shows "i < 8" "bit (irr p) i" "\<not> bit (imr p) i"
    "\<exists>n < 8. i = line_of p n \<and> (\<forall>k < n. \<not> bit (irr p AND NOT (imr p)) (line_of p k)) \<and>
       (\<forall>k \<le> n. \<not> bit (in_service_mask p i) (line_of p k))"
proof -
  let ?m = "irr p AND NOT (imr p)" let ?n = "vpic_get_priority p ?m"
  have nz: "?m \<noteq> 0" and i: "i = line_of p ?n"
    and lt: "?n < vpic_get_priority p (in_service_mask p i)"
    using assms by (auto simp: vpic_get_highest_priority_irq_def Let_def get_priority_none split: if_splits)
  note s = get_priority_spec [OF nz, of p]
  show "i < 8" using i by simp
  show "bit (irr p) i" "\<not> bit (imr p) i" using s i by (auto simp: bit_simps)
  have "\<not> bit (in_service_mask p i) (line_of p k)" if "k \<le> ?n" for k
  proof (cases "in_service_mask p i = 0")
    case False
    then show ?thesis using get_priority_spec [OF False, of p] that lt by auto
  qed simp
  with s i show "\<exists>n < 8. i = line_of p n \<and> (\<forall>k < n. \<not> bit ?m (line_of p k)) \<and>
       (\<forall>k \<le> n. \<not> bit (in_service_mask p i) (line_of p k))"
    by blast
qed

lemma highest_cases: "vpic_get_highest_priority_irq p = - 1 \<or> (\<exists>i < 8. vpic_get_highest_priority_irq p = int i)"
  by (auto simp: vpic_get_highest_priority_irq_def Let_def)

section \<open>The cascade invariant\<close>

definition vpics_inv :: "vpics \<Rightarrow> bool" where
  "vpics_inv st \<longleftrightarrow>
     is_master (pic_m st) \<and> \<not> is_master (pic_s st) \<and>
     bit (elcr (pic_m st)) 2 \<and>
     int_output (pic_m st) = irq_line (pic_m st) \<and> int_output (pic_s st) = irq_line (pic_s st) \<and>
     bit (irr (pic_m st)) 2 = int_output (pic_s st) \<and>
     priority_add (pic_m st) < 8 \<and> priority_add (pic_s st) < 8 \<and> \<not> pic_bug st"

text \<open>Only five fields matter for the INT line.\<close>

lemma irq_line_cong:
  assumes "irr p' AND NOT (imr p') = irr p AND NOT (imr p)" "imr p' = imr p" "isr p' = isr p"
    "priority_add p' = priority_add p" "is_master p' = is_master p"
    "special_fully_nested_mode p' = special_fully_nested_mode p"
    "special_mask_mode p' = special_mask_mode p"
  shows "irq_line p' = irq_line p"
  using assms by (simp add: irq_line_def vpic_get_highest_priority_irq_def vpic_get_priority_def
      in_service_mask_def Let_def)

lemma irq_line_int_output [simp]: "irq_line (p\<lparr>int_output := b\<rparr>) = irq_line p"
  by (rule irq_line_cong) auto

text \<open>What an operation may do to one controller before it updates the INT line.\<close>

definition pic_step :: "hvm_hw_vpic \<Rightarrow> hvm_hw_vpic \<Rightarrow> bool" where
  "pic_step p p' \<longleftrightarrow>
     is_master p' = is_master p \<and> int_output p' = int_output p \<and> priority_add p' < 8 \<and>
     (is_master p \<longrightarrow> bit (irr p') 2 = bit (irr p) 2 \<and> bit (elcr p') 2)"

lemma update_master_inv:
  assumes "is_master (pic_m st)" "\<not> is_master (pic_s st)" "bit (elcr (pic_m st)) 2"
    "int_output (pic_s st) = irq_line (pic_s st)" "bit (irr (pic_m st)) 2 = int_output (pic_s st)"
    "priority_add (pic_m st) < 8" "priority_add (pic_s st) < 8" "\<not> pic_bug st"
  shows "vpics_inv (update_master st)"
  using assms by (auto simp: vpics_inv_def update_master_def Let_def)

lemma update_slave_inv:
  assumes "is_master (pic_m st)" "\<not> is_master (pic_s st)" "bit (elcr (pic_m st)) 2"
    "int_output (pic_m st) = irq_line (pic_m st)" "bit (irr (pic_m st)) 2 = int_output (pic_s st)"
    "priority_add (pic_m st) < 8" "priority_add (pic_s st) < 8" "\<not> pic_bug st"
  shows "vpics_inv (update_slave st)"
proof (cases "int_output (pic_s st) = irq_line (pic_s st)")
  case True
  then show ?thesis using assms by (simp add: update_slave_def Let_def vpics_inv_def)
next
  case False
  then show ?thesis
    using assms by (auto simp: update_slave_def Let_def bit_simps intro!: update_master_inv)
qed

lemma pic_step_inv:
  assumes inv: "vpics_inv st" and step: "pic_step (get_pic slave st) p'"
  shows "vpics_inv (vpic_update_int_output slave (set_pic slave p' st))"
proof (cases slave)
  case True
  have "vpics_inv (update_slave (set_pic slave p' st))"
    by (rule update_slave_inv)
      (use assms True in \<open>auto simp: vpics_inv_def set_pic_def get_pic_def pic_step_def\<close>)
  then show ?thesis using True by (simp add: vpic_update_int_output_def)
next
  case False
  have "vpics_inv (update_master (set_pic slave p' st))"
    by (rule update_master_inv)
      (use assms False in \<open>auto simp: vpics_inv_def set_pic_def get_pic_def pic_step_def\<close>)
  then show ?thesis using False by (simp add: vpic_update_int_output_def)
qed

lemma inv_get:
  assumes "vpics_inv st"
  shows "is_master (get_pic slave st) = (\<not> slave)" "priority_add (get_pic slave st) < 8"
    "\<not> slave \<Longrightarrow> bit (elcr (get_pic slave st)) 2" "int_output (get_pic slave st) = irq_line (get_pic slave st)"
  using assms by (auto simp: vpics_inv_def get_pic_def)

section \<open>Every operation keeps the invariant\<close>

lemma write_pic_step:
  assumes "priority_add p < 8" "is_master p \<Longrightarrow> bit (elcr p) 2"
  shows "pic_step p (write_pic p addr val)"
proof -
  have "pic_step p (write_icw1 p val)"
    using assms by (auto simp: pic_step_def write_icw1_def Let_def bit_simps)
  moreover have "pic_step p (write_ocw3 p val)"
    using assms by (auto simp: pic_step_def write_ocw3_def Let_def)
  moreover have "pic_step p (write_ocw2 p val)"
    using assms by (auto simp: pic_step_def write_ocw2_def Let_def)
  moreover have "pic_step p (write_data p val)"
    using assms by (auto simp: pic_step_def write_data_def Let_def)
  ultimately show ?thesis by (simp add: write_pic_def)
qed

lemma vpics_inv_logs [simp]:
  "vpics_inv (st\<lparr>pic_unmask := n\<rparr>) = vpics_inv st" "vpics_inv (st\<lparr>pic_kicks := n\<rparr>) = vpics_inv st"
  by (simp_all add: vpics_inv_def)

lemma ioport_write_inv:
  assumes "vpics_inv st"
  shows "vpics_inv (vpic_ioport_write slave addr val st)"
  using pic_step_inv [OF assms write_pic_step, of slave addr val] inv_get [OF assms, of slave]
  by (auto simp: vpic_ioport_write_def Let_def)

lemma intack_pic_step:
  assumes "priority_add p < 8" "is_master p \<Longrightarrow> bit (elcr p) 2"
  shows "pic_step p (vpic_intack_pic p irq)"
  using assms by (auto simp: pic_step_def vpic_intack_pic_def Let_def bit_simps)

lemma intack1_inv:
  assumes "vpics_inv st"
  shows "vpics_inv (vpic_intack1 slave irq st)"
  using pic_step_inv [OF assms intack_pic_step, of slave irq] inv_get [OF assms, of slave]
  by (auto simp: vpic_intack1_def)

lemma update_master_slave [simp]: "pic_s (update_master st) = pic_s st"
  by (simp add: update_master_def Let_def)

lemma intack1_master_slave [simp]: "pic_s (vpic_intack1 False irq st) = pic_s st"
  by (simp add: vpic_intack1_def vpic_update_int_output_def set_pic_def)

lemma intack_inv:
  assumes inv: "vpics_inv st" and res: "vpic_intack slave st = (irq, st')"
  shows "vpics_inv st' \<and> - 1 \<le> irq \<and> irq < 16 \<and> (int_output (get_pic slave st) \<longrightarrow> 0 \<le> irq)"
proof (cases "int_output (get_pic slave st)")
  case False
  then show ?thesis using res inv by (auto simp: vpic_intack_def)
next
  case True
  let ?p = "get_pic slave st"
  have "irq_line ?p" using inv_get(4) [OF inv, of slave] True by simp
  then obtain i where i: "i < 8" "vpic_get_highest_priority_irq ?p = int i"
    using highest_cases [of ?p] by (auto simp: irq_line_def)
  let ?st1 = "vpic_intack1 slave i st"
  have inv1: "vpics_inv ?st1" by (rule intack1_inv [OF inv])
  show ?thesis
  proof (cases "i = 2 \<and> \<not> slave")
    case casc: True
    then have "bit (irr (pic_m st)) 2" using highest_spec(2) [OF i(2)] by (simp add: get_pic_def)
    then have "irq_line (pic_s ?st1)" using inv casc by (auto simp: vpics_inv_def)
    then obtain j where j: "j < 8" "vpic_get_highest_priority_irq (pic_s ?st1) = int j"
      using highest_cases [of "pic_s ?st1"] by (auto simp: irq_line_def)
    then show ?thesis
      using res True i casc inv_get(1) [OF inv1, of slave] intack1_inv [OF inv1, of True j]
      by (auto simp: vpic_intack_def Let_def)
  next
    case False
    then show ?thesis
      using res True i inv1 inv_get(1) [OF inv1, of slave] by (auto simp: vpic_intack_def Let_def)
  qed
qed

lemma set_pic_same_line:
  assumes "vpics_inv st" "pic_step (get_pic slave st) p'" "irq_line p' = irq_line (get_pic slave st)"
  shows "vpics_inv (set_pic slave p' st)"
  using assms by (auto simp: vpics_inv_def set_pic_def get_pic_def pic_step_def)

lemma edge_step:
  assumes inv: "vpics_inv st" and i: "irq \<noteq> 2" "irq < 16"
    and w: "\<And>j. bit w j = (if j = irq mod 8 then b else bit (irr (get_pic (irq div 8 = 1) st)) j)"
  shows "pic_step (get_pic (irq div 8 = 1) st) ((get_pic (irq div 8 = 1) st)\<lparr>irr := w\<rparr>)"
proof -
  have "irq mod 8 \<noteq> 2" if "irq div 8 \<noteq> 1" using i that by (cases "irq < 8") auto
  then show ?thesis
    using inv_get [OF inv, of "irq div 8 = 1"] w by (auto simp: pic_step_def)
qed

lemma edge_masked:
  assumes "bit (imr p) i" "\<And>j. j \<noteq> i \<Longrightarrow> bit w j = bit (irr p) j"
  shows "irq_line (p\<lparr>irr := w\<rparr>) = irq_line p"
proof (rule irq_line_cong)
  show "irr (p\<lparr>irr := w\<rparr>) AND NOT (imr (p\<lparr>irr := w\<rparr>)) = irr p AND NOT (imr p)"
  proof (rule bit_word_eqI)
    fix n
    show "bit (irr (p\<lparr>irr := w\<rparr>) AND NOT (imr (p\<lparr>irr := w\<rparr>))) n = bit (irr p AND NOT (imr p)) n"
      using assms by (cases "n = i") (auto simp: bit_simps)
  qed
qed auto

lemma edge_inv:
  assumes inv: "vpics_inv st" and i: "irq < 16"
  shows "vpics_inv (vpic_irq_positive_edge irq st)" "vpics_inv (vpic_irq_negative_edge irq st)"
proof -
  let ?s = "irq div 8 = 1" let ?p = "get_pic ?s st"
  have st: "vpics_inv (if \<not> bit (imr ?p) (irq mod 8)
      then vpic_update_int_output ?s (set_pic ?s (?p\<lparr>irr := w\<rparr>) st) else set_pic ?s (?p\<lparr>irr := w\<rparr>) st)"
    if "irq \<noteq> 2" "\<And>j. bit w j = (if j = irq mod 8 then b else bit (irr ?p) j)" for w b
  proof -
    note e = edge_step [OF inv that(1) i that(2)]
    show ?thesis
      using pic_step_inv [OF inv e] set_pic_same_line [OF inv e] edge_masked [of ?p "irq mod 8" w] that(2)
      by auto
  qed
  have cl: "bit (irr ?p AND NOT (push_bit (irq mod 8) 1)) j = (if j = irq mod 8 then False else bit (irr ?p) j)"
    for j using bit_byte_less by (auto simp: bit_simps)
  show "vpics_inv (vpic_irq_positive_edge irq st)"
    using inv st [of "irr ?p OR push_bit (irq mod 8) 1" True]
    by (auto simp: vpic_irq_positive_edge_def Let_def bit_simps)
  show "vpics_inv (vpic_irq_negative_edge irq st)"
    using inv st [of "irr ?p AND NOT (push_bit (irq mod 8) 1)" False, OF _ cl]
    by (auto simp: vpic_irq_negative_edge_def Let_def)
qed

lemma poll_clear_inv:
  assumes "vpics_inv st"
  shows "vpics_inv (set_pic slave ((get_pic slave st)\<lparr>poll := False\<rparr>) st)"
proof (rule set_pic_same_line [OF assms])
  show "irq_line ((get_pic slave st)\<lparr>poll := False\<rparr>) = irq_line (get_pic slave st)"
    by (rule irq_line_cong) auto
qed (use inv_get [OF assms, of slave] in \<open>auto simp: pic_step_def\<close>)

lemma pic_io_inv:
  assumes "vpics_inv st"
  shows "vpics_inv (snd (vpic_intercept_pic_io dir port bytes val st))"
proof -
  have "vpics_inv (snd (vpic_ioport_read slave port st))" for slave
    using assms intack_inv [OF poll_clear_inv [OF assms, of slave], of slave]
    by (cases "vpic_intack slave (set_pic slave ((get_pic slave st)\<lparr>poll := False\<rparr>) st)")
      (auto simp: vpic_ioport_read_def Let_def)
  then show ?thesis
    using assms ioport_write_inv
    by (auto simp: vpic_intercept_pic_io_def Let_def split: ioreq_dir.split prod.split)
      (metis snd_conv)+
qed

lemma elcr_io_inv:
  assumes "vpics_inv st"
  shows "vpics_inv (snd (vpic_intercept_elcr_io dir port 1 val st))"
proof -
  let ?s = "port mod 2 = 1" let ?p = "get_pic ?s st"
  have "vpics_inv (set_pic ?s (?p\<lparr>elcr := w\<rparr>) st)" if "is_master ?p \<Longrightarrow> bit w 2" for w
  proof (rule set_pic_same_line [OF assms])
    show "irq_line (?p\<lparr>elcr := w\<rparr>) = irq_line ?p" by (rule irq_line_cong) auto
  qed (use inv_get [OF assms, of ?s] that in \<open>auto simp: pic_step_def\<close>)
  then show ?thesis
    using assms by (auto simp: vpic_intercept_elcr_io_def Let_def bit_simps split: ioreq_dir.split)
qed

lemma ack_inv:
  assumes "vpics_inv st"
  shows "vpics_inv (snd (vpic_ack_pending_irq acc st))"
  using assms intack_inv [OF assms, of False]
  by (auto simp: vpic_ack_pending_irq_def split: prod.split)

lemma reset_inv: "\<not> pic_bug st \<Longrightarrow> vpics_inv (vpic_reset st)"
proof -
  have "vpic_get_highest_priority_irq p = - 1" if "irr p = 0" for p
    using that by (simp add: vpic_get_highest_priority_irq_def vpic_get_priority_def)
  then show "\<not> pic_bug st \<Longrightarrow> vpics_inv (vpic_reset st)"
    by (simp add: vpics_inv_def vpic_reset_def pic_zero_def irq_line_def)
qed

section \<open>Everything a guest and its devices can do\<close>

inductive pic_reach :: "vpics \<Rightarrow> bool" where
  reach_reset: "\<not> pic_bug st \<Longrightarrow> pic_reach (vpic_reset st)"
| reach_pic_io: "pic_reach st \<Longrightarrow> port \<in> {0x20, 0x21, 0xa0, 0xa1} \<Longrightarrow>
    pic_reach (snd (vpic_intercept_pic_io dir port bytes val st))"
| reach_elcr_io: "pic_reach st \<Longrightarrow> port \<in> {0x4d0, 0x4d1} \<Longrightarrow>
    pic_reach (snd (vpic_intercept_elcr_io dir port 1 val st))"
| reach_positive: "pic_reach st \<Longrightarrow> irq \<le> 15 \<Longrightarrow> pic_reach (vpic_irq_positive_edge irq st)"
| reach_negative: "pic_reach st \<Longrightarrow> irq \<le> 15 \<Longrightarrow> pic_reach (vpic_irq_negative_edge irq st)"
| reach_ack: "pic_reach st \<Longrightarrow> pic_reach (snd (vpic_ack_pending_irq acc st))"

lemma pic_reach_inv: "pic_reach st \<Longrightarrow> vpics_inv st"
  by (induction rule: pic_reach.induct)
    (auto simp: reset_inv pic_io_inv elcr_io_inv [simplified] edge_inv ack_inv)

text \<open>What updating the INT lines leaves alone.\<close>

definition pic_regs :: "hvm_hw_vpic \<Rightarrow> hvm_hw_vpic" where
  "pic_regs p = p\<lparr>irr := irr p AND NOT (push_bit 2 1), int_output := False\<rparr>"

lemma update_regs:
  "pic_regs (pic_m (vpic_update_int_output sl st)) = pic_regs (pic_m st)"
  "(pic_s (vpic_update_int_output sl st))\<lparr>int_output := False\<rparr> = (pic_s st)\<lparr>int_output := False\<rparr>"
proof -
  have m: "(pic_m (update_master st))\<lparr>int_output := False\<rparr> = (pic_m st)\<lparr>int_output := False\<rparr>" for st
    by (simp add: update_master_def Let_def)
  have e: "(w OR push_bit 2 1) AND NOT (push_bit 2 1) = w AND NOT (push_bit 2 1)" for w :: byte
    by (rule bit_word_eqI) (auto simp: bit_simps)
  have "pic_regs (pic_m (update_master st)) = pic_regs (pic_m st)" for st
    by (simp add: update_master_def Let_def pic_regs_def)
  then show "pic_regs (pic_m (vpic_update_int_output sl st)) = pic_regs (pic_m st)"
    using e by (auto simp: vpic_update_int_output_def update_slave_def Let_def pic_regs_def and.assoc)
  show "(pic_s (vpic_update_int_output sl st))\<lparr>int_output := False\<rparr> = (pic_s st)\<lparr>int_output := False\<rparr>"
    by (simp add: vpic_update_int_output_def update_slave_def Let_def)
qed

text \<open>
  C4.  Whatever sequence of port accesses a guest issues, and whatever its devices do to their
  interrupt lines in between, starting from reset: no \<open>BUG_ON\<close> of the interrupt controllers is
  ever reached, the INT output of each controller says whether it has a request to deliver, and
  input 2 of the master is the output of the slave.
\<close>

theorem vpic_cascade_safe:
  assumes "pic_reach st"
  shows "\<not> pic_bug st \<and>
    (int_output (pic_m st) \<longleftrightarrow> 0 \<le> vpic_get_highest_priority_irq (pic_m st)) \<and>
    (int_output (pic_s st) \<longleftrightarrow> 0 \<le> vpic_get_highest_priority_irq (pic_s st)) \<and>
    (bit (irr (pic_m st)) 2 \<longleftrightarrow> int_output (pic_s st))"
  using pic_reach_inv [OF assms] by (auto simp: vpics_inv_def irq_line_def)

lemma pic_regs_fields:
  assumes "pic_regs p = pic_regs q"
  shows "isr p = isr q" "imr p = imr q" "irq_base p = irq_base q" "auto_eoi p = auto_eoi q"
    "elcr p = elcr q" "i \<noteq> 2 \<Longrightarrow> bit (irr p) i = bit (irr q) i"
proof -
  have "irr p AND NOT (push_bit 2 1) = irr q AND NOT (push_bit 2 1)"
    using arg_cong [OF assms, of irr] by (simp add: pic_regs_def)
  then have b: "bit (irr p AND NOT (push_bit 2 1)) i = bit (irr q AND NOT (push_bit 2 1)) i" by simp
  show "i \<noteq> 2 \<Longrightarrow> bit (irr p) i = bit (irr q) i"
    using b bit_byte_less by (auto simp: bit_simps)
  show "isr p = isr q" "imr p = imr q" "irq_base p = irq_base q" "auto_eoi p = auto_eoi q" "elcr p = elcr q"
    using arg_cong [OF assms, of isr] arg_cong [OF assms, of imr] arg_cong [OF assms, of irq_base]
      arg_cong [OF assms, of auto_eoi] arg_cong [OF assms, of elcr] by (simp_all add: pic_regs_def)
qed

text \<open>One controller acknowledges line \<open>i\<close>.\<close>

lemma intack_pic_bits:
  assumes "i < 8"
  shows "\<not> auto_eoi p \<Longrightarrow> bit (isr (vpic_intack_pic p i)) i"
    "\<not> bit (elcr p) i \<Longrightarrow> \<not> bit (irr (vpic_intack_pic p i)) i"
    "irq_base (vpic_intack_pic p i) = irq_base p"
  using assms by (auto simp: vpic_intack_pic_def Let_def bit_simps)

lemma intack1_bits:
  assumes "i < 8" "sl \<or> i \<noteq> 2"
  shows "\<not> auto_eoi (get_pic sl st) \<Longrightarrow> bit (isr (get_pic sl (vpic_intack1 sl i st))) i"
    "\<not> bit (elcr (get_pic sl st)) i \<Longrightarrow> \<not> bit (irr (get_pic sl (vpic_intack1 sl i st))) i"
    "irq_base (get_pic sl (vpic_intack1 sl i st)) = irq_base (get_pic sl st)"
proof -
  let ?p = "get_pic sl st" and ?p' = "get_pic sl (vpic_intack1 sl i st)"
  have "isr ?p' = isr (vpic_intack_pic ?p i) \<and> irq_base ?p' = irq_base (vpic_intack_pic ?p i) \<and>
    bit (irr ?p') i = bit (irr (vpic_intack_pic ?p i)) i"
  proof (cases sl)
    case True
    have "?p'\<lparr>int_output := False\<rparr> = (vpic_intack_pic ?p i)\<lparr>int_output := False\<rparr>"
      using update_regs(2) [of sl "set_pic sl (vpic_intack_pic ?p i) st"] True
      by (simp add: vpic_intack1_def get_pic_def set_pic_def)
    from arg_cong [OF this, of isr] arg_cong [OF this, of irq_base] arg_cong [OF this, of irr]
    show ?thesis by simp
  next
    case False
    have "pic_regs ?p' = pic_regs (vpic_intack_pic ?p i)"
      using update_regs(1) [of sl "set_pic sl (vpic_intack_pic ?p i) st"] False
      by (simp add: vpic_intack1_def get_pic_def set_pic_def)
    from pic_regs_fields(1,3) [OF this] pic_regs_fields(6) [OF this, of i]
    show ?thesis using assms(2) False by simp
  qed
  then show "\<not> auto_eoi ?p \<Longrightarrow> bit (isr ?p') i" "\<not> bit (elcr ?p) i \<Longrightarrow> \<not> bit (irr ?p') i"
    "irq_base ?p' = irq_base ?p"
    using intack_pic_bits [OF assms(1), of ?p] by auto
qed

lemma ack_cases:
  assumes inv: "vpics_inv st" and out: "int_output (pic_m st)"
  obtains (direct) i where "i < 8" "i \<noteq> 2" "vpic_get_highest_priority_irq (pic_m st) = int i"
      "vpic_intack False st = (int i, vpic_intack1 False i st)"
  | (cascade) j where "j < 8" "vpic_get_highest_priority_irq (pic_m st) = 2"
      "vpic_get_highest_priority_irq (pic_s st) = int j"
      "vpic_intack False st = (int j + 8, vpic_intack1 True j (vpic_intack1 False 2 st))"
proof -
  have "irq_line (pic_m st)" using inv out by (simp add: vpics_inv_def)
  then obtain i where i: "i < 8" "vpic_get_highest_priority_irq (pic_m st) = int i"
    using highest_cases [of "pic_m st"] by (auto simp: irq_line_def)
  have ms: "is_master (pic_m (vpic_intack1 False i st))"
    using inv_get(1) [OF intack1_inv [OF inv], of False False i] by (simp add: get_pic_def)
  show thesis
  proof (cases "i = 2")
    case False
    then show thesis
      using direct [OF i(1) False i(2)] i out by (simp add: vpic_intack_def Let_def get_pic_def)
  next
    case True
    then have "irq_line (pic_s st)" using highest_spec(2) [OF i(2)] inv by (auto simp: vpics_inv_def)
    then obtain j where j: "j < 8" "vpic_get_highest_priority_irq (pic_s st) = int j"
      using highest_cases [of "pic_s st"] by (auto simp: irq_line_def)
    then show thesis
      using cascade [OF j(1) _ j(2)] i True out ms by (simp add: vpic_intack_def Let_def get_pic_def)
  qed
qed

text \<open>
  C5.  When the controllers raise their INT output and the virtual CPU acknowledges, it gets the
  vector of a line that is requested, not masked and of highest priority in its controller; that
  line is then in service (unless automatic end-of-interrupt is on) and an edge-triggered request
  has been consumed, so that it is delivered once.
\<close>

theorem vpic_ack_delivers:
  assumes "pic_reach st" "int_output (pic_m st)"
  shows "\<exists>i < 16. i \<noteq> 2 \<and>
    (let k = i mod 8; sl = (i div 8 = 1); p = get_pic sl st; (v, st') = vpic_ack_pending_irq True st
     in v = int (unat (irq_base p)) + int k \<and>
        bit (irr p) k \<and> \<not> bit (imr p) k \<and> vpic_get_highest_priority_irq p = int k \<and>
        (\<not> auto_eoi p \<longrightarrow> bit (isr (get_pic sl st')) k) \<and>
        (\<not> bit (elcr p) k \<longrightarrow> \<not> bit (irr (get_pic sl st')) k))"
  using pic_reach_inv [OF assms(1)] assms(2)
proof (cases rule: ack_cases)
  case (direct i)
  note h = highest_spec(2,3) [OF direct(3)]
  show ?thesis
    using direct h assms(2) intack1_bits [of i False st]
    by (intro exI [of _ i]) (simp add: vpic_ack_pending_irq_def get_pic_def Let_def)
next
  case (cascade j)
  note h = highest_spec(2,3) [OF cascade(3)]
  have d: "(j + 8) div 8 = 1" "(j + 8) mod 8 = j" "(int j + 8) mod 8 = int j" "nat (int j + 8) = j + 8"
    using cascade(1) by auto
  show ?thesis
    using cascade h assms(2) intack1_bits [of j True "vpic_intack1 False 2 st"]
    by (intro exI [of _ "j + 8"]) (simp add: vpic_ack_pending_irq_def get_pic_def Let_def d)
qed

text \<open>An instance: after reset, a device on the slave raises line 13.\<close>

definition sample_pics :: vpics where
  "sample_pics = vpic_irq_positive_edge 13 (vpic_reset
     \<lparr>pic_m = pic_zero, pic_s = pic_zero, i8259_target = True, pic_kicks = 0, pic_unmask = 0, pic_bug = False\<rparr>)"

lemma sample_pics_reach: "pic_reach sample_pics"
  unfolding sample_pics_def by (intro pic_reach.intros) simp_all

theorem vpic_cascade_safe_witness:
  "\<not> pic_bug sample_pics \<and>
    (int_output (pic_m sample_pics) \<longleftrightarrow> 0 \<le> vpic_get_highest_priority_irq (pic_m sample_pics)) \<and>
    (int_output (pic_s sample_pics) \<longleftrightarrow> 0 \<le> vpic_get_highest_priority_irq (pic_s sample_pics)) \<and>
    (bit (irr (pic_m sample_pics)) 2 \<longleftrightarrow> int_output (pic_s sample_pics))"
  using vpic_cascade_safe [OF sample_pics_reach] .

lemma sample_pics_out: "int_output (pic_m sample_pics)"
  by code_simp

theorem vpic_ack_delivers_witness:
  "int_output (pic_m sample_pics) \<and> (\<exists>i < 16. i \<noteq> 2 \<and>
    (let k = i mod 8; sl = (i div 8 = 1); p = get_pic sl sample_pics;
         (v, st') = vpic_ack_pending_irq True sample_pics
     in v = int (unat (irq_base p)) + int k \<and>
        bit (irr p) k \<and> \<not> bit (imr p) k \<and> vpic_get_highest_priority_irq p = int k \<and>
        (\<not> auto_eoi p \<longrightarrow> bit (isr (get_pic sl st')) k) \<and>
        (\<not> bit (elcr p) k \<longrightarrow> \<not> bit (irr (get_pic sl st')) k)))"
  using vpic_ack_delivers [OF sample_pics_reach sample_pics_out] sample_pics_out by blast

end
