(* ===== verification/Hvm_Irq.thy ===== *)
theory Hvm_Irq
  imports Vpic
begin

text \<open>
  Interrupt distribution of an HVM guest, \<open>xen/arch/x86/hvm/irq.c\<close>: the wires of the PCI bus and
  of the ISA devices, the four PCI-ISA links and their routing, and the reference counts that
  turn wire-OR into edges for the IO-APIC and the PICs.  Delivery by the IO-APIC is outside the
  component; the positive edges it is told about are recorded in order, newest first.
\<close>

section \<open>State\<close>

datatype callback_via =
    Callback_none
  | Callback_gsi (via_gsi: nat)
  | Callback_pci_intx (via_dev: nat) (via_intx: nat)
  | Callback_vector (via_vector: nat)

record hvm_irq =
  pci_intx :: "nat \<Rightarrow> bool"                    \<comment> \<open>bit \<open>device * 4 + INTx\<close> of the bitmap\<close>
  isa_irq :: "nat \<Rightarrow> bool"
  pci_link_route :: "nat \<Rightarrow> nat"
  callback_via_asserted :: bool
  callback_via :: callback_via
  pci_link_assert_count :: "nat \<Rightarrow> nat"
  gsi_assert_count :: "nat \<Rightarrow> nat"
  irq_pics :: vpics
  vioapic_edges :: "(nat \<times> nat option) list" \<comment> \<open>GSI and target VCPU, \<open>None\<close> for \<open>VCPUID_ANY\<close>\<close>

definition VIOAPIC_NUM_PINS :: nat where "VIOAPIC_NUM_PINS = 48"

definition u8_inc :: "nat \<Rightarrow> nat" where "u8_inc n = (n + 1) mod 256"
definition u8_dec :: "nat \<Rightarrow> nat" where "u8_dec n = (n + 255) mod 256"

definition hvm_pci_intx_gsi :: "nat \<Rightarrow> nat \<Rightarrow> nat" where
  "hvm_pci_intx_gsi dev intx = (dev * 4 + dev div 8 + intx) mod 32 + 16"

definition hvm_pci_intx_link :: "nat \<Rightarrow> nat \<Rightarrow> nat" where
  "hvm_pci_intx_link dev intx = (dev + intx) mod 4"

definition hvm_isa_irq_to_gsi :: "nat \<Rightarrow> nat" where
  "hvm_isa_irq_to_gsi i = (if i \<noteq> 0 then i else 2)"

section \<open>Edges\<close>

definition assert_gsi :: "nat \<Rightarrow> nat option \<Rightarrow> hvm_irq \<Rightarrow> hvm_irq" where
  "assert_gsi gsi vcpu h = h\<lparr>vioapic_edges := (gsi, vcpu) # vioapic_edges h\<rparr>"

definition assert_irq :: "nat \<Rightarrow> nat \<Rightarrow> nat option \<Rightarrow> hvm_irq \<Rightarrow> hvm_irq" where
  "assert_irq gsi pic_irq vcpu h =
     (let h1 = assert_gsi gsi vcpu h in h1\<lparr>irq_pics := vpic_irq_positive_edge pic_irq (irq_pics h1)\<rparr>)"

definition deassert_irq :: "nat \<Rightarrow> hvm_irq \<Rightarrow> hvm_irq" where
  "deassert_irq i h = h\<lparr>irq_pics := vpic_irq_negative_edge i (irq_pics h)\<rparr>"

definition gsi_up :: "nat \<Rightarrow> hvm_irq \<Rightarrow> hvm_irq" where
  "gsi_up g h = h\<lparr>gsi_assert_count := (gsi_assert_count h)(g := u8_inc (gsi_assert_count h g))\<rparr>"

definition gsi_down :: "nat \<Rightarrow> hvm_irq \<Rightarrow> hvm_irq" where
  "gsi_down g h = h\<lparr>gsi_assert_count := (gsi_assert_count h)(g := u8_dec (gsi_assert_count h g))\<rparr>"

section \<open>PCI wires\<close>

text \<open>The part of the wire functions that drives the PCI-ISA link.\<close>

definition link_up :: "nat \<Rightarrow> hvm_irq \<Rightarrow> hvm_irq" where
  "link_up link h =
     (let isa = pci_link_route h link; lc = pci_link_assert_count h link;
          h1 = h\<lparr>pci_link_assert_count := (pci_link_assert_count h)(link := u8_inc lc)\<rparr>
      in if lc = 0 \<and> isa \<noteq> 0 then
           (let h2 = gsi_up isa h1
            in if gsi_assert_count h1 isa = 0 then assert_irq isa isa None h2 else h2)
         else h1)"

definition link_down :: "nat \<Rightarrow> hvm_irq \<Rightarrow> hvm_irq" where
  "link_down link h =
     (let isa = pci_link_route h link; lc = u8_dec (pci_link_assert_count h link);
          h1 = h\<lparr>pci_link_assert_count := (pci_link_assert_count h)(link := lc)\<rparr>
      in if lc = 0 \<and> isa \<noteq> 0 then
           (let h2 = gsi_down isa h1
            in if gsi_assert_count h2 isa = 0 then deassert_irq isa h2 else h2)
         else h1)"

definition hvm_pci_intx_assert :: "nat \<Rightarrow> nat \<Rightarrow> hvm_irq \<Rightarrow> hvm_irq" where
  "hvm_pci_intx_assert dev intx h =
     (let w = dev * 4 + intx; gsi = hvm_pci_intx_gsi dev intx
      in if pci_intx h w then h
         else
           (let h1 = h\<lparr>pci_intx := (pci_intx h)(w := True)\<rparr>;
                h2 = gsi_up gsi h1;
                h3 = (if gsi_assert_count h1 gsi = 0 then assert_gsi gsi None h2 else h2)
            in link_up (hvm_pci_intx_link dev intx) h3))"

definition hvm_pci_intx_deassert :: "nat \<Rightarrow> nat \<Rightarrow> hvm_irq \<Rightarrow> hvm_irq" where
  "hvm_pci_intx_deassert dev intx h =
     (let w = dev * 4 + intx; gsi = hvm_pci_intx_gsi dev intx
      in if \<not> pci_intx h w then h
         else
           (let h1 = h\<lparr>pci_intx := (pci_intx h)(w := False)\<rparr>
            in link_down (hvm_pci_intx_link dev intx) (gsi_down gsi h1)))"

section \<open>ISA wires\<close>

definition hvm_isa_irq_assert_to_cpu :: "nat \<Rightarrow> nat option \<Rightarrow> hvm_irq \<Rightarrow> hvm_irq" where
  "hvm_isa_irq_assert_to_cpu i vcpu h =
     (let gsi = hvm_isa_irq_to_gsi i
      in if isa_irq h i then h
         else
           (let h1 = h\<lparr>isa_irq := (isa_irq h)(i := True)\<rparr>; h2 = gsi_up gsi h1
            in if gsi_assert_count h1 gsi = 0 then assert_irq gsi i vcpu h2 else h2))"

definition hvm_isa_irq_assert :: "nat \<Rightarrow> hvm_irq \<Rightarrow> hvm_irq" where
  "hvm_isa_irq_assert i h =
     (let gsi = hvm_isa_irq_to_gsi i
      in if isa_irq h i then h
         else
           (let h1 = h\<lparr>isa_irq := (isa_irq h)(i := True)\<rparr>; h2 = gsi_up gsi h1
            in if gsi_assert_count h1 gsi = 0 then assert_irq gsi i None h2 else h2))"

definition hvm_isa_irq_deassert :: "nat \<Rightarrow> hvm_irq \<Rightarrow> hvm_irq" where
  "hvm_isa_irq_deassert i h =
     (let gsi = hvm_isa_irq_to_gsi i
      in if \<not> isa_irq h i then h
         else
           (let h1 = h\<lparr>isa_irq := (isa_irq h)(i := False)\<rparr>; h2 = gsi_down gsi h1
            in if gsi_assert_count h2 gsi = 0 then deassert_irq i h2 else h2))"

section \<open>Routing and callbacks\<close>

text \<open>There is no PCI pass-through in uXen, so the \<open>dpci\<close> fix-up of the map is never taken.\<close>

definition hvm_set_pci_link_route :: "nat \<Rightarrow> nat \<Rightarrow> hvm_irq \<Rightarrow> hvm_irq" where
  "hvm_set_pci_link_route link isa h =
     (let old = pci_link_route h link
      in if old = isa then h
         else
           (let h1 = h\<lparr>pci_link_route := (pci_link_route h)(link := isa)\<rparr>
            in if pci_link_assert_count h1 link = 0 then h1
               else
                 (let h2 = (if old \<noteq> 0 then gsi_down old h1 else h1);
                      h3 = (if old \<noteq> 0 \<and> gsi_assert_count h2 old = 0 then deassert_irq old h2 else h2);
                      h4 = (if isa \<noteq> 0 then gsi_up isa h3 else h3)
                  in if isa \<noteq> 0 \<and> gsi_assert_count h3 isa = 0 then assert_irq isa isa None h4 else h4)))"

definition hvm_set_callback_via :: "nat \<Rightarrow> hvm_irq \<Rightarrow> hvm_irq" where
  "hvm_set_callback_via via h =
     (let t0 = (via div 2 ^ 56) mod 256 + 1;
          via_type = (if t0 mod 256 = 1 \<and> via = 0 \<or> 3 < t0 mod 256 then 0 else t0 mod 256);
          h1 = (if \<not> callback_via_asserted h then h
                else case callback_via h of
                  Callback_gsi g \<Rightarrow>
                    (let h' = gsi_down g h
                     in if gsi_assert_count h' g = 0 \<and> g \<le> 15
                        then h'\<lparr>irq_pics := vpic_irq_negative_edge g (irq_pics h')\<rparr> else h')
                | Callback_pci_intx d i \<Rightarrow> hvm_pci_intx_deassert d i h
                | _ \<Rightarrow> h)
      in if via_type = 1 then
           (let g = via mod 256
            in if g = 0 \<or> VIOAPIC_NUM_PINS \<le> g then h1\<lparr>callback_via := Callback_none\<rparr>
               else
                 (let h2 = h1\<lparr>callback_via := Callback_gsi g\<rparr>; h3 = gsi_up g h2
                  in if \<not> callback_via_asserted h2 then h2
                     else if gsi_assert_count h2 g = 0 then
                       (let h4 = assert_gsi g None h3
                        in if g \<le> 15 then h4\<lparr>irq_pics := vpic_irq_positive_edge g (irq_pics h4)\<rparr> else h4)
                     else h3))
         else if via_type = 2 then
           (let d = (via div 2 ^ 11) mod 32; i = via mod 4;
                h2 = h1\<lparr>callback_via := Callback_pci_intx d i\<rparr>
            in if callback_via_asserted h2 then hvm_pci_intx_assert d i h2 else h2)
         else if via_type = 3 then h1\<lparr>callback_via := Callback_vector (via mod 256)\<rparr>
         else h1\<lparr>callback_via := Callback_none\<rparr>)"

section \<open>Save and restore\<close>

text \<open>
  What the save records hold; the counts are not saved but recomputed.  A record to be loaded is \<open>None\<close> when
  \<open>hvm_load_entry\<close> fails.
\<close>

definition irq_save_pci :: "hvm_irq \<Rightarrow> (nat \<Rightarrow> bool) \<times> hvm_irq" where
  "irq_save_pci h =
     (case (callback_via_asserted h, callback_via h) of
        (True, Callback_pci_intx d i) \<Rightarrow>
          (let h1 = hvm_pci_intx_deassert d i h in (pci_intx h1, hvm_pci_intx_assert d i h1))
      | _ \<Rightarrow> (pci_intx h, h))"

definition irq_save_isa :: "hvm_irq \<Rightarrow> nat \<Rightarrow> bool" where
  "irq_save_isa h = isa_irq h"

definition irq_save_link :: "hvm_irq \<Rightarrow> nat \<Rightarrow> nat" where
  "irq_save_link h = pci_link_route h"

definition load_wire :: "nat \<Rightarrow> hvm_irq \<Rightarrow> hvm_irq" where
  "load_wire w h =
     (if pci_intx h w then
        (let h1 = gsi_up (hvm_pci_intx_gsi (w div 4) (w mod 4)) h;
             l = hvm_pci_intx_link (w div 4) (w mod 4)
         in h1\<lparr>pci_link_assert_count :=
              (pci_link_assert_count h1)(l := u8_inc (pci_link_assert_count h1 l))\<rparr>)
      else h)"

definition irq_load_pci :: "(nat \<Rightarrow> bool) option \<Rightarrow> hvm_irq \<Rightarrow> errno option \<times> hvm_irq" where
  "irq_load_pci entry h =
     (case entry of
        None \<Rightarrow> (Some EINVAL, h)
      | Some pci \<Rightarrow>
          (None, fold load_wire [0..<128]
             (h\<lparr>pci_intx := pci,
                pci_link_assert_count := (\<lambda>l. if l < 4 then 0 else pci_link_assert_count h l),
                gsi_assert_count := (\<lambda>g. if g < VIOAPIC_NUM_PINS then 0 else gsi_assert_count h g)\<rparr>)))"

definition irq_load_isa :: "(nat \<Rightarrow> bool) option \<Rightarrow> hvm_irq \<Rightarrow> errno option \<times> hvm_irq" where
  "irq_load_isa entry h =
     (case entry of
        None \<Rightarrow> (Some EINVAL, h)
      | Some isa \<Rightarrow>
          (None, fold (\<lambda>i h. if isa_irq h i then gsi_up (hvm_isa_irq_to_gsi i) h else h) [0..<16]
             (h\<lparr>isa_irq := isa\<rparr>)))"

definition irq_load_link :: "(nat \<Rightarrow> nat) option \<Rightarrow> hvm_irq \<Rightarrow> errno option \<times> hvm_irq" where
  "irq_load_link entry h =
     (case entry of
        None \<Rightarrow> (Some EINVAL, h)
      | Some route \<Rightarrow>
          (let h1 = h\<lparr>pci_link_route := route\<rparr>
           in if list_ex (\<lambda>l. 15 < route l) [0..<4] then (Some EINVAL, h1)
              else (None, fold (\<lambda>l h. if pci_link_assert_count h l \<noteq> 0 \<and> pci_link_route h l \<noteq> 0
                                      then gsi_up (pci_link_route h l) h else h) [0..<4] h1)))"

section \<open>Pending interrupts of a virtual CPU\<close>

datatype hvm_intack =
    Intack_none | Intack_pic (ia_pic: nat) | Intack_lapic (ia_lapic: nat) | Intack_nmi | Intack_mce
  | Intack_vector (ia_vector: nat)

text \<open>What the rest of the hypervisor knows about the VCPU when it is asked.\<close>

record vcpu_pending =
  evtchn_upcall_pending :: bool
  nmi_pending :: bool
  mce_pending :: bool
  accept_pic_intr :: bool
  lapic_vector :: "nat option"

definition pending_rest :: "vcpu_pending \<Rightarrow> hvm_irq \<Rightarrow> hvm_intack" where
  "pending_rest v h =
     (if nmi_pending v then Intack_nmi
      else if mce_pending v then Intack_mce
      else if accept_pic_intr v \<and> int_output (pic_m (irq_pics h)) then Intack_pic 0
      else case lapic_vector v of Some n \<Rightarrow> Intack_lapic n | None \<Rightarrow> Intack_none)"

definition hvm_vcpu_has_pending_irq :: "vcpu_pending \<Rightarrow> hvm_irq \<Rightarrow> hvm_intack" where
  "hvm_vcpu_has_pending_irq v h =
     (case callback_via h of
        Callback_vector n \<Rightarrow> if evtchn_upcall_pending v then Intack_vector n else pending_rest v h
      | _ \<Rightarrow> pending_rest v h)"

text \<open>\<open>vlapic_ack_pending_irq\<close> is told by the argument \<open>lapic_ack\<close>.\<close>

definition hvm_vcpu_ack_pending_irq ::
  "(nat \<Rightarrow> bool) \<Rightarrow> vcpu_pending \<Rightarrow> hvm_intack \<Rightarrow> hvm_irq \<Rightarrow> hvm_intack \<times> vcpu_pending \<times> hvm_irq" where
  "hvm_vcpu_ack_pending_irq lapic_ack v ack h =
     (case ack of
        Intack_nmi \<Rightarrow> (if nmi_pending v then Intack_nmi else Intack_none, v\<lparr>nmi_pending := False\<rparr>, h)
      | Intack_mce \<Rightarrow> (if mce_pending v then Intack_mce else Intack_none, v\<lparr>mce_pending := False\<rparr>, h)
      | Intack_pic _ \<Rightarrow>
          (case vpic_ack_pending_irq (accept_pic_intr v) (irq_pics h) of
             (vec, pics) \<Rightarrow> (if vec = - 1 then Intack_none else Intack_pic (nat (vec mod 256)),
                            v, h\<lparr>irq_pics := pics\<rparr>))
      | Intack_lapic n \<Rightarrow> (if lapic_ack n then Intack_lapic n else Intack_none, v, h)
      | Intack_vector n \<Rightarrow> (Intack_vector n, v, h)
      | Intack_none \<Rightarrow> (Intack_none, v, h))"

section \<open>Counting wires\<close>

definition cnt :: "nat \<Rightarrow> (nat \<Rightarrow> bool) \<Rightarrow> nat" where
  "cnt n P = length (filter P [0..<n])"

lemma cnt_0 [simp]: "cnt 0 P = 0"
  by (simp add: cnt_def)

lemma cnt_Suc: "cnt (Suc n) P = cnt n P + (if P n then 1 else 0)"
  by (simp add: cnt_def)

lemma cnt_le: "cnt n P \<le> n"
  using length_filter_le [of P "[0..<n]"] by (simp add: cnt_def)

lemma cnt_cong: "(\<And>x. x < n \<Longrightarrow> P x = Q x) \<Longrightarrow> cnt n P = cnt n Q"
  by (induction n) (auto simp: cnt_Suc)

lemma cnt_change:
  "(\<And>x. x \<noteq> k \<Longrightarrow> Q x = P x) \<Longrightarrow> k < n \<Longrightarrow>
     cnt n Q + (if P k then 1 else 0) = cnt n P + (if Q k then 1 else 0)"
proof (induction n)
  case (Suc n)
  show ?case
  proof (cases "k = n")
    case True
    then have "cnt n Q = cnt n P" using Suc.prems(1) by (intro cnt_cong) auto
    with True show ?thesis by (simp add: cnt_Suc)
  next
    case False
    then show ?thesis using Suc by (simp add: cnt_Suc)
  qed
qed simp

lemma cnt_zero: "cnt n P = 0 \<longleftrightarrow> (\<forall>x < n. \<not> P x)"
  by (induction n) (auto simp: cnt_Suc less_Suc_eq)

definition gsi_of :: "nat \<Rightarrow> nat" where "gsi_of w = hvm_pci_intx_gsi (w div 4) (w mod 4)"
definition link_of :: "nat \<Rightarrow> nat" where "link_of w = hvm_pci_intx_link (w div 4) (w mod 4)"

definition link_wires :: "(nat \<Rightarrow> bool) \<Rightarrow> nat \<Rightarrow> nat" where
  "link_wires pci l = cnt 128 (\<lambda>w. pci w \<and> link_of w = l)"

text \<open>The number of wires that assert a GSI: PCI wires, ISA wires, and active links routed to it.\<close>

definition gsi_wires :: "(nat \<Rightarrow> bool) \<Rightarrow> (nat \<Rightarrow> bool) \<Rightarrow> (nat \<Rightarrow> nat) \<Rightarrow> nat \<Rightarrow> nat" where
  "gsi_wires pci isa route g =
     cnt 128 (\<lambda>w. pci w \<and> gsi_of w = g) +
     cnt 16 (\<lambda>i. isa i \<and> hvm_isa_irq_to_gsi i = g) +
     cnt 4 (\<lambda>l. 0 < link_wires pci l \<and> route l = g \<and> g \<noteq> 0)"

definition irq_inv :: "hvm_irq \<Rightarrow> bool" where
  "irq_inv h \<longleftrightarrow>
     (\<forall>l < 4. pci_link_assert_count h l = link_wires (pci_intx h) l) \<and>
     (\<forall>g < VIOAPIC_NUM_PINS.
        gsi_assert_count h g = gsi_wires (pci_intx h) (isa_irq h) (pci_link_route h) g) \<and>
     (\<forall>l < 4. pci_link_route h l \<le> 15) \<and> \<not> callback_via_asserted h \<and> vpics_inv (irq_pics h)"

lemma gsi_wires_bound: "gsi_wires pci isa route g \<le> 148"
  using cnt_le [of 128 "\<lambda>w. pci w \<and> gsi_of w = g"] cnt_le [of 16 "\<lambda>i. isa i \<and> hvm_isa_irq_to_gsi i = g"]
    cnt_le [of 4 "\<lambda>l. 0 < link_wires pci l \<and> route l = g \<and> g \<noteq> 0"]
  by (simp add: gsi_wires_def)

lemma link_wires_bound: "link_wires pci l \<le> 128"
  by (simp add: link_wires_def cnt_le)

lemma u8_inc_small: "n < 255 \<Longrightarrow> u8_inc n = n + 1"
  by (simp add: u8_inc_def)

lemma u8_dec_small: "0 < n \<Longrightarrow> n < 256 \<Longrightarrow> u8_dec n = n - 1"
proof -
  assume "0 < n" "n < 256"
  then have "n + 255 = (n - 1) + 256" by simp
  then have "(n + 255) mod 256 = (n - 1) mod 256" by (simp only: mod_add_self2)
  with \<open>n < 256\<close> show ?thesis by (simp add: u8_dec_def)
qed

lemma gsi_of_range: "16 \<le> gsi_of w \<and> gsi_of w < 48"
  by (simp add: gsi_of_def hvm_pci_intx_gsi_def)

lemma link_of_less: "link_of w < 4"
  by (simp add: link_of_def hvm_pci_intx_link_def)

section \<open>How the counts follow the wires\<close>

lemma link_wires_set:
  assumes "\<not> pci w" "w < 128"
  shows "link_wires (pci(w := True)) l = link_wires pci l + (if link_of w = l then 1 else 0)"
  using cnt_change [of w "\<lambda>v. (pci(w := True)) v \<and> link_of v = l" "\<lambda>v. pci v \<and> link_of v = l" 128] assms
  by (auto simp: link_wires_def)

lemma gsi_wires_pci_set:
  assumes "\<not> pci w" "w < 128"
  shows "gsi_wires (pci(w := True)) isa route g = gsi_wires pci isa route g +
    (if gsi_of w = g then 1 else 0) +
    (if link_wires pci (link_of w) = 0 \<and> route (link_of w) = g \<and> g \<noteq> 0 then 1 else 0)"
proof -
  have "cnt 128 (\<lambda>v. (pci(w := True)) v \<and> gsi_of v = g) =
      cnt 128 (\<lambda>v. pci v \<and> gsi_of v = g) + (if gsi_of w = g then 1 else 0)"
    using cnt_change [of w "\<lambda>v. (pci(w := True)) v \<and> gsi_of v = g" "\<lambda>v. pci v \<and> gsi_of v = g" 128] assms
    by auto
  moreover have "cnt 4 (\<lambda>l. 0 < link_wires (pci(w := True)) l \<and> route l = g \<and> g \<noteq> 0) =
      cnt 4 (\<lambda>l. 0 < link_wires pci l \<and> route l = g \<and> g \<noteq> 0) +
      (if link_wires pci (link_of w) = 0 \<and> route (link_of w) = g \<and> g \<noteq> 0 then 1 else 0)"
    (is "cnt 4 ?Q = cnt 4 ?P + _")
  proof -
    have c: "cnt 4 ?Q + (if ?P (link_of w) then 1 else 0) = cnt 4 ?P + (if ?Q (link_of w) then 1 else 0)"
      by (rule cnt_change) (simp_all add: link_wires_set [of pci w, OF assms] link_of_less)
    have "?Q (link_of w) \<longleftrightarrow> route (link_of w) = g \<and> g \<noteq> 0"
      by (simp add: link_wires_set [of pci w, OF assms])
    then show ?thesis
      using c by (cases "route (link_of w) = g \<and> g \<noteq> 0"; cases "link_wires pci (link_of w) = 0") simp_all
  qed
  ultimately show ?thesis by (simp add: gsi_wires_def)
qed

lemma gsi_wires_isa_set:
  assumes "\<not> isa i" "i < 16"
  shows "gsi_wires pci (isa(i := True)) route g = gsi_wires pci isa route g +
    (if hvm_isa_irq_to_gsi i = g then 1 else 0)"
  using cnt_change [of i "\<lambda>v. (isa(i := True)) v \<and> hvm_isa_irq_to_gsi v = g"
      "\<lambda>v. isa v \<and> hvm_isa_irq_to_gsi v = g" 16] assms
  by (auto simp: gsi_wires_def)

lemma gsi_wires_route:
  assumes "l < 4"
  shows "gsi_wires pci isa (route(l := r)) g +
      (if 0 < link_wires pci l \<and> route l = g \<and> g \<noteq> 0 then 1 else 0) =
    gsi_wires pci isa route g + (if 0 < link_wires pci l \<and> r = g \<and> g \<noteq> 0 then 1 else 0)"
  using cnt_change [of l "\<lambda>k. 0 < link_wires pci k \<and> (route(l := r)) k = g \<and> g \<noteq> 0"
      "\<lambda>k. 0 < link_wires pci k \<and> route k = g \<and> g \<noteq> 0" 4] assms
  by (auto simp: gsi_wires_def)

text \<open>The edge functions do not touch wires and counts.\<close>

definition same_wires :: "hvm_irq \<Rightarrow> hvm_irq \<Rightarrow> bool" where
  "same_wires a b \<longleftrightarrow>
     pci_intx b = pci_intx a \<and> isa_irq b = isa_irq a \<and> pci_link_route b = pci_link_route a \<and>
     callback_via_asserted b = callback_via_asserted a \<and>
     pci_link_assert_count b = pci_link_assert_count a \<and> gsi_assert_count b = gsi_assert_count a"

lemma edges_same_wires [simp]:
  "pci_intx (assert_irq g i v h) = pci_intx h" "isa_irq (assert_irq g i v h) = isa_irq h"
  "pci_link_route (assert_irq g i v h) = pci_link_route h"
  "callback_via_asserted (assert_irq g i v h) = callback_via_asserted h"
  "pci_link_assert_count (assert_irq g i v h) = pci_link_assert_count h"
  "gsi_assert_count (assert_irq g i v h) = gsi_assert_count h"
  "pci_intx (deassert_irq i h) = pci_intx h" "isa_irq (deassert_irq i h) = isa_irq h"
  "pci_link_route (deassert_irq i h) = pci_link_route h"
  "callback_via_asserted (deassert_irq i h) = callback_via_asserted h"
  "pci_link_assert_count (deassert_irq i h) = pci_link_assert_count h"
  "gsi_assert_count (deassert_irq i h) = gsi_assert_count h"
  "pci_intx (assert_gsi g v h) = pci_intx h" "isa_irq (assert_gsi g v h) = isa_irq h"
  "pci_link_route (assert_gsi g v h) = pci_link_route h"
  "callback_via_asserted (assert_gsi g v h) = callback_via_asserted h"
  "pci_link_assert_count (assert_gsi g v h) = pci_link_assert_count h"
  "gsi_assert_count (assert_gsi g v h) = gsi_assert_count h"
  "irq_pics (assert_gsi g v h) = irq_pics h"
  by (simp_all add: assert_irq_def deassert_irq_def assert_gsi_def Let_def)

lemma edges_pics:
  assumes "vpics_inv (irq_pics h)" "i < 16"
  shows "vpics_inv (irq_pics (assert_irq g i v h))" "vpics_inv (irq_pics (deassert_irq i h))"
  using edge_inv [OF assms] by (simp_all add: assert_irq_def deassert_irq_def assert_gsi_def Let_def)

lemma gsi_upd_simps [simp]:
  "pci_intx (gsi_up g h) = pci_intx h" "isa_irq (gsi_up g h) = isa_irq h"
  "pci_link_route (gsi_up g h) = pci_link_route h" "irq_pics (gsi_up g h) = irq_pics h"
  "callback_via_asserted (gsi_up g h) = callback_via_asserted h"
  "pci_link_assert_count (gsi_up g h) = pci_link_assert_count h"
  "pci_intx (gsi_down g h) = pci_intx h" "isa_irq (gsi_down g h) = isa_irq h"
  "pci_link_route (gsi_down g h) = pci_link_route h" "irq_pics (gsi_down g h) = irq_pics h"
  "callback_via_asserted (gsi_down g h) = callback_via_asserted h"
  "pci_link_assert_count (gsi_down g h) = pci_link_assert_count h"
  "gsi_assert_count (gsi_up g h) = (gsi_assert_count h)(g := u8_inc (gsi_assert_count h g))"
  "gsi_assert_count (gsi_down g h) = (gsi_assert_count h)(g := u8_dec (gsi_assert_count h g))"
  by (simp_all add: gsi_up_def gsi_down_def)

lemma irq_invD:
  assumes "irq_inv h"
  shows "l < 4 \<Longrightarrow> pci_link_assert_count h l = link_wires (pci_intx h) l"
    "g < 48 \<Longrightarrow> gsi_assert_count h g = gsi_wires (pci_intx h) (isa_irq h) (pci_link_route h) g"
    "l < 4 \<Longrightarrow> pci_link_route h l \<le> 15" "\<not> callback_via_asserted h" "vpics_inv (irq_pics h)"
  using assms by (auto simp: irq_inv_def VIOAPIC_NUM_PINS_def)

lemma isa_gsi_less: "i < 16 \<Longrightarrow> hvm_isa_irq_to_gsi i < 16"
  by (simp add: hvm_isa_irq_to_gsi_def)

lemma isa_assert_inv:
  assumes inv: "irq_inv h" and i: "i < 16"
  shows "irq_inv (hvm_isa_irq_assert_to_cpu i v h)"
proof (cases "isa_irq h i")
  case False
  let ?g = "hvm_isa_irq_to_gsi i"
  let ?h = "gsi_up ?g (h\<lparr>isa_irq := (isa_irq h)(i := True)\<rparr>)"
  have g: "?g < 48" using isa_gsi_less [OF i] by simp
  have up: "u8_inc (gsi_assert_count h ?g) = gsi_assert_count h ?g + 1"
    using irq_invD(2) [OF inv g] gsi_wires_bound [of "pci_intx h" "isa_irq h" "pci_link_route h" ?g]
    by (intro u8_inc_small) linarith
  have "irq_inv ?h"
    using irq_invD [OF inv] up g
    by (auto simp: irq_inv_def VIOAPIC_NUM_PINS_def gsi_wires_isa_set [of "isa_irq h" i, OF False i])
  then have "irq_inv (assert_irq ?g i v ?h)"
    using edges_pics(1) [OF _ i, of ?h] by (simp add: irq_inv_def)
  with \<open>irq_inv ?h\<close> False show ?thesis
    by (simp add: hvm_isa_irq_assert_to_cpu_def Let_def)
qed (simp add: hvm_isa_irq_assert_to_cpu_def inv)

lemma isa_assert_any: "hvm_isa_irq_assert i h = hvm_isa_irq_assert_to_cpu i None h"
  by (simp add: hvm_isa_irq_assert_def hvm_isa_irq_assert_to_cpu_def)

lemma isa_deassert_inv:
  assumes inv: "irq_inv h" and i: "i < 16"
  shows "irq_inv (hvm_isa_irq_deassert i h)"
proof (cases "isa_irq h i")
  case True
  let ?g = "hvm_isa_irq_to_gsi i" and ?isa = "(isa_irq h)(i := False)"
  let ?h = "gsi_down ?g (h\<lparr>isa_irq := ?isa\<rparr>)"
  have g: "?g < 48" using isa_gsi_less [OF i] by simp
  have "isa_irq h = ?isa(i := True)" using True by (auto simp: fun_eq_iff)
  then have w: "gsi_wires (pci_intx h) (isa_irq h) (pci_link_route h) k =
      gsi_wires (pci_intx h) ?isa (pci_link_route h) k + (if ?g = k then 1 else 0)" for k
    using gsi_wires_isa_set [of ?isa i "pci_intx h" "pci_link_route h" k] i by simp
  have pos: "0 < gsi_assert_count h ?g" "gsi_assert_count h ?g < 256"
    using irq_invD(2) [OF inv g] gsi_wires_bound [of "pci_intx h" "isa_irq h" "pci_link_route h" ?g] w [of ?g]
    by auto
  note dn = u8_dec_small [OF pos] pos(1)
  have "irq_inv ?h"
    using irq_invD [OF inv] dn g w
    by (auto simp: irq_inv_def VIOAPIC_NUM_PINS_def)
  then have "irq_inv (deassert_irq i ?h)"
    using edges_pics(2) [OF _ i, of ?h] by (simp add: irq_inv_def)
  with \<open>irq_inv ?h\<close> True show ?thesis
    by (simp add: hvm_isa_irq_deassert_def Let_def)
qed (simp add: hvm_isa_irq_deassert_def inv)

lemma link_up_eq:
  assumes "pci_link_assert_count h l < 255" "isa = pci_link_route h l" "isa \<le> 15" "gsi_assert_count h isa < 255"
    "vpics_inv (irq_pics h)"
  shows "pci_intx (link_up l h) = pci_intx h" "isa_irq (link_up l h) = isa_irq h"
    "pci_link_route (link_up l h) = pci_link_route h"
    "callback_via_asserted (link_up l h) = callback_via_asserted h"
    "pci_link_assert_count (link_up l h) = (pci_link_assert_count h)(l := pci_link_assert_count h l + 1)"
    "gsi_assert_count (link_up l h) = (\<lambda>g. gsi_assert_count h g +
       (if pci_link_assert_count h l = 0 \<and> g = isa \<and> g \<noteq> 0 then 1 else 0))"
    "vpics_inv (irq_pics (link_up l h))"
  using assms edges_pics(1) [of "gsi_up isa (h\<lparr>pci_link_assert_count :=
      (pci_link_assert_count h)(l := u8_inc (pci_link_assert_count h l))\<rparr>)" isa isa None]
  by (auto simp: link_up_def Let_def u8_inc_small fun_eq_iff)

lemma link_down_eq:
  assumes "0 < pci_link_assert_count h l" "pci_link_assert_count h l < 256" "isa = pci_link_route h l"
    "isa \<le> 15" "isa \<noteq> 0 \<longrightarrow> 0 < gsi_assert_count h isa" "gsi_assert_count h isa < 256"
    "vpics_inv (irq_pics h)"
  shows "pci_intx (link_down l h) = pci_intx h" "isa_irq (link_down l h) = isa_irq h"
    "pci_link_route (link_down l h) = pci_link_route h"
    "callback_via_asserted (link_down l h) = callback_via_asserted h"
    "pci_link_assert_count (link_down l h) = (pci_link_assert_count h)(l := pci_link_assert_count h l - 1)"
    "gsi_assert_count (link_down l h) = (\<lambda>g. gsi_assert_count h g -
       (if pci_link_assert_count h l = 1 \<and> g = isa \<and> g \<noteq> 0 then 1 else 0))"
    "vpics_inv (irq_pics (link_down l h))"
  using assms edges_pics(2) [of "gsi_down isa (h\<lparr>pci_link_assert_count :=
      (pci_link_assert_count h)(l := u8_dec (pci_link_assert_count h l))\<rparr>)" isa]
  by (auto simp: link_down_def Let_def u8_dec_small fun_eq_iff)

text \<open>A PCI wire and its number in the bitmap.\<close>

lemma wire_number:
  assumes "dev \<le> 31" "intx \<le> 3"
  shows "dev * 4 + intx < 128" "gsi_of (dev * 4 + intx) = hvm_pci_intx_gsi dev intx"
    "link_of (dev * 4 + intx) = hvm_pci_intx_link dev intx"
proof -
  have "(dev * 4 + intx) div 4 = dev" "(dev * 4 + intx) mod 4 = intx" using assms(2) by auto
  then show "gsi_of (dev * 4 + intx) = hvm_pci_intx_gsi dev intx"
    "link_of (dev * 4 + intx) = hvm_pci_intx_link dev intx" by (simp_all add: gsi_of_def link_of_def)
  show "dev * 4 + intx < 128" using assms by simp
qed

lemma pci_assert_inv:
  assumes inv: "irq_inv h" and d: "dev \<le> 31" "intx \<le> 3"
  shows "irq_inv (hvm_pci_intx_assert dev intx h)"
proof (cases "pci_intx h (dev * 4 + intx)")
  case True
  then show ?thesis using inv by (simp add: hvm_pci_intx_assert_def)
next
  case False
  let ?w = "dev * 4 + intx" let ?g = "gsi_of ?w" and ?l = "link_of ?w"
  let ?isa = "pci_link_route h ?l" and ?pci = "(pci_intx h)(?w := True)"
  note W = wire_number [OF d]
  note I = irq_invD [OF inv]
  have b: "gsi_assert_count h k < 255" if "k < 48" for k
    using I(2) [OF that] gsi_wires_bound [of "pci_intx h" "isa_irq h" "pci_link_route h" k] by simp
  have l4: "?l < 4" "?isa \<le> 15" using link_of_less I(3) by auto
  have lc: "pci_link_assert_count h ?l < 255"
    using I(1) [OF l4(1)] link_wires_bound [of "pci_intx h" ?l] by simp
  have g: "16 \<le> ?g" "?g < 48" using gsi_of_range by auto
  let ?h1 = "h\<lparr>pci_intx := ?pci\<rparr>" let ?h2 = "gsi_up ?g ?h1"
  let ?h3 = "if gsi_assert_count ?h1 ?g = 0 then assert_gsi ?g None ?h2 else ?h2"
  have h3: "pci_intx ?h3 = ?pci" "isa_irq ?h3 = isa_irq h" "pci_link_route ?h3 = pci_link_route h"
    "callback_via_asserted ?h3 = callback_via_asserted h"
    "pci_link_assert_count ?h3 = pci_link_assert_count h" "irq_pics ?h3 = irq_pics h"
    "gsi_assert_count ?h3 = (gsi_assert_count h)(?g := gsi_assert_count h ?g + 1)"
    using u8_inc_small [OF b [OF g(2)]] by auto
  have pre: "pci_link_assert_count ?h3 ?l < 255" "?isa = pci_link_route ?h3 ?l"
    "gsi_assert_count ?h3 ?isa < 255" "vpics_inv (irq_pics ?h3)"
    unfolding h3 using lc l4 g b I(5) by auto
  note L = link_up_eq [OF pre(1,2) l4(2) pre(3,4)]
  have e: "hvm_pci_intx_assert dev intx h = link_up ?l ?h3"
    using False W by (simp add: hvm_pci_intx_assert_def Let_def)
  show ?thesis
    unfolding e irq_inv_def VIOAPIC_NUM_PINS_def L(1-6) h3
    using L(7) I g l4 gsi_wires_pci_set [of "pci_intx h" ?w, OF False W(1)]
      link_wires_set [of "pci_intx h" ?w, OF False W(1)]
    by (auto simp: fun_upd_def)
qed

lemma pci_deassert_inv:
  assumes inv: "irq_inv h" and d: "dev \<le> 31" "intx \<le> 3"
  shows "irq_inv (hvm_pci_intx_deassert dev intx h)"
proof (cases "pci_intx h (dev * 4 + intx)")
  case False
  then show ?thesis using inv by (simp add: hvm_pci_intx_deassert_def)
next
  case True
  let ?w = "dev * 4 + intx" let ?g = "gsi_of ?w" and ?l = "link_of ?w"
  let ?isa = "pci_link_route h ?l" and ?pci = "(pci_intx h)(?w := False)"
  note W = wire_number [OF d]
  note I = irq_invD [OF inv]
  have "pci_intx h = ?pci(?w := True)" using True by (auto simp: fun_eq_iff)
  then have w: "gsi_wires (pci_intx h) isa route k = gsi_wires ?pci isa route k +
      (if ?g = k then 1 else 0) + (if link_wires ?pci ?l = 0 \<and> route ?l = k \<and> k \<noteq> 0 then 1 else 0)"
    and lw: "link_wires (pci_intx h) m = link_wires ?pci m + (if ?l = m then 1 else 0)" for isa route k m
    using gsi_wires_pci_set [of ?pci ?w isa route k] link_wires_set [of ?pci ?w m] W(1) by auto
  have b: "gsi_assert_count h k < 256" if "k < 48" for k
    using I(2) [OF that] gsi_wires_bound [of "pci_intx h" "isa_irq h" "pci_link_route h" k] by simp
  have l4: "?l < 4" "?isa \<le> 15" using link_of_less I(3) by auto
  have lc: "0 < pci_link_assert_count h ?l" "pci_link_assert_count h ?l < 256"
    using I(1) [OF l4(1)] link_wires_bound [of "pci_intx h" ?l] lw [of ?l] by auto
  have g: "16 \<le> ?g" "?g < 48" using gsi_of_range by auto
  have gp: "0 < gsi_assert_count h ?g" using I(2) [OF g(2)] w by simp
  have ip: "0 < gsi_assert_count h ?isa" if "?isa \<noteq> 0"
  proof -
    have "cnt 4 (\<lambda>k. 0 < link_wires (pci_intx h) k \<and> pci_link_route h k = ?isa \<and> ?isa \<noteq> 0) \<noteq> 0"
      unfolding cnt_zero using that l4(1) lw [of ?l] by auto
    then show ?thesis using I(2) [of ?isa] l4(2) by (simp add: gsi_wires_def)
  qed
  let ?h2 = "gsi_down ?g (h\<lparr>pci_intx := ?pci\<rparr>)"
  have h2: "pci_intx ?h2 = ?pci" "isa_irq ?h2 = isa_irq h" "pci_link_route ?h2 = pci_link_route h"
    "callback_via_asserted ?h2 = callback_via_asserted h"
    "pci_link_assert_count ?h2 = pci_link_assert_count h" "irq_pics ?h2 = irq_pics h"
    "gsi_assert_count ?h2 = (gsi_assert_count h)(?g := gsi_assert_count h ?g - 1)"
    using u8_dec_small [OF gp b [OF g(2)]] by auto
  have pre: "0 < pci_link_assert_count ?h2 ?l" "pci_link_assert_count ?h2 ?l < 256"
    "?isa = pci_link_route ?h2 ?l" "?isa \<noteq> 0 \<longrightarrow> 0 < gsi_assert_count ?h2 ?isa"
    "gsi_assert_count ?h2 ?isa < 256" "vpics_inv (irq_pics ?h2)"
    unfolding h2 using lc l4 g b I(5) ip by auto
  note L = link_down_eq [OF pre(1-3) l4(2) pre(4-6)]
  have e: "hvm_pci_intx_deassert dev intx h = link_down ?l ?h2"
    using True W by (simp add: hvm_pci_intx_deassert_def Let_def)
  have "pci_link_assert_count (link_down ?l ?h2) k = link_wires ?pci k" if "k < 4" for k
    unfolding L(5) h2(5) using I(1) [OF that] lw [of k] by (cases "k = ?l") simp_all
  moreover have "gsi_assert_count (link_down ?l ?h2) k =
      gsi_wires ?pci (isa_irq h) (pci_link_route h) k" if "k < 48" for k
  proof -
    have "pci_link_assert_count h ?l = 1 \<longleftrightarrow> link_wires ?pci ?l = 0"
      using I(1) [OF l4(1)] lw [of ?l] by simp
    then show ?thesis
      unfolding L(6) h2(5,7) using I(2) [OF that] w [of "isa_irq h" "pci_link_route h" k] l4(2) g(1)
      by (cases "k = ?g"; cases "k = ?isa") auto
  qed
  ultimately show ?thesis
    unfolding e irq_inv_def VIOAPIC_NUM_PINS_def L(1-4) h2(1-4) using I(3,4) L(7) by blast
qed

lemma route_inv:
  assumes inv: "irq_inv h" and l: "link \<le> 3" and r: "isa \<le> 15"
  shows "irq_inv (hvm_set_pci_link_route link isa h)"
proof (cases "pci_link_route h link = isa")
  case True
  then show ?thesis using inv by (simp add: hvm_set_pci_link_route_def)
next
  case ne: False
  let ?old = "pci_link_route h link" and ?r = "(pci_link_route h)(link := isa)"
  note I = irq_invD [OF inv]
  have l4: "link < 4" "?old \<le> 15" using l I(3) by auto
  note R = gsi_wires_route [OF l4(1), of "pci_intx h" "isa_irq h" "pci_link_route h" isa]
  have lc: "pci_link_assert_count h link = link_wires (pci_intx h) link" using I(1) [OF l4(1)] .
  have b: "gsi_assert_count h k < 255" if "k < 48" for k
    using I(2) [OF that] gsi_wires_bound [of "pci_intx h" "isa_irq h" "pci_link_route h" k] by simp
  let ?h1 = "h\<lparr>pci_link_route := ?r\<rparr>"
  show ?thesis
  proof (cases "pci_link_assert_count h link = 0")
    case True
    then have "irq_inv ?h1" using I lc R r by (auto simp: irq_inv_def VIOAPIC_NUM_PINS_def)
    then show ?thesis using ne True by (simp add: hvm_set_pci_link_route_def Let_def)
  next
    case act: False
    have op: "0 < gsi_assert_count h ?old" if "?old \<noteq> 0"
    proof -
      have "cnt 4 (\<lambda>k. 0 < link_wires (pci_intx h) k \<and> pci_link_route h k = ?old \<and> ?old \<noteq> 0) \<noteq> 0"
        unfolding cnt_zero using that l4(1) act lc by auto
      then show ?thesis using I(2) [of ?old] l4(2) by (simp add: gsi_wires_def)
    qed
    define h2 where "h2 = (if ?old \<noteq> 0 then gsi_down ?old ?h1 else ?h1)"
    define h3 where "h3 = (if ?old \<noteq> 0 \<and> gsi_assert_count h2 ?old = 0 then deassert_irq ?old h2 else h2)"
    define h4 where "h4 = (if isa \<noteq> 0 then gsi_up isa h3 else h3)"
    define h5 where "h5 = (if isa \<noteq> 0 \<and> gsi_assert_count h3 isa = 0 then assert_irq isa isa None h4 else h4)"
    have e: "hvm_set_pci_link_route link isa h = h5"
      unfolding hvm_set_pci_link_route_def Let_def h5_def h4_def h3_def h2_def using ne act by simp
    have w2: "pci_intx h2 = pci_intx h" "isa_irq h2 = isa_irq h" "pci_link_route h2 = ?r"
      "callback_via_asserted h2 = callback_via_asserted h" "irq_pics h2 = irq_pics h"
      "pci_link_assert_count h2 = pci_link_assert_count h"
      "gsi_assert_count h2 = (\<lambda>k. gsi_assert_count h k - (if k = ?old \<and> k \<noteq> 0 then 1 else 0))"
      using u8_dec_small [of "gsi_assert_count h ?old"] op b [of ?old] l4(2)
      by (simp_all add: h2_def fun_eq_iff)
    have w3: "pci_intx h3 = pci_intx h" "isa_irq h3 = isa_irq h" "pci_link_route h3 = ?r"
      "callback_via_asserted h3 = callback_via_asserted h"
      "pci_link_assert_count h3 = pci_link_assert_count h" "gsi_assert_count h3 = gsi_assert_count h2"
      by (simp_all add: h3_def w2(1-6))
    have p3: "vpics_inv (irq_pics h3)"
      using I(5) edges_pics(2) [of h2 ?old] l4(2) w2(5) by (simp add: h3_def)
    have "gsi_assert_count h3 isa < 255" unfolding w3(6) w2(7) using b [of isa] r by simp
    then have up: "u8_inc (gsi_assert_count h3 isa) = gsi_assert_count h3 isa + 1" by (rule u8_inc_small)
    have w4: "pci_intx h4 = pci_intx h" "isa_irq h4 = isa_irq h" "pci_link_route h4 = ?r"
      "callback_via_asserted h4 = callback_via_asserted h" "irq_pics h4 = irq_pics h3"
      "pci_link_assert_count h4 = pci_link_assert_count h"
      "gsi_assert_count h4 = (\<lambda>k. gsi_assert_count h3 k + (if k = isa \<and> k \<noteq> 0 then 1 else 0))"
      by (auto simp: h4_def w3(1-5) up fun_eq_iff)
    have w: "pci_intx h5 = pci_intx h" "isa_irq h5 = isa_irq h" "pci_link_route h5 = ?r"
      "callback_via_asserted h5 = callback_via_asserted h"
      "pci_link_assert_count h5 = pci_link_assert_count h" "gsi_assert_count h5 = gsi_assert_count h4"
      by (simp_all add: h5_def w4(1-6))
    have p5: "vpics_inv (irq_pics h5)"
      using p3 edges_pics(1) [of h4 isa isa None] r w4(5) by (simp add: h5_def)
    have "gsi_assert_count h5 k = gsi_wires (pci_intx h) (isa_irq h) ?r k" if "k < 48" for k
    proof -
      have "gsi_assert_count h5 k = gsi_assert_count h k - (if k = ?old \<and> k \<noteq> 0 then 1 else 0) +
          (if k = isa \<and> k \<noteq> 0 then 1 else 0)"
        unfolding w(6) w4(7) w3(6) w2(7) ..
      also have "\<dots> = gsi_wires (pci_intx h) (isa_irq h) ?r k"
        using I(2) [OF that] R [of k] act lc op ne
        by (cases "k = 0"; cases "k = ?old"; cases "k = isa") simp_all
      finally show ?thesis .
    qed
    then show ?thesis
      unfolding e irq_inv_def VIOAPIC_NUM_PINS_def w(1-5) using I(1,3,4) r p5 by simp
  qed
qed

lemma callback_via_inv:
  assumes "irq_inv h"
  shows "irq_inv (hvm_set_callback_via via h)"
proof -
  have "irq_inv (h\<lparr>callback_via := x\<rparr>)" for x using assms by (simp add: irq_inv_def)
  then show ?thesis
    using irq_invD(4) [OF assms] by (simp add: hvm_set_callback_via_def Let_def)
qed

section \<open>Restoring\<close>

lemma load_wires_step:
  assumes "n \<le> 128" "\<And>g. g < 48 \<Longrightarrow> gsi_assert_count h g = 0" "\<And>l. l < 4 \<Longrightarrow> pci_link_assert_count h l = 0"
  defines "h' \<equiv> fold load_wire [0..<n] h"
  shows "pci_intx h' = pci_intx h \<and> isa_irq h' = isa_irq h \<and> irq_pics h' = irq_pics h \<and>
    callback_via_asserted h' = callback_via_asserted h \<and>
    (\<forall>g < 48. gsi_assert_count h' g = cnt n (\<lambda>w. pci_intx h w \<and> gsi_of w = g)) \<and>
    (\<forall>l < 4. pci_link_assert_count h' l = cnt n (\<lambda>w. pci_intx h w \<and> link_of w = l))"
  using assms(1) unfolding h'_def
proof (induction n)
  case 0
  then show ?case using assms(2,3) by simp
next
  case (Suc n)
  define hn where "hn = fold load_wire [0..<n] h"
  have IH: "pci_intx hn = pci_intx h" "isa_irq hn = isa_irq h" "irq_pics hn = irq_pics h"
    "callback_via_asserted hn = callback_via_asserted h"
    "\<And>g. g < 48 \<Longrightarrow> gsi_assert_count hn g = cnt n (\<lambda>w. pci_intx h w \<and> gsi_of w = g)"
    "\<And>l. l < 4 \<Longrightarrow> pci_link_assert_count hn l = cnt n (\<lambda>w. pci_intx h w \<and> link_of w = l)"
    using Suc by (auto simp: hn_def)
  have "gsi_assert_count hn (gsi_of n) < 255" "pci_link_assert_count hn (link_of n) < 255"
    using IH(5) [of "gsi_of n"] IH(6) [of "link_of n"] gsi_of_range link_of_less Suc.prems
      cnt_le [of n "\<lambda>w. pci_intx h w \<and> gsi_of w = gsi_of n"]
      cnt_le [of n "\<lambda>w. pci_intx h w \<and> link_of w = link_of n"] by auto
  then show ?case
    using IH unfolding upt_Suc_append [OF le0] fold_append o_apply hn_def [symmetric]
    by (auto simp: load_wire_def Let_def cnt_Suc u8_inc_small gsi_of_def [symmetric] link_of_def [symmetric])
qed

lemma load_isa_step:
  assumes "n \<le> 16" "\<And>g. g < 48 \<Longrightarrow> gsi_assert_count h g \<le> 128"
  defines "h' \<equiv> fold (\<lambda>i h. if isa_irq h i then gsi_up (hvm_isa_irq_to_gsi i) h else h) [0..<n] h"
  shows "pci_intx h' = pci_intx h \<and> isa_irq h' = isa_irq h \<and> irq_pics h' = irq_pics h \<and>
    callback_via_asserted h' = callback_via_asserted h \<and>
    pci_link_assert_count h' = pci_link_assert_count h \<and>
    (\<forall>g < 48. gsi_assert_count h' g =
       gsi_assert_count h g + cnt n (\<lambda>i. isa_irq h i \<and> hvm_isa_irq_to_gsi i = g))"
  using assms(1) unfolding h'_def
proof (induction n)
  case (Suc n)
  let ?h = "fold (\<lambda>i h. if isa_irq h i then gsi_up (hvm_isa_irq_to_gsi i) h else h) [0..<n] h"
  have IH: "pci_intx ?h = pci_intx h" "isa_irq ?h = isa_irq h" "irq_pics ?h = irq_pics h"
    "callback_via_asserted ?h = callback_via_asserted h"
    "pci_link_assert_count ?h = pci_link_assert_count h"
    "\<And>g. g < 48 \<Longrightarrow> gsi_assert_count ?h g =
       gsi_assert_count h g + cnt n (\<lambda>i. isa_irq h i \<and> hvm_isa_irq_to_gsi i = g)"
    using Suc by auto
  have "gsi_assert_count ?h (hvm_isa_irq_to_gsi n) < 255"
    using IH(6) [of "hvm_isa_irq_to_gsi n"] isa_gsi_less [of n] assms(2) [of "hvm_isa_irq_to_gsi n"] Suc.prems
      cnt_le [of n "\<lambda>i. isa_irq h i \<and> hvm_isa_irq_to_gsi i = hvm_isa_irq_to_gsi n"] by simp
  then show ?case using IH by (auto simp: cnt_Suc u8_inc_small)
qed simp

lemma load_link_step:
  assumes "n \<le> 4" "\<And>g. g < 48 \<Longrightarrow> gsi_assert_count h g \<le> 144" "\<And>l. l < 4 \<Longrightarrow> pci_link_route h l \<le> 15"
  defines "h' \<equiv> fold (\<lambda>l h. if pci_link_assert_count h l \<noteq> 0 \<and> pci_link_route h l \<noteq> 0
                          then gsi_up (pci_link_route h l) h else h) [0..<n] h"
  shows "pci_intx h' = pci_intx h \<and> isa_irq h' = isa_irq h \<and> irq_pics h' = irq_pics h \<and>
    callback_via_asserted h' = callback_via_asserted h \<and> pci_link_route h' = pci_link_route h \<and>
    pci_link_assert_count h' = pci_link_assert_count h \<and>
    (\<forall>g < 48. gsi_assert_count h' g = gsi_assert_count h g +
       cnt n (\<lambda>l. 0 < pci_link_assert_count h l \<and> pci_link_route h l = g \<and> g \<noteq> 0))"
  using assms(1) unfolding h'_def
proof (induction n)
  case (Suc n)
  let ?h = "fold (\<lambda>l h. if pci_link_assert_count h l \<noteq> 0 \<and> pci_link_route h l \<noteq> 0
                          then gsi_up (pci_link_route h l) h else h) [0..<n] h"
  have IH: "pci_intx ?h = pci_intx h" "isa_irq ?h = isa_irq h" "irq_pics ?h = irq_pics h"
    "callback_via_asserted ?h = callback_via_asserted h" "pci_link_route ?h = pci_link_route h"
    "pci_link_assert_count ?h = pci_link_assert_count h"
    "\<And>g. g < 48 \<Longrightarrow> gsi_assert_count ?h g = gsi_assert_count h g +
       cnt n (\<lambda>l. 0 < pci_link_assert_count h l \<and> pci_link_route h l = g \<and> g \<noteq> 0)"
    using Suc by auto
  have "gsi_assert_count ?h (pci_link_route h n) < 255"
    using IH(7) [of "pci_link_route h n"] assms(2) [of "pci_link_route h n"] assms(3) [of n] Suc.prems
      cnt_le [of n "\<lambda>l. 0 < pci_link_assert_count h l \<and> pci_link_route h l = pci_link_route h n \<and>
         pci_link_route h n \<noteq> 0"] by simp
  then show ?case using IH by (auto simp: cnt_Suc u8_inc_small)
qed simp

definition irq_zero :: "hvm_irq \<Rightarrow> hvm_irq" where
  "irq_zero h = h\<lparr>pci_intx := (\<lambda>_. False), isa_irq := (\<lambda>_. False), pci_link_route := (\<lambda>_. 0),
     callback_via_asserted := False, callback_via := Callback_none,
     pci_link_assert_count := (\<lambda>_. 0), gsi_assert_count := (\<lambda>_. 0),
     irq_pics := vpic_reset ((irq_pics h)\<lparr>pic_bug := False\<rparr>)\<rparr>"

lemma irq_zero_inv: "irq_inv (irq_zero h)"
proof -
  have "cnt n (\<lambda>_. False) = 0" for n by (simp add: cnt_zero)
  then show ?thesis
    by (simp add: irq_inv_def irq_zero_def gsi_wires_def link_wires_def reset_inv cnt_zero)
qed

text \<open>
  What devices, the guest and the virtual CPUs do to the interrupt state of a running guest; loading saved
  wires is treated apart.
\<close>

inductive irq_reach :: "hvm_irq \<Rightarrow> bool" where
  irq_start: "irq_reach (irq_zero h)"
| irq_pci_assert: "irq_reach h \<Longrightarrow> dev \<le> 31 \<Longrightarrow> intx \<le> 3 \<Longrightarrow> irq_reach (hvm_pci_intx_assert dev intx h)"
| irq_pci_deassert: "irq_reach h \<Longrightarrow> dev \<le> 31 \<Longrightarrow> intx \<le> 3 \<Longrightarrow> irq_reach (hvm_pci_intx_deassert dev intx h)"
| irq_isa_assert: "irq_reach h \<Longrightarrow> i \<le> 15 \<Longrightarrow> irq_reach (hvm_isa_irq_assert i h)"
| irq_isa_assert_cpu: "irq_reach h \<Longrightarrow> i \<le> 15 \<Longrightarrow> irq_reach (hvm_isa_irq_assert_to_cpu i v h)"
| irq_isa_deassert: "irq_reach h \<Longrightarrow> i \<le> 15 \<Longrightarrow> irq_reach (hvm_isa_irq_deassert i h)"
| irq_route: "irq_reach h \<Longrightarrow> l \<le> 3 \<Longrightarrow> i \<le> 15 \<Longrightarrow> irq_reach (hvm_set_pci_link_route l i h)"
| irq_callback: "irq_reach h \<Longrightarrow> irq_reach (hvm_set_callback_via via h)"
| irq_ack: "irq_reach h \<Longrightarrow> irq_reach (snd (snd (hvm_vcpu_ack_pending_irq la v ack h)))"
| irq_pic_io: "irq_reach h \<Longrightarrow> port \<in> {0x20, 0x21, 0xa0, 0xa1} \<Longrightarrow>
    irq_reach (h\<lparr>irq_pics := snd (vpic_intercept_pic_io dir port bytes val (irq_pics h))\<rparr>)"
| irq_elcr_io: "irq_reach h \<Longrightarrow> port \<in> {0x4d0, 0x4d1} \<Longrightarrow>
    irq_reach (h\<lparr>irq_pics := snd (vpic_intercept_elcr_io dir port 1 val (irq_pics h))\<rparr>)"

lemma irq_inv_pics: "irq_inv h \<Longrightarrow> vpics_inv p \<Longrightarrow> irq_inv (h\<lparr>irq_pics := p\<rparr>)"
  by (simp add: irq_inv_def)

lemma ack_irq_inv:
  assumes "irq_inv h"
  shows "irq_inv (snd (snd (hvm_vcpu_ack_pending_irq la v ack h)))"
  using assms ack_inv [OF irq_invD(5) [OF assms], of "accept_pic_intr v"]
  by (auto simp: hvm_vcpu_ack_pending_irq_def split: hvm_intack.split prod.split intro: irq_inv_pics)

lemma irq_reach_inv: "irq_reach h \<Longrightarrow> irq_inv h"
  by (induction rule: irq_reach.induct)
    (simp_all add: irq_zero_inv pci_assert_inv pci_deassert_inv isa_assert_any isa_assert_inv
      isa_deassert_inv route_inv callback_via_inv ack_irq_inv irq_inv_pics pic_io_inv elcr_io_inv [simplified] irq_invD(5))

text \<open>
  C6.  The 8-bit reference counts of the interrupt router never drift: after any sequence of
  wire changes, link re-routing, callback changes, acknowledgements and PIC accesses, the count of
  every GSI is the number of PCI wires, ISA wires and active links that drive it, and the count
  of every link the number of its PCI wires; no count can wrap around.
\<close>

theorem irq_counts_exact:
  assumes "irq_reach h"
  shows "(g < VIOAPIC_NUM_PINS \<longrightarrow>
      gsi_assert_count h g = gsi_wires (pci_intx h) (isa_irq h) (pci_link_route h) g \<and>
      gsi_assert_count h g < 255) \<and>
    (l < 4 \<longrightarrow> pci_link_assert_count h l = link_wires (pci_intx h) l \<and> pci_link_assert_count h l < 255)"
  using irq_invD(1,2) [OF irq_reach_inv [OF assms]]
    gsi_wires_bound [of "pci_intx h" "isa_irq h" "pci_link_route h" g] link_wires_bound [of "pci_intx h" l]
  by (auto simp: VIOAPIC_NUM_PINS_def)

text \<open>
  C7.  Saving and restoring the wires restores the counts: loading the PCI wires, the ISA wires
  and the link routes of a running guest, in this order, into any interrupt state yields exactly
  the counts the guest had, although they are not saved.
\<close>

theorem irq_restore_counts:
  assumes "irq_reach h" "\<not> callback_via_asserted h0" "vpics_inv (irq_pics h0)"
  shows "\<exists>h1 h2 h'. irq_load_pci (Some (fst (irq_save_pci h))) h0 = (None, h1) \<and>
      irq_load_isa (Some (irq_save_isa h)) h1 = (None, h2) \<and> irq_load_link (Some (irq_save_link h)) h2 = (None, h') \<and> irq_inv h' \<and>
      pci_intx h' = pci_intx h \<and> isa_irq h' = isa_irq h \<and> pci_link_route h' = pci_link_route h \<and>
      (\<forall>g < VIOAPIC_NUM_PINS. gsi_assert_count h' g = gsi_assert_count h g)"
proof -
  note I = irq_invD [OF irq_reach_inv [OF assms(1)]]
  let ?z = "h0\<lparr>pci_intx := pci_intx h,
          pci_link_assert_count := (\<lambda>l. if l < 4 then 0 else pci_link_assert_count h0 l),
          gsi_assert_count := (\<lambda>g. if g < 48 then 0 else gsi_assert_count h0 g)\<rparr>"
  define p1 where "p1 = fold load_wire [0..<128] ?z"
  have 1: "pci_intx p1 = pci_intx h" "isa_irq p1 = isa_irq h0" "irq_pics p1 = irq_pics h0"
    "\<not> callback_via_asserted p1" "\<And>g. g < 48 \<Longrightarrow> gsi_assert_count p1 g = cnt 128 (\<lambda>w. pci_intx h w \<and> gsi_of w = g)"
    "\<And>l. l < 4 \<Longrightarrow> pci_link_assert_count p1 l = link_wires (pci_intx h) l"
    using load_wires_step [of 128 ?z, folded p1_def] assms(2) by (auto simp: link_wires_def)
  have b1: "gsi_assert_count p1 g \<le> 128" if "g < 48" for g using 1(5) [OF that] cnt_le by simp
  define p2 where "p2 = fold (\<lambda>i h. if isa_irq h i then gsi_up (hvm_isa_irq_to_gsi i) h else h) [0..<16] (p1\<lparr>isa_irq := isa_irq h\<rparr>)"
  have 2: "pci_intx p2 = pci_intx h" "isa_irq p2 = isa_irq h" "irq_pics p2 = irq_pics h0"
    "\<not> callback_via_asserted p2" "pci_link_assert_count p2 = pci_link_assert_count p1"
    "\<And>g. g < 48 \<Longrightarrow> gsi_assert_count p2 g = gsi_assert_count p1 g +
       cnt 16 (\<lambda>i. isa_irq h i \<and> hvm_isa_irq_to_gsi i = g)"
    using load_isa_step [of 16 "p1\<lparr>isa_irq := isa_irq h\<rparr>", folded p2_def] b1 1
    by auto
  have b2: "gsi_assert_count p2 g \<le> 144" if "g < 48" for g
    using 2(6) [OF that] b1 [OF that] cnt_le [of 16 "\<lambda>i. isa_irq h i \<and> hvm_isa_irq_to_gsi i = g"] by simp
  let ?q = "p2\<lparr>pci_link_route := pci_link_route h\<rparr>"
  define p3 where "p3 = fold (\<lambda>l h. if pci_link_assert_count h l \<noteq> 0 \<and> pci_link_route h l \<noteq> 0
                          then gsi_up (pci_link_route h l) h else h) [0..<4] ?q"
  have 3: "pci_intx p3 = pci_intx h" "isa_irq p3 = isa_irq h" "irq_pics p3 = irq_pics h0"
    "\<not> callback_via_asserted p3" "pci_link_route p3 = pci_link_route h"
    "\<And>l. l < 4 \<Longrightarrow> pci_link_assert_count p3 l = link_wires (pci_intx h) l"
    "\<And>g. g < 48 \<Longrightarrow> gsi_assert_count p3 g = gsi_assert_count p2 g +
       cnt 4 (\<lambda>l. 0 < pci_link_assert_count p2 l \<and> pci_link_route h l = g \<and> g \<noteq> 0)"
    using load_link_step [of 4 ?q, folded p3_def] b2 2 1(6) I(3) by auto
  have "cnt 4 (\<lambda>l. 0 < pci_link_assert_count p2 l \<and> pci_link_route h l = g \<and> g \<noteq> 0) =
      cnt 4 (\<lambda>l. 0 < link_wires (pci_intx h) l \<and> pci_link_route h l = g \<and> g \<noteq> 0)" for g
    by (rule cnt_cong) (simp add: 2 1)
  then have g3: "gsi_assert_count p3 g = gsi_wires (pci_intx h) (isa_irq h) (pci_link_route h) g"
    if "g < 48" for g using 3(7) 2(6) 1(5) that by (simp add: gsi_wires_def)
  have "irq_inv p3" using 3 g3 I(3) assms(3) by (simp add: irq_inv_def VIOAPIC_NUM_PINS_def)
  moreover have nr: "\<not> list_ex (\<lambda>l. 15 < pci_link_route h l) [0..<4]"
    using I(3) unfolding list_ex_iff set_upt by (auto simp: not_less)
  moreover have "fst (irq_save_pci h) = pci_intx h" using I(4) by (simp add: irq_save_pci_def)
  then have "irq_load_pci (Some (fst (irq_save_pci h))) h0 = (None, p1)"
    by (simp add: irq_load_pci_def VIOAPIC_NUM_PINS_def p1_def [symmetric] del: upt_rec_numeral)
  moreover have "irq_load_isa (Some (irq_save_isa h)) p1 = (None, p2)"
    by (simp add: irq_load_isa_def irq_save_isa_def p2_def del: upt_rec_numeral)
  moreover have "irq_load_link (Some (irq_save_link h)) p2 = (None, p3)"
    using nr by (simp add: irq_load_link_def irq_save_link_def p3_def Let_def del: upt_rec_numeral)
  ultimately show ?thesis using 3 g3 I(2) by (auto simp: VIOAPIC_NUM_PINS_def)
qed

text \<open>Asserting and deasserting a wire at once.\<close>

lemma isa_pulse:
  fixes v :: "nat option"
  assumes inv: "irq_inv h" and i: "i < 16" "\<not> isa_irq h i"
  defines "g \<equiv> hvm_isa_irq_to_gsi i"
  defines "h' \<equiv> hvm_isa_irq_deassert i (hvm_isa_irq_assert_to_cpu i v h)"
  shows "same_wires h h'"
    and "vioapic_edges h' = (if gsi_assert_count h g = 0 then (g, v) # vioapic_edges h else vioapic_edges h)"
proof -
  have g: "g < 48" using isa_gsi_less [OF i(1)] by (simp add: g_def)
  have b: "gsi_assert_count h g < 255"
    using irq_invD(2) [OF inv g] gsi_wires_bound [of "pci_intx h" "isa_irq h" "pci_link_route h" g] by simp
  have ud: "u8_inc (gsi_assert_count h g) = gsi_assert_count h g + 1"
    "u8_dec (gsi_assert_count h g + 1) = gsi_assert_count h g"
    using u8_inc_small [OF b] u8_dec_small [of "gsi_assert_count h g + 1"] b by auto
  have f: "(isa_irq h)(i := False) = isa_irq h" using i(2) by (auto simp: fun_eq_iff)
  define h1 where "h1 = hvm_isa_irq_assert_to_cpu i v h"
  have 1: "pci_intx h1 = pci_intx h" "isa_irq h1 = (isa_irq h)(i := True)"
    "pci_link_route h1 = pci_link_route h" "callback_via_asserted h1 = callback_via_asserted h"
    "pci_link_assert_count h1 = pci_link_assert_count h"
    "gsi_assert_count h1 = (gsi_assert_count h)(g := gsi_assert_count h g + 1)"
    "vioapic_edges h1 = (if gsi_assert_count h g = 0 then (g, v) # vioapic_edges h else vioapic_edges h)"
    using i(2) ud(1) unfolding h1_def hvm_isa_irq_assert_to_cpu_def Let_def g_def [symmetric]
    by (simp_all add: assert_irq_def assert_gsi_def gsi_up_def u8_inc_def)
  have 2: "pci_intx h' = pci_intx h1" "isa_irq h' = (isa_irq h1)(i := False)"
    "pci_link_route h' = pci_link_route h1" "callback_via_asserted h' = callback_via_asserted h1"
    "pci_link_assert_count h' = pci_link_assert_count h1"
    "gsi_assert_count h' = (gsi_assert_count h1)(g := u8_dec (gsi_assert_count h1 g))"
    "vioapic_edges h' = vioapic_edges h1"
    using 1(2) unfolding h'_def h1_def [symmetric] hvm_isa_irq_deassert_def Let_def g_def [symmetric]
    by (simp_all add: deassert_irq_def gsi_down_def)
  show "same_wires h h'"
    unfolding same_wires_def 2(1-6) 1(1-6) using f ud(2) by (auto simp: fun_eq_iff)
  show "vioapic_edges h' = (if gsi_assert_count h g = 0 then (g, v) # vioapic_edges h else vioapic_edges h)"
    unfolding 2(7) 1(7) ..
qed

text \<open>An instance: an ISA device on line 5, a PCI device and a link routed to the same line.\<close>

definition blank_irq :: hvm_irq where
  "blank_irq = irq_zero \<lparr>pci_intx = (\<lambda>_. False), isa_irq = (\<lambda>_. False), pci_link_route = (\<lambda>_. 0),
     callback_via_asserted = False, callback_via = Callback_none, pci_link_assert_count = (\<lambda>_. 0),
     gsi_assert_count = (\<lambda>_. 0), irq_pics = sample_pics, vioapic_edges = []\<rparr>"

definition sample_irq :: hvm_irq where
  "sample_irq = hvm_set_pci_link_route 3 5 (hvm_pci_intx_assert 2 1 (hvm_isa_irq_assert 5 blank_irq))"

lemma sample_irq_reach: "irq_reach sample_irq"
  unfolding sample_irq_def blank_irq_def by (intro irq_reach.intros) simp_all

theorem irq_counts_exact_witness:
  "gsi_assert_count sample_irq 5 = gsi_wires (pci_intx sample_irq) (isa_irq sample_irq) (pci_link_route sample_irq) 5 \<and>
   gsi_assert_count sample_irq 5 < 255 \<and> gsi_assert_count sample_irq 5 = 2 \<and>
   pci_link_assert_count sample_irq 3 = link_wires (pci_intx sample_irq) 3"
proof -
  have "gsi_assert_count sample_irq 5 = 2" by code_simp
  then show ?thesis
    using irq_counts_exact [OF sample_irq_reach, of 5 3] by (simp add: VIOAPIC_NUM_PINS_def)
qed

theorem irq_restore_counts_witness:
  "\<exists>h1 h2 h'. irq_load_pci (Some (fst (irq_save_pci sample_irq))) blank_irq = (None, h1) \<and>
      irq_load_isa (Some (irq_save_isa sample_irq)) h1 = (None, h2) \<and>
      irq_load_link (Some (irq_save_link sample_irq)) h2 = (None, h') \<and> irq_inv h' \<and>
      pci_intx h' = pci_intx sample_irq \<and> isa_irq h' = isa_irq sample_irq \<and>
      pci_link_route h' = pci_link_route sample_irq \<and>
      (\<forall>g < VIOAPIC_NUM_PINS. gsi_assert_count h' g = gsi_assert_count sample_irq g)"
proof (rule irq_restore_counts [OF sample_irq_reach])
  show "\<not> callback_via_asserted blank_irq" by (simp add: blank_irq_def irq_zero_def)
  show "vpics_inv (irq_pics blank_irq)" by (simp add: blank_irq_def irq_zero_def reset_inv)
qed

end
