(* ===== verification/V4v_Domain.thy ===== *)
theory V4v_Domain
  imports V4v_Table Hvm_Irq
begin

text \<open>
  The state the V4V hypercalls work on, and the parts of \<open>xen/common/v4v.c\<close> that look at other
  domains: the notification of a domain (\<open>v4v_signal_domain\<close>), the check of who may talk to whom
  (\<open>v4v_validate_channel\<close>, \<open>v4v_resolve_token\<close>), and the domain lookups of \<open>xen/common/domain.c\<close>.

  Hypercalls are atomic: the read-write locks of the code are not modelled.
\<close>

section \<open>State\<close>

record xdomain =
  domain_id :: domid
  dom_v4v :: "v4v_table option"
  is_dying :: bool
  destroyed :: bool                       \<comment> \<open>\<open>DOMAIN_DESTROYED\<close> is set in \<open>refcnt\<close>\<close>
  v4v_token :: "byte list"
  dom_irq :: hvm_irq

record xen =
  domain_list :: "xdomain list"
  xmem :: mem
  page_refs :: "mfn \<Rightarrow> int"               \<comment> \<open>page references taken by V4V\<close>
  host_signals :: nat                     \<comment> \<open>calls of \<open>ui_signal_v4v\<close>\<close>
  xen_bug :: bool                         \<comment> \<open>a \<open>BUG ()\<close> was reached\<close>

text \<open>
  What a hypercall finds around it: the caller, its privileges, whether the allocations it makes
  succeed, and the answers of the memory management.
\<close>

datatype alloc_site =
    A_ring_info v4v_ring_id | A_mfns v4v_ring_id | A_mapping v4v_ring_id | A_pending v4v_ring_id
  | A_domain domid

record hyp_env =
  henv :: v4v_env
  current_id :: domid
  is_sys_privileged :: bool
  is_priv_for :: "domid \<Rightarrow> bool"
  ui_running :: bool
  ui_signal_v4v :: bool
  mfn_valid :: "nat \<Rightarrow> bool"
  get_page_ok :: "mfn \<Rightarrow> bool"             \<comment> \<open>\<open>mfn_valid_page (mfn) && get_page (page, d)\<close>\<close>
  xmalloc_ok :: "alloc_site \<Rightarrow> bool"

abbreviation IS_HOST :: "domid \<Rightarrow> bool" where
  "IS_HOST d \<equiv> d = 0"

definition DOMID_FIRST_RESERVED :: domid where "DOMID_FIRST_RESERVED = 0x7ff0"
definition V4V_DOMID_SELF :: domid where "V4V_DOMID_SELF = 0x7ff0"
definition V4V_DOMID_DM :: domid where "V4V_DOMID_DM = 0x7ff1"
definition V4V_DOMID_UUID :: domid where "V4V_DOMID_UUID = 0x7ffe"
definition V4V_DOMID_ANY :: domid where "V4V_DOMID_ANY = 0x7fff"

lemmas domid_consts = DOMID_FIRST_RESERVED_def V4V_DOMID_SELF_def V4V_DOMID_DM_def V4V_DOMID_UUID_def
  V4V_DOMID_ANY_def V4V_DOMID_NONE_def

section \<open>Finding and changing domains\<close>

definition dom_find :: "xen \<Rightarrow> domid \<Rightarrow> xdomain option" where
  "dom_find x i = find (\<lambda>d. domain_id d = i) (domain_list x)"

definition rcu_lock_domain_by_id :: "xen \<Rightarrow> domid \<Rightarrow> xdomain option" where
  "rcu_lock_domain_by_id x i = (if DOMID_FIRST_RESERVED \<le> i then None else dom_find x i)"

definition get_domain_by_id :: "xen \<Rightarrow> domid \<Rightarrow> xdomain option" where
  "get_domain_by_id x i =
     (if DOMID_FIRST_RESERVED \<le> i then None
      else case dom_find x i of None \<Rightarrow> None | Some d \<Rightarrow> if destroyed d then None else Some d)"

definition rcu_lock_remote_target_domain_by_id :: "hyp_env \<Rightarrow> xen \<Rightarrow> domid \<Rightarrow> errno option" where
  "rcu_lock_remote_target_domain_by_id env x i =
     (case rcu_lock_domain_by_id x i of
        None \<Rightarrow> Some ESRCH
      | Some d \<Rightarrow> if i = current_id env \<or> \<not> is_priv_for env i then Some EPERM else None)"

definition rcu_lock_domain_by_uuid :: "xen \<Rightarrow> byte list \<Rightarrow> xdomain option" where
  "rcu_lock_domain_by_uuid x uuid = find (\<lambda>d. v4v_token d = uuid) (domain_list x)"

text \<open>A write through a domain pointer.\<close>

definition upd_dom :: "domid \<Rightarrow> (xdomain \<Rightarrow> xdomain) \<Rightarrow> xen \<Rightarrow> xen" where
  "upd_dom i f x = x\<lparr>domain_list := map (\<lambda>d. if domain_id d = i then f d else d) (domain_list x)\<rparr>"

definition upd_table :: "domid \<Rightarrow> (v4v_table \<Rightarrow> v4v_table) \<Rightarrow> xen \<Rightarrow> xen" where
  "upd_table i f = upd_dom i (\<lambda>d. d\<lparr>dom_v4v := map_option f (dom_v4v d)\<rparr>)"

definition dom_table :: "xen \<Rightarrow> domid \<Rightarrow> v4v_table option" where
  "dom_table x i = (case dom_find x i of None \<Rightarrow> None | Some d \<Rightarrow> dom_v4v d)"

section \<open>Notifying a domain\<close>

definition deliver_via_upcall :: "domid \<Rightarrow> bool" where
  "deliver_via_upcall i \<longleftrightarrow> i = 0"

definition v4v_irq_pulse :: "hvm_irq \<Rightarrow> hvm_irq" where
  "v4v_irq_pulse h = hvm_isa_irq_deassert 7 (hvm_isa_irq_assert_to_cpu 7 (Some 0) h)"

definition v4v_signal_domain :: "hyp_env \<Rightarrow> domid \<Rightarrow> xen \<Rightarrow> xen" where
  "v4v_signal_domain env i x =
     (if \<not> ui_running env then x\<lparr>xen_bug := True\<rparr>
      else case dom_find x i of
        None \<Rightarrow> x\<lparr>xen_bug := True\<rparr>
      | Some d \<Rightarrow>
          if dom_v4v d = None then x
          else if deliver_via_upcall i
          then (if ui_signal_v4v env then x\<lparr>host_signals := host_signals x + 1\<rparr> else x)
          else upd_dom i (\<lambda>d. d\<lparr>dom_irq := v4v_irq_pulse (dom_irq d)\<rparr>) x)"

definition v4v_signal_domid :: "hyp_env \<Rightarrow> domid \<Rightarrow> xen \<Rightarrow> xen" where
  "v4v_signal_domid env i x =
     (case get_domain_by_id x i of None \<Rightarrow> x | Some d \<Rightarrow> v4v_signal_domain env i x)"

definition v4v_pending_notify :: "hyp_env \<Rightarrow> v4v_pending_ent list \<Rightarrow> xen \<Rightarrow> xen" where
  "v4v_pending_notify env to_notify x = fold (\<lambda>ent. v4v_signal_domid env (pe_id ent)) to_notify x"

section \<open>Who may talk to whom\<close>

definition v4v_dm_domid :: domid where "v4v_dm_domid = 0"

definition v4v_resolve_token :: "xen \<Rightarrow> byte list \<Rightarrow> errno + domid" where
  "v4v_resolve_token x token =
     (case rcu_lock_domain_by_uuid x token of None \<Rightarrow> Inl ENOENT | Some d \<Rightarrow> Inr (domain_id d))"

text \<open>The result is the source and the destination domain as the code leaves them.\<close>

definition v4v_validate_channel ::
  "hyp_env \<Rightarrow> xen \<Rightarrow> domid \<Rightarrow> domid \<Rightarrow> bool \<Rightarrow> errno + domid \<times> domid" where
  "v4v_validate_channel env x s_id d_id preauth =
     (let r = (if IS_HOST (current_id env) then
                 (if preauth then Inr (s_id, d_id)
                  else case rcu_lock_remote_target_domain_by_id env x d_id of
                    Some e \<Rightarrow> Inl e | None \<Rightarrow> Inr (s_id, d_id))
               else
                 (let s = (if s_id = V4V_DOMID_ANY then current_id env else s_id)
                  in if s \<noteq> current_id env then Inl EPERM
                     else if d_id = V4V_DOMID_DM then Inr (s, v4v_dm_domid)
                     else Inl EPERM))
      in case r of
           Inl e \<Rightarrow> Inl e
         | Inr (s, d) \<Rightarrow>
             if V4V_DOMID_SELF \<le> s \<and> s \<noteq> V4V_DOMID_ANY then Inl ENOENT
             else if V4V_DOMID_SELF \<le> d \<and> d \<noteq> V4V_DOMID_ANY then Inl ENOENT
             else Inr (s, d))"

section \<open>Lemmas\<close>

lemma dom_find_id: "dom_find x i = Some d \<Longrightarrow> domain_id d = i"
  using find_Some_mem [of "\<lambda>d. domain_id d = i" "domain_list x" d] by (simp add: dom_find_def)

lemma find_map_upd:
  assumes "\<And>d. domain_id (f d) = domain_id d"
  shows "find (\<lambda>d. domain_id d = j) (map (\<lambda>d. if domain_id d = i then f d else d) ds) =
    (if j = i then map_option f (find (\<lambda>d. domain_id d = j) ds) else find (\<lambda>d. domain_id d = j) ds)"
  by (induction ds) (auto simp: assms)

lemma dom_find_upd:
  assumes "\<And>d. domain_id (f d) = domain_id d"
  shows "dom_find (upd_dom i f x) j = (if j = i then map_option f (dom_find x j) else dom_find x j)"
  by (simp add: dom_find_def upd_dom_def find_map_upd [OF assms])

lemma dom_table_upd_table:
  "dom_table (upd_table i f x) j = (if j = i then map_option f (dom_table x j) else dom_table x j)"
  by (auto simp: dom_table_def upd_table_def dom_find_upd split: option.splits)

lemma dom_table_upd_irq:
  "dom_table (upd_dom i (\<lambda>d. d\<lparr>dom_irq := f (dom_irq d)\<rparr>) x) j = dom_table x j"
  by (auto simp: dom_table_def dom_find_upd split: option.splits)

text \<open>
  Signals touch nothing but interrupt lines, the count of calls to the host, and the flag that
  records a \<open>BUG\<close>.
\<close>

definition dom_data :: "xdomain \<Rightarrow> domid \<times> v4v_table option \<times> bool \<times> bool \<times> byte list" where
  "dom_data d = (domain_id d, dom_v4v d, is_dying d, destroyed d, v4v_token d)"

definition irq_pulsed :: "hvm_irq \<Rightarrow> hvm_irq \<Rightarrow> bool" where
  "irq_pulsed h h' \<longleftrightarrow> (\<exists>n. h' = (v4v_irq_pulse ^^ n) h)"

definition dom_quiet :: "xdomain \<Rightarrow> xdomain \<Rightarrow> bool" where
  "dom_quiet d d' \<longleftrightarrow> dom_data d' = dom_data d \<and> irq_pulsed (dom_irq d) (dom_irq d')"

definition quiet :: "hyp_env \<Rightarrow> xen \<Rightarrow> xen \<Rightarrow> bool" where
  "quiet env x x' \<longleftrightarrow> xmem x' = xmem x \<and> page_refs x' = page_refs x \<and>
     list_all2 dom_quiet (domain_list x) (domain_list x') \<and> (ui_running env \<longrightarrow> xen_bug x' = xen_bug x)"

lemma irq_pulsed_refl [simp]: "irq_pulsed h h"
  unfolding irq_pulsed_def by (rule exI [of _ 0]) simp

lemma irq_pulsed_trans: "irq_pulsed a b \<Longrightarrow> irq_pulsed b c \<Longrightarrow> irq_pulsed a c"
  unfolding irq_pulsed_def by (metis comp_apply funpow_add)

lemma irq_pulsed_once: "irq_pulsed h (v4v_irq_pulse h)"
  unfolding irq_pulsed_def by (rule exI [of _ 1]) simp

lemma dom_quiet_refl [simp]: "dom_quiet d d"
  by (simp add: dom_quiet_def)

lemma dom_quiet_trans: "dom_quiet a b \<Longrightarrow> dom_quiet b c \<Longrightarrow> dom_quiet a c"
  using irq_pulsed_trans by (auto simp: dom_quiet_def)

lemma quiet_refl [simp]: "quiet env x x"
  by (simp add: quiet_def list.rel_refl)

lemma quiet_trans:
  assumes "quiet env x y" "quiet env y z"
  shows "quiet env x z"
proof -
  have "list_all2 dom_quiet (domain_list x) (domain_list z)"
    using list_all2_trans [of dom_quiet dom_quiet dom_quiet "domain_list x" "domain_list y" "domain_list z",
        OF dom_quiet_trans] assms by (simp add: quiet_def)
  then show ?thesis using assms by (simp add: quiet_def)
qed

lemma quiet_pulse: "quiet env x (upd_dom i (\<lambda>d. d\<lparr>dom_irq := v4v_irq_pulse (dom_irq d)\<rparr>) x)"
  by (simp add: quiet_def upd_dom_def list.rel_map list_all2_same dom_quiet_def dom_data_def irq_pulsed_once)

lemma quiet_signals: "quiet env x (x\<lparr>host_signals := n\<rparr>)" "\<not> ui_running env \<Longrightarrow> quiet env x (x\<lparr>xen_bug := b\<rparr>)"
  by (simp_all add: quiet_def list_all2_same)

lemma signal_domain_quiet:
  assumes "dom_find x i \<noteq> None"
  shows "quiet env x (v4v_signal_domain env i x)"
  using assms by (auto simp: v4v_signal_domain_def quiet_pulse quiet_signals)

lemma signal_domid_quiet: "quiet env x (v4v_signal_domid env i x)"
  by (auto simp: v4v_signal_domid_def get_domain_by_id_def intro!: signal_domain_quiet split: option.split)

lemma pending_notify_quiet: "quiet env x (v4v_pending_notify env es x)"
  unfolding v4v_pending_notify_def
  by (induction es arbitrary: x) (auto intro: quiet_trans signal_domid_quiet)

lemma list_all2_find:
  assumes "list_all2 dom_quiet ds ds'"
  shows "rel_option dom_quiet (find (\<lambda>d. domain_id d = i) ds) (find (\<lambda>d. domain_id d = i) ds')"
  using assms by (induction rule: list_all2_induct) (auto simp: dom_quiet_def dom_data_def)

lemma quiet_find: "quiet env x x' \<Longrightarrow> rel_option dom_quiet (dom_find x i) (dom_find x' i)"
  by (simp add: quiet_def dom_find_def list_all2_find)

lemma quiet_table:
  assumes "quiet env x x'"
  shows "dom_table x' i = dom_table x i"
  using quiet_find [OF assms, of i]
  by (auto simp: dom_table_def dom_quiet_def dom_data_def split: option.splits)

lemma validate_guest:
  assumes "v4v_validate_channel env x s d preauth = Inr (s', d')" "\<not> IS_HOST (current_id env)"
  shows "s' = current_id env" "d' = 0" "d = V4V_DOMID_DM" "s = current_id env \<or> s = V4V_DOMID_ANY"
  using assms by (auto simp: v4v_validate_channel_def v4v_dm_domid_def Let_def split: if_splits)

lemma validate_host:
  assumes "v4v_validate_channel env x s d preauth = Inr (s', d')" "IS_HOST (current_id env)"
  shows "s' = s" "d' = d"
  using assms by (auto simp: v4v_validate_channel_def split: if_splits option.splits)

end
