(* ===== verification/V4v_Hypercall.thy ===== *)
theory V4v_Hypercall
  imports V4v_Domain
begin

text \<open>
  The hypercalls of V4V (\<open>xen/common/v4v.c\<close>): registering, creating and removing rings, the
  translation of a ring's page list, sending, asking for notifications, the dispatcher
  \<open>do_v4v_op\<close>, and the life cycle of a domain's V4V state.

  Every operation takes the state \<open>xen\<close> and returns an error, if any, with the new state.  The
  locks, the log messages and the reference counts of \<open>struct domain\<close> are left out; a \<open>BUG ()\<close>, a failed
  \<open>BUG_ON\<close> or a use of a null pointer sets \<open>xen_bug\<close>.  The \<open>ASSERT\<close>s, which only debugging builds check, are not
  modelled.
\<close>

section \<open>Structures and constants\<close>

definition V4V_RING_MAGIC :: nat where "V4V_RING_MAGIC = 0xac67e163e7267f2f"
definition V4V_PFN_LIST_MAGIC :: nat where "V4V_PFN_LIST_MAGIC = 0x91dd6159045b302d"
definition V4V_RING_DATA_MAGIC :: nat where "V4V_RING_DATA_MAGIC = 0x4ce4d30fbc82e92a"

definition V4V_RING_DATA_F_EMPTY :: nat where "V4V_RING_DATA_F_EMPTY = 1"
definition V4V_RING_DATA_F_EXISTS :: nat where "V4V_RING_DATA_F_EXISTS = 2"
definition V4V_RING_DATA_F_PENDING :: nat where "V4V_RING_DATA_F_PENDING = 4"
definition V4V_RING_DATA_F_SUFFICIENT :: nat where "V4V_RING_DATA_F_SUFFICIENT = 8"

lemmas ring_data_flags = V4V_RING_DATA_F_EMPTY_def V4V_RING_DATA_F_EXISTS_def V4V_RING_DATA_F_PENDING_def
  V4V_RING_DATA_F_SUFFICIENT_def

record v4v_ring_data_ent =
  de_ring :: v4v_addr
  de_flags :: nat
  de_space_required :: nat
  de_max_message_size :: nat

definition parse_addr :: "byte list \<Rightarrow> v4v_addr" where
  "parse_addr bs = \<lparr>a_port = of_nat (get_field bs 0 4), a_domain = of_nat (get_field bs 4 2)\<rparr>"

definition parse_ring_id :: "byte list \<Rightarrow> v4v_ring_id" where
  "parse_ring_id bs = \<lparr>id_addr = parse_addr bs, id_partner = of_nat (get_field bs 6 2)\<rparr>"

definition encode_ring_id :: "v4v_ring_id \<Rightarrow> byte list" where
  "encode_ring_id i =
     le_bytes 4 (unat (a_port (id_addr i))) @ le_bytes 2 (unat (a_domain (id_addr i))) @
     le_bytes 2 (unat (id_partner i))"

definition parse_ring_data_ent :: "byte list \<Rightarrow> v4v_ring_data_ent" where
  "parse_ring_data_ent bs =
     \<lparr>de_ring = parse_addr bs, de_flags = get_field bs 6 2, de_space_required = get_field bs 8 4,
      de_max_message_size = get_field bs 12 4\<rparr>"

text \<open>Copies between the caller's memory and hypervisor variables.\<close>

definition copy_in :: "hyp_env \<Rightarrow> xen \<Rightarrow> nat \<Rightarrow> nat \<Rightarrow> errno + byte list" where
  "copy_in env x addr n = copy_from_guest_errno (cur (henv env)) (xmem x) addr n"

definition copy_out :: "hyp_env \<Rightarrow> nat \<Rightarrow> byte list \<Rightarrow> xen \<Rightarrow> errno option \<times> xen" where
  "copy_out env addr bs x =
     (case copy_to_guest_errno (cur (henv env)) (xmem x) addr bs of (r, mem) \<Rightarrow> (r, x\<lparr>xmem := mem\<rparr>))"

section \<open>Asking about other rings\<close>

text \<open>What is answered about a ring that exists: flags, largest message, and the ring after it.\<close>

definition ring_data_reply ::
  "hyp_env \<Rightarrow> mem \<Rightarrow> v4v_ring_info \<Rightarrow> domid \<Rightarrow> nat \<Rightarrow> nat \<times> nat \<times> v4v_ring_info" where
  "ring_data_reply env mem info src space_required =
     (let max_message_size = u32_sub (u32_sub (ri_len info) SIZEOF_MH) (V4V_ROUNDUP 1);
          (space_avail, info1) = v4v_ringbuf_payload_space (henv env) mem info;
          (flag, info2) =
            (if space_required \<le> space_avail
             then (V4V_RING_DATA_F_SUFFICIENT, v4v_pending_cancel info1 src)
             else (V4V_RING_DATA_F_PENDING,
                   snd (v4v_pending_requeue (xmalloc_ok env (A_pending (ri_id info))) info1 src
                          (int space_required))));
          empty = (if space_avail = max_message_size then V4V_RING_DATA_F_EMPTY else 0)
      in (V4V_RING_DATA_F_EXISTS + flag + empty, max_message_size, info2))"

definition fill_ring_answer ::
  "hyp_env \<Rightarrow> domid \<Rightarrow> domid \<Rightarrow> v4v_ring_data_ent \<Rightarrow> xen \<Rightarrow> nat \<times> nat \<times> xen" where
  "fill_ring_answer env src dst ent x =
     (case get_domain_by_id x dst of
        None \<Rightarrow> (0, de_max_message_size ent, x)
      | Some d \<Rightarrow>
          (case dom_v4v d of
             None \<Rightarrow> (0, de_max_message_size ent, x)
           | Some tbl \<Rightarrow>
               (case v4v_ring_find_info_by_addr dst tbl (de_ring ent) src of
                  None \<Rightarrow> (0, de_max_message_size ent, x)
                | Some info \<Rightarrow>
                    (case ring_data_reply env (xmem x) info src (de_space_required ent) of
                       (flags, max_size, info') \<Rightarrow> (flags, max_size, upd_table dst (tbl_store info') x)))))"

definition v4v_fill_ring_data :: "hyp_env \<Rightarrow> domid \<Rightarrow> nat \<Rightarrow> xen \<Rightarrow> errno option \<times> xen" where
  "v4v_fill_ring_data env src_d hnd x =
     (case copy_in env x hnd 16 of
        Inl e \<Rightarrow> (Some e, x)
      | Inr bs \<Rightarrow>
          (let ent = parse_ring_data_ent bs
           in case v4v_validate_channel env x src_d (a_domain (de_ring ent)) True of
                Inl e \<Rightarrow> (Some e, x)
              | Inr (src, dst) \<Rightarrow>
                  (let (flags, max_size, x1) = fill_ring_answer env src dst ent x;
                       (r, x2) = copy_out env (u64 (hnd + 6)) (le_bytes 2 flags) x1
                   in case r of
                        Some e \<Rightarrow> (Some e, x2)
                      | None \<Rightarrow> copy_out env (u64 (hnd + 12)) (le_bytes 4 max_size) x2)))"

fun v4v_fill_ring_datas :: "hyp_env \<Rightarrow> domid \<Rightarrow> nat \<Rightarrow> nat \<Rightarrow> xen \<Rightarrow> errno option \<times> xen" where
  "v4v_fill_ring_datas env d 0 hnd x = (None, x)"
| "v4v_fill_ring_datas env d (Suc nent) hnd x =
     (case v4v_fill_ring_data env d hnd x of
        (Some e, x1) \<Rightarrow> (Some e, x1)
      | (None, x1) \<Rightarrow> v4v_fill_ring_datas env d nent (u64 (hnd + 16)) x1)"

section \<open>The pages of a ring\<close>

type_synonym refs = "mfn \<Rightarrow> int"

definition get_page :: "mfn \<Rightarrow> refs \<Rightarrow> refs" where "get_page m r = r(m := r m + 1)"
definition put_page :: "mfn \<Rightarrow> refs \<Rightarrow> refs" where "put_page m r = r(m := r m - 1)"

text \<open>The caller registers its own rings, so \<open>d\<close> is the domain of \<open>current\<close>.\<close>

definition v4v_find_ring_mfn :: "hyp_env \<Rightarrow> domid \<Rightarrow> nat \<Rightarrow> refs \<Rightarrow> (errno + mfn) \<times> refs" where
  "v4v_find_ring_mfn env d pfn r =
     (if IS_HOST d then
        (if \<not> is_sys_privileged env then (Inl EPERM, r)
         else if \<not> mfn_valid env pfn then (Inl EINVAL, r)
         else (Inr pfn, r))
      else
        (case get_gfn_unshare (cur (henv env)) pfn of
           P2M_retry \<Rightarrow> (Inl ECONTINUATION, r)
         | e \<Rightarrow> (if get_page_ok env (p2m_mfn e) then (Inr (p2m_mfn e), get_page (p2m_mfn e) r)
                 else (Inl EINVAL, r))))"

text \<open>
  Frame 0 is skipped.  No reference to it is ever taken: \<open>__mfn_valid_page (0)\<close> is false, so \<open>get_page_ok\<close>, whose
  meaning this is part of, does not hold of it.
\<close>

definition v4v_ring_remove_mfns :: "v4v_ring_info \<Rightarrow> bool \<Rightarrow> refs \<Rightarrow> v4v_ring_info \<times> refs" where
  "v4v_ring_remove_mfns info put_pages r =
     (case ri_mfns info of
        None \<Rightarrow> (info, r)
      | Some ms \<Rightarrow>
          (let info1 = v4v_ring_unmap info;
               r1 = (if put_pages
                     then fold (\<lambda>i r. if the (ms ! i) \<noteq> 0 then put_page (the (ms ! i)) r else r)
                            [0..<ri_nmfns info1] r
                     else r)
           in (info1\<lparr>ri_mfns := None, ri_npage := 0, ri_mfn_mapping := None, ri_nmfns := 0\<rparr>, r1)))"

definition read_pfn :: "hyp_env \<Rightarrow> mem \<Rightarrow> nat \<Rightarrow> nat \<Rightarrow> errno + nat" where
  "read_pfn env mem pfn_hnd i =
     map_sum id le_val (copy_from_guest_errno (cur (henv env)) mem (u64 (pfn_hnd + 8 * i)) 8)"

text \<open>Do the pages translated before still translate to the same frames?\<close>

fun recheck_loop ::
  "hyp_env \<Rightarrow> domid \<Rightarrow> mem \<Rightarrow> nat \<Rightarrow> mfn option list \<Rightarrow> nat list \<Rightarrow> refs \<Rightarrow> bool \<times> refs" where
  "recheck_loop env d mem pfn_hnd ms [] r = (True, r)"
| "recheck_loop env d mem pfn_hnd ms (i # is) r =
     (case read_pfn env mem pfn_hnd i of
        Inl e \<Rightarrow> (False, r)
      | Inr pfn \<Rightarrow>
          (case v4v_find_ring_mfn env d pfn r of
             (Inl e, r1) \<Rightarrow> (False, r1)
           | (Inr m, r1) \<Rightarrow>
               (let r2 = (if IS_HOST d then r1 else put_page m r1)
                in if Some m \<noteq> ms ! i then (False, r2)
                   else recheck_loop env d mem pfn_hnd ms is r2)))"

text \<open>
  Translating the remaining pages.  The boolean tells an immediate return, when the hypercall has
  to be retried for lack of free pages, from a \<open>break\<close>.  Whether free pages are needed does not change
  during a hypercall, so an HVM caller is told to retry by the copy before the loop already.
\<close>

fun fetch_loop ::
  "hyp_env \<Rightarrow> domid \<Rightarrow> mem \<Rightarrow> nat \<Rightarrow> nat list \<Rightarrow> v4v_ring_info \<Rightarrow> refs \<Rightarrow>
     bool \<times> errno option \<times> v4v_ring_info \<times> refs" where
  "fetch_loop env d mem pfn_hnd [] info r = (False, None, info, r)"
| "fetch_loop env d mem pfn_hnd (i # is) info r =
     (if free_pages_needed (cur (henv env)) then (True, Some ERETRY, info, r)
      else case read_pfn env mem pfn_hnd i of
        Inl e \<Rightarrow> (False, Some e, info, r)
      | Inr pfn \<Rightarrow>
          (case v4v_find_ring_mfn env d pfn r of
             (Inl e, r1) \<Rightarrow> (False, Some e, info, r1)
           | (Inr m, r1) \<Rightarrow>
               fetch_loop env d mem pfn_hnd is
                 (info\<lparr>ri_mfns := Some ((the (ri_mfns info))[i := Some m]), ri_nmfns := i + 1,
                       ri_mfn_mapping := Some ((the (ri_mfn_mapping info))[i := Null])\<rparr>) r1))"

definition alloc_mfns :: "hyp_env \<Rightarrow> nat \<Rightarrow> v4v_ring_info \<Rightarrow> errno + v4v_ring_info" where
  "alloc_mfns env npage info =
     (if ri_mfns info \<noteq> None then Inr info
      else if \<not> xmalloc_ok env (A_mfns (ri_id info)) then Inl ENOMEM
      else if \<not> xmalloc_ok env (A_mapping (ri_id info)) then Inl ENOMEM
      else Inr (info\<lparr>ri_npage := npage, ri_mfns := Some (replicate npage None),
                     ri_mfn_mapping := Some (replicate npage Unset)\<rparr>))"

definition recheck_mfns ::
  "hyp_env \<Rightarrow> domid \<Rightarrow> mem \<Rightarrow> nat \<Rightarrow> nat \<Rightarrow> v4v_ring_info \<Rightarrow> refs \<Rightarrow> v4v_ring_info \<times> refs" where
  "recheck_mfns env d mem pfn_hnd npage info r =
     (case ri_mfns info of
        None \<Rightarrow> (info, r)
      | Some ms \<Rightarrow>
          (let (same, r1) = (if ri_npage info \<noteq> npage then (False, r)
                             else recheck_loop env d mem pfn_hnd ms [0..<ri_nmfns info] r)
           in if same then (info, r1)
              else v4v_ring_remove_mfns info (\<not> IS_HOST (current_id env)) r1))"

definition v4v_find_ring_mfns ::
  "hyp_env \<Rightarrow> domid \<Rightarrow> mem \<Rightarrow> v4v_ring_info \<Rightarrow> nat \<Rightarrow> nat \<Rightarrow> refs \<Rightarrow> errno option \<times> v4v_ring_info \<times> refs" where
  "v4v_find_ring_mfns env d mem info pfn_list_hnd len r =
     (case copy_from_guest_errno (cur (henv env)) mem pfn_list_hnd 40 of
        Inl e \<Rightarrow> (Some e, info, r)
      | Inr bs \<Rightarrow>
          (let magic = get_field bs 0 8; npage = get_field bs 8 4; pfn_hnd = u64 (pfn_list_hnd + 40)
           in if magic \<noteq> V4V_PFN_LIST_MAGIC then (Some EINVAL, info, r)
              else if u32 (npage * PAGE_SIZE) < len then (Some EINVAL, info, r)
              else if V4V_MAX_RING_SIZE div PAGE_SIZE < npage then (Some EINVAL, info, r)
              else
                (let (info1, r1) = recheck_mfns env d mem pfn_hnd npage info r
                 in case alloc_mfns env npage info1 of
                      Inl e \<Rightarrow> (Some e, info1, r1)
                    | Inr info2 \<Rightarrow>
                        (if ri_nmfns info2 = ri_npage info2 then (None, info2, r1)
                         else
                           (case fetch_loop env d mem pfn_hnd [ri_nmfns info2..<ri_npage info2] info2 r1 of
                              (ret, e, info3, r3) \<Rightarrow>
                                (if \<not> ret \<and> e \<noteq> None \<and> e \<noteq> Some ECONTINUATION
                                 then (case v4v_ring_remove_mfns info3 (\<not> IS_HOST (current_id env)) r3 of
                                         (info4, r4) \<Rightarrow> (e, info4, r4))
                                 else (e, info3, r3)))))))"

section \<open>Removing rings\<close>

definition v4v_ring_reset :: "v4v_ring_info \<Rightarrow> bool \<Rightarrow> refs \<Rightarrow> v4v_ring_info \<times> refs" where
  "v4v_ring_reset info put_pages r =
     (let (info1, r1) = v4v_ring_remove_mfns info put_pages r
      in (info1\<lparr>ri_len := 0, ri_tx_ptr := 0, ri_ring := 0, ri_nmfns := 0\<rparr>, r1))"

text \<open>The descriptor is unlinked and freed; what is left is the effect on the page references.\<close>

definition v4v_ring_remove_info :: "domid \<Rightarrow> v4v_ring_info \<Rightarrow> bool \<Rightarrow> xen \<Rightarrow> xen" where
  "v4v_ring_remove_info d info put_pages x =
     (upd_table d (tbl_del (ri_id info)) x)
       \<lparr>page_refs := snd (v4v_ring_remove_mfns (v4v_pending_remove_all info) put_pages (page_refs x))\<rparr>"

definition v4v_ring_remove :: "hyp_env \<Rightarrow> domid \<Rightarrow> nat \<Rightarrow> xen \<Rightarrow> errno option \<times> xen" where
  "v4v_ring_remove env d ring_hnd x =
     (case dom_table x d of
        None \<Rightarrow> (Some EINVAL, x)
      | Some tbl \<Rightarrow>
          (case copy_in env x ring_hnd SIZEOF_RING of
             Inl e \<Rightarrow> (Some e, x)
           | Inr bs \<Rightarrow>
               (let ring = parse_ring bs; rid = rg_id ring
                in if rg_magic ring \<noteq> V4V_RING_MAGIC then (Some EINVAL, x)
                   else case v4v_validate_channel env x d (id_partner rid) True of
                     Inl e \<Rightarrow> (Some e, x)
                   | Inr (s, p) \<Rightarrow>
                       (case v4v_ring_find_info tbl
                               \<lparr>id_addr = \<lparr>a_port = a_port (id_addr rid), a_domain = s\<rparr>, id_partner = p\<rparr> of
                          None \<Rightarrow> (Some ENOENT, x)
                        | Some info \<Rightarrow> (None, v4v_ring_remove_info d info (\<not> IS_HOST d) x)))))"

section \<open>Creating and registering rings\<close>

definition new_info :: "v4v_ring_id \<Rightarrow> v4v_ring_info" where
  "new_info rid = \<lparr>ri_id = rid, ri_len = 0, ri_tx_ptr = 0, ri_ring = 0, ri_npage = 0, ri_nmfns = 0,
     ri_mfns = None, ri_mfn_mapping = None, ri_pending = []\<rparr>"

definition v4v_ring_create :: "hyp_env \<Rightarrow> domid \<Rightarrow> nat \<Rightarrow> xen \<Rightarrow> errno option \<times> xen" where
  "v4v_ring_create env d ring_id_hnd x =
     (if \<not> IS_HOST (current_id env) then (Some EPERM, x)
      else case copy_in env x ring_id_hnd 8 of
        Inl e \<Rightarrow> (Some e, x)
      | Inr bs \<Rightarrow>
          (let rid0 = parse_ring_id bs;
               partner = (if id_partner rid0 \<noteq> V4V_DOMID_ANY then d else id_partner rid0)
           in case v4v_validate_channel env x (a_domain (id_addr rid0)) partner True of
                Inl e \<Rightarrow> (Some e, x)
              | Inr (s, p) \<Rightarrow>
                  (let rid = \<lparr>id_addr = \<lparr>a_port = a_port (id_addr rid0), a_domain = s\<rparr>, id_partner = p\<rparr>
                   in case get_domain_by_id x s of
                        None \<Rightarrow> (Some ENOENT, x)
                      | Some dst \<Rightarrow>
                          (case dom_v4v dst of
                             None \<Rightarrow> (Some ENOENT, x)
                           | Some tbl \<Rightarrow>
                               (if v4v_ring_find_info tbl rid \<noteq> None then (None, x)
                                else if \<not> xmalloc_ok env (A_ring_info rid)
                                then (Some ENOMEM, x\<lparr>xen_bug := True\<rparr>)
                                else (None, upd_table s (tbl_add (new_info rid)) x))))))"

text \<open>
  The checks of \<open>v4v_ring_add\<close>, up to the point where the ring is looked up: the identifier, the
  length and the transmit pointer the ring will have.
\<close>

definition add_partner :: "hyp_env \<Rightarrow> domid \<Rightarrow> nat \<Rightarrow> xen \<Rightarrow> errno + domid \<times> bool" where
  "add_partner env partner idtoken x =
     (if partner = V4V_DOMID_UUID then
        (case copy_in env x idtoken 16 of
           Inl e \<Rightarrow> Inl e
         | Inr token \<Rightarrow> map_sum id (\<lambda>p. (p, True)) (v4v_resolve_token x token))
      else Inr (partner, False))"

definition add_tx_ptr :: "v4v_ring \<Rightarrow> nat" where
  "add_tx_ptr ring =
     (if rg_len ring \<le> rg_tx_ptr ring \<or> V4V_ROUNDUP (rg_tx_ptr ring) \<noteq> rg_tx_ptr ring then
        (if rg_len ring \<le> V4V_ROUNDUP (rg_rx_ptr ring) then 0 else V4V_ROUNDUP (rg_rx_ptr ring))
      else rg_tx_ptr ring)"

definition ring_add_check ::
  "hyp_env \<Rightarrow> domid \<Rightarrow> nat \<Rightarrow> nat \<Rightarrow> xen \<Rightarrow> (errno + v4v_ring_id \<times> nat \<times> nat) \<times> xen" where
  "ring_add_check env d ring_hnd idtoken x =
     (case copy_in env x ring_hnd SIZEOF_RING of
        Inl e \<Rightarrow> (Inl e, x)
      | Inr bs \<Rightarrow>
          (let ring = parse_ring bs; port = a_port (id_addr (rg_id ring)); partner = id_partner (rg_id ring)
           in if rg_magic ring \<noteq> V4V_RING_MAGIC then (Inl EINVAL, x)
              else if rg_len ring < SIZEOF_MH + V4V_ROUNDUP 1 + V4V_ROUNDUP 1 \<or>
                      V4V_ROUNDUP (rg_len ring) \<noteq> rg_len ring then (Inl EINVAL, x)
              else if V4V_MAX_RING_SIZE < rg_len ring then (Inl EINVAL, x)
              else case add_partner env partner idtoken x of
                Inl e \<Rightarrow> (Inl e, x)
              | Inr (pid, authorized) \<Rightarrow>
                  (case v4v_validate_channel env x d pid authorized of
                     Inl e \<Rightarrow> (Inl e, x)
                   | Inr (s, p) \<Rightarrow>
                       (let rid = (\<lambda>q. \<lparr>id_addr = \<lparr>a_port = port, a_domain = s\<rparr>, id_partner = q\<rparr>);
                            back = (if partner \<noteq> V4V_DOMID_DM then p else partner);
                            partner' = (if back = V4V_DOMID_DM then p else back);
                            tx = add_tx_ptr ring
                        in case copy_out env (u64 (ring_hnd + 8)) (encode_ring_id (rid back)) x of
                             (Some e, x1) \<Rightarrow> (Inl e, x1)
                           | (None, x1) \<Rightarrow>
                               (if rg_len ring \<le> rg_tx_ptr ring \<or> V4V_ROUNDUP (rg_tx_ptr ring) \<noteq> rg_tx_ptr ring
                                then (case copy_out env (u64 (ring_hnd + OFF_TX_PTR)) (le_bytes 4 tx) x1 of
                                        (Some e, x2) \<Rightarrow> (Inl e, x2)
                                      | (None, x2) \<Rightarrow> (Inr (rid partner', rg_len ring, tx), x2))
                                else (Inr (rid partner', rg_len ring, tx), x1))))))"

text \<open>Translating the pages of the ring found or made, and mapping the first one.\<close>

definition ring_add_publish ::
  "hyp_env \<Rightarrow> domid \<Rightarrow> v4v_ring_info \<Rightarrow> nat \<Rightarrow> nat \<Rightarrow> nat \<Rightarrow> nat \<Rightarrow> xen \<Rightarrow> errno option \<times> xen" where
  "ring_add_publish env d info len tx ring_hnd pfn_list_hnd x =
     (let (r, info2, refs') = v4v_find_ring_mfns env d (xmem x) (info\<lparr>ri_tx_ptr := tx, ri_ring := ring_hnd\<rparr>)
                                pfn_list_hnd len (page_refs x);
          (r3, info3) = (case r of
                           Some e \<Rightarrow> (Some e, info2)
                         | None \<Rightarrow> (case v4v_ring_map_page (henv env) info2 0 of
                                     (Inl e, i) \<Rightarrow> (Some e, i)
                                   | (Inr _, i) \<Rightarrow> (None, i)));
          info4 = (if r3 = None then info3\<lparr>ri_len := len\<rparr> else info3)
      in (r3, (upd_table d (tbl_store info4) x)\<lparr>page_refs := refs'\<rparr>))"

definition ring_add_install ::
  "hyp_env \<Rightarrow> domid \<Rightarrow> v4v_ring_id \<Rightarrow> nat \<Rightarrow> nat \<Rightarrow> nat \<Rightarrow> nat \<Rightarrow> nat \<Rightarrow> xen \<Rightarrow> errno option \<times> xen" where
  "ring_add_install env d rid len tx ring_hnd pfn_list_hnd fail_exist x =
     (case dom_table x d of
        None \<Rightarrow> (Some EINVAL, x)
      | Some tbl \<Rightarrow>
          (case v4v_ring_find_info tbl rid of
             None \<Rightarrow>
               (if \<not> xmalloc_ok env (A_ring_info rid) then (Some ENOMEM, x)
                else ring_add_publish env d (new_info rid) len tx ring_hnd pfn_list_hnd
                       (upd_table d (tbl_add (new_info rid)) x))
           | Some info \<Rightarrow>
               (if fail_exist \<noteq> 0 \<and> ri_len info \<noteq> 0 then (Some EEXIST, x)
                else ring_add_publish env d info len tx ring_hnd pfn_list_hnd x)))"

section \<open>Notifications\<close>

fun map_acc :: "('a \<Rightarrow> 's \<Rightarrow> 'a \<times> 's) \<Rightarrow> 'a list \<Rightarrow> 's \<Rightarrow> 'a list \<times> 's" where
  "map_acc f [] s = ([], s)"
| "map_acc f (a # as) s = (let (a', s1) = f a s; (as', s2) = map_acc f as s1 in (a' # as', s2))"

definition v4v_notify_ring ::
  "hyp_env \<Rightarrow> mem \<Rightarrow> v4v_ring_info \<Rightarrow> v4v_pending_ent list \<Rightarrow> v4v_ring_info \<times> v4v_pending_ent list" where
  "v4v_notify_ring env mem info to_notify =
     (let (space, info1) = (if ri_len info \<noteq> 0 then v4v_ringbuf_payload_space (henv env) mem info else (0, info))
      in if space \<noteq> 0 then v4v_pending_find info1 space to_notify else (info1, to_notify))"

definition v4v_notify_check_pending :: "hyp_env \<Rightarrow> domid \<Rightarrow> xen \<Rightarrow> xen" where
  "v4v_notify_check_pending env d x =
     (case dom_table x d of
        None \<Rightarrow> x\<lparr>xen_bug := True\<rparr>
      | Some tbl \<Rightarrow>
          (let (tbl', to_notify) = map_acc (map_acc (v4v_notify_ring env (xmem x))) tbl []
           in v4v_pending_notify env to_notify (upd_table d (\<lambda>_. tbl') x)))"

definition v4v_ring_add :: "hyp_env \<Rightarrow> domid \<Rightarrow> nat \<Rightarrow> nat \<Rightarrow> nat \<Rightarrow> nat \<Rightarrow> xen \<Rightarrow> errno option \<times> xen" where
  "v4v_ring_add env d ring_hnd pfn_list_hnd idtoken fail_exist x =
     (if ring_hnd mod PAGE_SIZE \<noteq> 0 then (Some EINVAL, x)
      else case dom_table x d of
        None \<Rightarrow> (Some EINVAL, x)
      | Some _ \<Rightarrow>
          (case ring_add_check env d ring_hnd idtoken x of
             (Inl e, x1) \<Rightarrow> (Some e, x1)
           | (Inr (rid, len, tx), x1) \<Rightarrow>
               (case ring_add_install env d rid len tx ring_hnd pfn_list_hnd fail_exist x1 of
                  (Some e, x2) \<Rightarrow> (Some e, x2)
                | (None, x2) \<Rightarrow> (None, v4v_notify_check_pending env d x2))))"

definition v4v_notify :: "hyp_env \<Rightarrow> domid \<Rightarrow> nat \<Rightarrow> xen \<Rightarrow> errno option \<times> xen" where
  "v4v_notify env d hnd x =
     (case dom_table x d of
        None \<Rightarrow> (Some ENODEV, x)
      | Some _ \<Rightarrow>
          (let x1 = v4v_notify_check_pending env d x
           in if hnd = 0 then (None, x1)
              else case copy_in env x1 hnd 8 of
                Inl e \<Rightarrow> (Some e, x1)
              | Inr magic \<Rightarrow>
                  (if le_val magic \<noteq> V4V_RING_DATA_MAGIC then (Some EINVAL, x1)
                   else case copy_in env x1 hnd 48 of
                     Inl e \<Rightarrow> (Some e, x1)
                   | Inr bs \<Rightarrow> v4v_fill_ring_datas env d (get_field bs 8 4) (u64 (hnd + 48)) x1)))"

section \<open>Sending\<close>

text \<open>The insertion into the ring found, and what follows from its result.\<close>

definition send_to_ring ::
  "hyp_env \<Rightarrow> domid \<Rightarrow> v4v_ring_info \<Rightarrow> v4v_ring_id \<Rightarrow> u32w \<Rightarrow> nat \<Rightarrow> int \<Rightarrow> nat \<Rightarrow> nat \<Rightarrow> xen \<Rightarrow> (errno + int) \<times> xen" where
  "send_to_ring env dst info src_id proto buf len iovs niov x =
     (case v4v_ringbuf_insert (henv env) (xmem x) info src_id proto buf len iovs niov of
        (ret, n, info1, mem1) \<Rightarrow>
          (let (ret2, info2) =
                 (if ret = Some EAGAIN then
                    (case v4v_pending_requeue (xmalloc_ok env (A_pending (ri_id info))) info1
                            (a_domain (id_addr src_id)) n of
                       (None, i) \<Rightarrow> (ret, i)
                     | (Some _, i) \<Rightarrow> (Some ENOMEM, i))
                  else (ret, info1));
               x1 = upd_table dst (tbl_store info2) (x\<lparr>xmem := mem1\<rparr>)
           in case ret2 of
                None \<Rightarrow> (Inr n, v4v_signal_domain env dst x1)
              | Some e \<Rightarrow> (Inl e, x1)))"

definition v4v_send ::
  "hyp_env \<Rightarrow> domid \<Rightarrow> v4v_addr \<Rightarrow> v4v_addr \<Rightarrow> u32w \<Rightarrow> nat \<Rightarrow> int \<Rightarrow> nat \<Rightarrow> nat \<Rightarrow> xen \<Rightarrow> (errno + int) \<times> xen" where
  "v4v_send env src_d src_addr dst_addr proto buf len iovs niov x =
     (case dom_table x src_d of
        None \<Rightarrow> (Inl EINVAL, x)
      | Some _ \<Rightarrow>
          (case v4v_validate_channel env x (a_domain src_addr) (a_domain dst_addr) True of
             Inl e \<Rightarrow> (Inl e, x)
           | Inr (s, dst) \<Rightarrow>
               (let src_id = \<lparr>id_addr = \<lparr>a_port = a_port src_addr, a_domain = s\<rparr>, id_partner = dst\<rparr>
                in case get_domain_by_id x dst of
                     None \<Rightarrow> (Inl ECONNREFUSED, x)
                   | Some d \<Rightarrow>
                       (case dom_v4v d of
                          None \<Rightarrow> (Inl ECONNREFUSED, x)
                        | Some tbl \<Rightarrow>
                            (case v4v_ring_find_info_by_addr dst tbl dst_addr s of
                               None \<Rightarrow> (Inl ECONNREFUSED, v4v_signal_domain env dst x)
                             | Some info \<Rightarrow> send_to_ring env dst info src_id proto buf len iovs niov x)))))"

section \<open>The dispatcher\<close>

definition V4VOP_register_ring :: int where "V4VOP_register_ring = 1"
definition V4VOP_unregister_ring :: int where "V4VOP_unregister_ring = 2"
definition V4VOP_send :: int where "V4VOP_send = 3"
definition V4VOP_notify :: int where "V4VOP_notify = 4"
definition V4VOP_sendv :: int where "V4VOP_sendv = 5"
definition V4VOP_create_ring :: int where "V4VOP_create_ring = 7"

lemmas v4v_ops = V4VOP_register_ring_def V4VOP_unregister_ring_def V4VOP_send_def V4VOP_notify_def
  V4VOP_sendv_def V4VOP_create_ring_def

definition okay :: "hyp_env \<Rightarrow> nat \<Rightarrow> nat \<Rightarrow> bool" where
  "okay env addr n = guest_handle_okay (cur (henv env)) addr n"

definition status :: "errno option \<times> xen \<Rightarrow> (errno + int) \<times> xen" where
  "status rx = (case rx of (None, x) \<Rightarrow> (Inr 0, x) | (Some e, x) \<Rightarrow> (Inl e, x))"

text \<open>
  Reading the two addresses of a send; the source domain is always the caller.  \<open>Inl\<close> is what the
  hypercall returns at once: after the first copy has succeeded \<open>rc\<close> is 0, and this is what a bad
  destination handle makes it return.
\<close>

definition send_addrs :: "hyp_env \<Rightarrow> nat \<Rightarrow> nat \<Rightarrow> xen \<Rightarrow> (errno + int) + v4v_addr \<times> v4v_addr" where
  "send_addrs env src_hnd dst_hnd x =
     (if \<not> okay env src_hnd 6 then Inl (Inl EFAULT)
      else case copy_in env x src_hnd 6 of
        Inl e \<Rightarrow> Inl (Inl e)
      | Inr sb \<Rightarrow>
          (if \<not> okay env dst_hnd 6 then Inl (Inr 0)
           else case copy_in env x dst_hnd 6 of
             Inl e \<Rightarrow> Inl (Inl e)
           | Inr db \<Rightarrow> Inr ((parse_addr sb)\<lparr>a_domain := current_id env\<rparr>, parse_addr db)))"

definition do_v4v_op ::
  "hyp_env \<Rightarrow> int \<Rightarrow> nat \<Rightarrow> nat \<Rightarrow> nat \<Rightarrow> nat \<Rightarrow> nat \<Rightarrow> xen \<Rightarrow> (errno + int) \<times> xen" where
  "do_v4v_op env cmd arg1 arg2 arg3 arg4 arg5 x =
     (let d = current_id env
      in if IS_HOST d \<and> \<not> is_sys_privileged env then (Inl EPERM, x)
         else if cmd = V4VOP_register_ring then
           (if \<not> okay env arg1 64 \<or> \<not> okay env arg2 40 \<or> \<not> okay env arg3 16 then (Inl EFAULT, x)
            else status (v4v_ring_add env d arg1 arg2 arg3 arg4 x))
         else if cmd = V4VOP_unregister_ring then
           (if \<not> okay env arg1 64 then (Inl EFAULT, x) else status (v4v_ring_remove env d arg1 x))
         else if cmd = V4VOP_send then
           (case send_addrs env arg1 arg2 x of
              Inl rc \<Rightarrow> (rc, x)
            | Inr (src, dst) \<Rightarrow> v4v_send env d src dst (of_nat arg5) arg3 (s32 (int arg4)) 0 0 x)
         else if cmd = V4VOP_sendv then
           (case send_addrs env arg1 arg2 x of
              Inl rc \<Rightarrow> (rc, x)
            | Inr (src, dst) \<Rightarrow>
                (if \<not> okay env arg3 (16 * arg4) then (Inr 0, x)
                 else v4v_send env d src dst (of_nat arg5) 0 0 arg3 arg4 x))
         else if cmd = V4VOP_notify then status (v4v_notify env d arg1 x)
         else if cmd = V4VOP_create_ring then
           (if \<not> okay env arg1 8 then (Inl EFAULT, x) else status (v4v_ring_create env d arg1 x))
         else (Inl ENOSYS, x))"

section \<open>Life cycle\<close>

definition v4v_init :: "hyp_env \<Rightarrow> domid \<Rightarrow> xen \<Rightarrow> errno option \<times> xen" where
  "v4v_init env d x =
     (if \<not> xmalloc_ok env (A_domain d) then (Some ENOMEM, x)
      else (None, upd_dom d (\<lambda>dm. dm\<lparr>dom_v4v := Some tbl_empty\<rparr>) x))"

definition release_all :: "bool \<Rightarrow> v4v_ring_info list \<Rightarrow> refs \<Rightarrow> refs" where
  "release_all put_pages infos r =
     fold (\<lambda>info r. snd (v4v_ring_remove_mfns (v4v_pending_remove_all info) put_pages r)) infos r"

definition v4v_destroy :: "domid \<Rightarrow> xen \<Rightarrow> xen" where
  "v4v_destroy d x =
     (case dom_find x d of
        None \<Rightarrow> x
      | Some dm \<Rightarrow>
          (if \<not> is_dying dm then x\<lparr>xen_bug := True\<rparr>
           else
             (let r = (case dom_v4v dm of
                         None \<Rightarrow> page_refs x
                       | Some tbl \<Rightarrow> release_all (\<not> IS_HOST d) (concat tbl) (page_refs x))
              in (upd_dom d (\<lambda>dm. dm\<lparr>dom_v4v := None\<rparr>) x)\<lparr>page_refs := r\<rparr>)))"

definition v4v_shutdown_for_suspend :: "bool \<Rightarrow> domid \<Rightarrow> xen \<Rightarrow> xen" where
  "v4v_shutdown_for_suspend crashed d x =
     (case dom_find x d of
        None \<Rightarrow> x
      | Some dm \<Rightarrow>
          (if crashed then x\<lparr>xen_bug := True\<rparr>
           else if destroyed dm then x
           else case dom_v4v dm of
             None \<Rightarrow> x
           | Some tbl \<Rightarrow>
               (case map_acc (map_acc (\<lambda>info. v4v_ring_reset info (\<not> IS_HOST d))) tbl (page_refs x) of
                  (tbl', r) \<Rightarrow> (upd_table d (\<lambda>_. tbl') x)\<lparr>page_refs := r\<rparr>)))"

definition v4v_resume :: "hyp_env \<Rightarrow> domid \<Rightarrow> xen \<Rightarrow> xen" where
  "v4v_resume env d x =
     (case dom_find x d of
        None \<Rightarrow> x
      | Some dm \<Rightarrow> if destroyed dm then x else v4v_signal_domain env d x)"

end
