(* ===== verification/V4v_Frames.thy ===== *)
theory V4v_Frames
  imports V4v_Hypercall
begin

text \<open>
  Two facts about frames that hold whatever guests do.  Memory: copying to the caller changes only
  frames the caller may write, and an insertion changes only the frames of the ring, even when the
  ring's own bookkeeping is out of step.  References: translating the page list of a ring takes one
  page reference per frame, and every way of giving frames up returns them.
\<close>

section \<open>Memory\<close>

definition confined :: "mfn set \<Rightarrow> mem \<Rightarrow> mem \<Rightarrow> bool" where
  "confined S mem mem' \<longleftrightarrow> (\<forall>m j. mem' m j \<noteq> mem m j \<longrightarrow> m \<in> S \<and> j < PAGE_SIZE)"

lemma confined_refl [simp]: "confined S mem mem"
  by (simp add: confined_def)

lemma confined_trans: "confined S mem mem1 \<Longrightarrow> confined S mem1 mem2 \<Longrightarrow> confined S mem mem2"
  by (auto simp: confined_def) metis+

lemma confined_mono: "confined S mem mem' \<Longrightarrow> S \<subseteq> T \<Longrightarrow> confined T mem mem'"
  by (auto simp: confined_def)

lemma touches_confined:
  assumes "touches fs mem mem' I"
  shows "confined (set fs) mem mem'"
  using assms by (fastforce simp: touches_def confined_def)

definition writable :: "guest_env \<Rightarrow> mfn set" where
  "writable ge = {m. \<exists>vfn. hvm_xlate ge True vfn = Inr (m, False)}"

lemma hvm_copy_to_guest_confined:
  "hvm_copy_to_guest ge mem addr buf = (r, mem') \<Longrightarrow> confined (writable ge) mem mem'"
proof (induction ge mem addr buf arbitrary: r mem' rule: hvm_copy_to_guest.induct)
  case (1 ge mem addr buf)
  note unf = hvm_copy_to_guest.simps [of ge mem addr buf]
  show ?case
  proof (cases "buf = []")
    case True
    then show ?thesis using "1.prems" by (simp add: hvm_copy_to_guest.simps [of ge mem addr "[]"])
  next
    case False
    show ?thesis
    proof (cases "hvm_xlate ge True (addr div PAGE_SIZE)")
      case (Inl e)
      then show ?thesis using "1.prems" False by (simp add: unf)
    next
      case (Inr p)
      obtain m ro where p: "p = (m, ro)" by force
      let ?c = "hvm_chunk addr (length buf)"
      let ?mem1 = "if ro then mem else page_write mem m (addr mod PAGE_SIZE) (take ?c buf)"
      have "hvm_copy_to_guest ge ?mem1 (u64 (addr + ?c)) (drop ?c buf) = (r, mem')"
        using "1.prems" False Inr p by (simp add: unf Let_def)
      then have "confined (writable ge) ?mem1 mem'"
        using "1.IH" [OF False Inr p [symmetric] refl refl] by blast
      moreover have "confined (writable ge) mem ?mem1"
      proof -
        have "addr mod PAGE_SIZE + ?c \<le> PAGE_SIZE"
          using mod_less_divisor [OF PAGE_SIZE_pos, of addr] by (simp add: hvm_chunk_def min_def) linarith
        then show ?thesis
          using Inr p by (auto simp: confined_def page_write_def writable_def split: if_splits)
      qed
      ultimately show ?thesis by (rule confined_trans [rotated])
    qed
  qed
qed

lemma copy_to_guest_errno_confined:
  "copy_to_guest_errno ge mem addr bs = (r, mem') \<Longrightarrow> confined (writable ge) mem mem'"
  by (auto simp: copy_to_guest_errno_def split: if_splits prod.splits dest: hvm_copy_to_guest_confined)

text \<open>An insertion, for a ring of which only the page bookkeeping is known to be in order.\<close>

definition ri_kept :: "v4v_ring_info \<Rightarrow> v4v_ring_info \<Rightarrow> bool" where
  "ri_kept info info' \<longleftrightarrow> ri_wf info' \<and> (\<exists>t mp. info' = info\<lparr>ri_tx_ptr := t, ri_mfn_mapping := mp\<rparr>)"

lemma ri_keptI: "ri_wf info' \<Longrightarrow> info' = info\<lparr>ri_tx_ptr := t, ri_mfn_mapping := mp\<rparr> \<Longrightarrow> ri_kept info info'"
  unfolding ri_kept_def by blast

lemma ri_kept_same: "ri_same info info' \<Longrightarrow> ri_wf info' \<Longrightarrow> ri_kept info info'"
  by (rule ri_keptI [where t = "ri_tx_ptr info" and mp = "ri_mfn_mapping info'"]) (auto simp: ri_same_def)

lemma ri_kept_refl: "ri_wf info \<Longrightarrow> ri_kept info info"
  by (simp add: ri_kept_same)

lemma ri_kept_trans:
  assumes "ri_kept a b" "ri_kept b c"
  shows "ri_kept a c"
proof -
  obtain t mp where "ri_wf c" "c = b\<lparr>ri_tx_ptr := t, ri_mfn_mapping := mp\<rparr>" using assms(2) unfolding ri_kept_def by blast
  moreover obtain t' mp' where "b = a\<lparr>ri_tx_ptr := t', ri_mfn_mapping := mp'\<rparr>" using assms(1) unfolding ri_kept_def by blast
  ultimately show ?thesis by (intro ri_keptI [where t = t and mp = mp]) simp_all
qed

lemma ri_kept_fields:
  assumes "ri_kept a b"
  shows "ri_id b = ri_id a" "ri_len b = ri_len a" "ri_frames b = ri_frames a" "ri_pending b = ri_pending a"
    "ri_wf b" "ri_ring b = ri_ring a" "ri_npage b = ri_npage a" "ri_nmfns b = ri_nmfns a" "ri_mfns b = ri_mfns a"
  using assms by (auto simp: ri_kept_def ri_frames_def)

lemma ri_kept_tx: "ri_wf info \<Longrightarrow> ri_kept info (info\<lparr>ri_tx_ptr := t\<rparr>)"
  by (rule ri_keptI [where t = t and mp = "ri_mfn_mapping info"]) (auto simp: ri_wf_def split: option.splits)

definition ins_kept :: "ins_state \<Rightarrow> ins_state \<Rightarrow> bool" where
  "ins_kept st st' \<longleftrightarrow> ri_kept (is_info st) (is_info st') \<and>
     confined (set (ri_frames (is_info st))) (is_mem st) (is_mem st')"

lemma ins_kept_refl: "ri_wf (is_info st) \<Longrightarrow> ins_kept st st"
  by (simp add: ins_kept_def ri_kept_refl)

lemma ins_kept_trans: "ins_kept a b \<Longrightarrow> ins_kept b c \<Longrightarrow> ins_kept a c"
  using ri_kept_trans [of "is_info a" "is_info b"] confined_trans ri_kept_fields(3) [of "is_info a" "is_info b"]
  by (auto simp: ins_kept_def)

lemma ins_kept_wf: "ins_kept a b \<Longrightarrow> ri_wf (is_info b)"
  by (simp add: ins_kept_def ri_kept_def)

lemma ins_kept_copy:
  assumes "ri_wf (is_info st)"
    "v4v_memcpy_to_guest_ring_from_guest env (is_mem st) (is_info st) off hnd k = (r, info, mem)"
    "is_info st' = info" "is_mem st' = mem"
  shows "ins_kept st st'"
  using memcpy_from_guest_touch [OF assms(1,2)] assms(3,4)
  by (simp add: ins_kept_def ri_kept_same touches_confined)

lemma insert_piece_kept:
  assumes wf: "ri_wf (is_info st)" and res: "insert_piece env st rlen buf n = (r, st')"
  shows "ins_kept st st'"
proof (cases "u32_sub rlen (is_tx st) < n")
  case False
  obtain e info mem where cp: "v4v_memcpy_to_guest_ring_from_guest env (is_mem st) (is_info st)
      (u32 (is_tx st + SIZEOF_RING)) buf n = (e, info, mem)" by (metis prod_cases3)
  then have "is_info st' = info" "is_mem st' = mem"
    using res False by (auto simp: insert_piece_def Let_def split: option.splits)
  then show ?thesis using ins_kept_copy [OF wf cp] by simp
next
  case True
  let ?sp = "u32_sub rlen (is_tx st)"
  obtain e info mem where cp: "v4v_memcpy_to_guest_ring_from_guest env (is_mem st) (is_info st)
      (u32 (is_tx st + SIZEOF_RING)) buf ?sp = (e, info, mem)" by (metis prod_cases3)
  define st1 where "st1 = \<lparr>is_tx = if e = None then 0 else is_tx st, is_info = info, is_mem = mem\<rparr>"
  have k1: "ins_kept st st1" using ins_kept_copy [OF wf cp] by (simp add: st1_def)
  show ?thesis
  proof (cases e)
    case (Some x)
    then have "st' = st1" using res True cp by (auto simp: insert_piece_def Let_def st1_def)
    then show ?thesis using k1 by simp
  next
    case None
    obtain e2 info2 mem2 where cp2: "v4v_memcpy_to_guest_ring_from_guest env (is_mem st1) (is_info st1)
        (u32 (is_tx st1 + SIZEOF_RING)) (u64 (buf + ?sp)) (n - ?sp) = (e2, info2, mem2)" by (metis prod_cases3)
    then have "is_info st' = info2" "is_mem st' = mem2"
      using res True cp None by (auto simp: insert_piece_def Let_def st1_def split: option.splits)
    then show ?thesis using ins_kept_trans [OF k1] ins_kept_copy [OF ins_kept_wf [OF k1] cp2] by simp
  qed
qed

lemma insert_loop_kept:
  "ri_wf (is_info st) \<Longrightarrow> insert_loop env st rlen buf len iovs niov = (r, st') \<Longrightarrow> ins_kept st st'"
proof (induction env st rlen buf len iovs niov arbitrary: r st' rule: insert_loop.induct)
  case (1 env st rlen buf len iovs)
  then show ?case
    using insert_piece_kept [of st env rlen buf "nat (len mod 2 ^ 32)" r st'] ins_kept_refl [of st]
    by (auto simp: Let_def split: if_splits)
next
  case (2 env st rlen buf len iovs niov)
  show ?case
  proof (cases "copy_from_guest_errno (cur env) (is_mem st) iovs 16")
    case (Inl e)
    then show ?thesis using "2.prems" ins_kept_refl by auto
  next
    case (Inr bs)
    let ?k = "u32 (snd (parse_iov bs))" and ?b = "fst (parse_iov bs)"
    let ?bad = "V4V_MAX_RING_SIZE < ?k \<or> \<not> guest_handle_okay (cur env) ?b ?k \<or> nat (len mod 2 ^ 32) < ?k"
    obtain r1 st1 where pc: "insert_piece env st rlen ?b ?k = (r1, st1)" by force
    have k1: "ins_kept st st1" by (rule insert_piece_kept [OF "2.prems"(1) pc])
    consider (zero) "?k = 0" | (bad) "?k \<noteq> 0" ?bad | (fail) e where "?k \<noteq> 0" "\<not> ?bad" "r1 = Some e"
      | (next_) "?k \<noteq> 0" "\<not> ?bad" "r1 = None" by (cases r1) auto
    then show ?thesis
    proof cases
      case zero
      then show ?thesis using "2.IH"(1) [OF Inr refl refl zero] "2.prems" Inr by (simp add: Let_def)
    next
      case bad
      then have "st' = st" using "2.prems"(2) Inr by (auto simp: Let_def split: if_splits)
      then show ?thesis using ins_kept_refl [OF "2.prems"(1)] by simp
    next
      case fail
      then have "st' = st1" using "2.prems"(2) Inr pc by (auto simp: Let_def)
      then show ?thesis using k1 by simp
    next
      case next_
      let ?c = "u32_sub rlen (is_tx st)"
      have "insert_loop env st1 rlen (u64 (?b + (if ?c < ?k then ?c else 0))) (s32 (len - int ?k))
          (u64 (iovs + 16)) niov = (r, st')"
        using "2.prems"(2) Inr next_ pc by (simp add: Let_def)
      then have "ins_kept st1 st'"
        using "2.IH"(2) [OF Inr refl refl next_(1) _ _ _ pc [symmetric] next_(3), of r st'] next_(2)
          ins_kept_wf [OF k1] by (simp add: pc next_(3))
      then show ?thesis by (rule ins_kept_trans [OF k1])
    qed
  qed
qed

lemma insert_finish_kept:
  assumes "ri_wf (is_info st)" "insert_finish env st = (r, info', mem')"
  shows "ri_kept (is_info st) info'" "confined (set (ri_frames (is_info st))) (is_mem st) mem'"
proof -
  define t where "t = (let t = V4V_ROUNDUP (is_tx st)
    in if ri_len (is_info st) \<le> t then u32_sub t (ri_len (is_info st)) else t)"
  have up: "v4v_update_tx_ptr env (is_mem st) ((is_info st)\<lparr>ri_tx_ptr := t\<rparr>) t = (r, info', mem')"
    using assms(2) by (simp add: insert_finish_def Let_def t_def)
  note kt = ri_kept_tx [OF assms(1), of t]
  note T = update_tx_ptr_touch [OF ri_kept_fields(5) [OF kt] up]
  show "ri_kept (is_info st) info'" using ri_kept_trans [OF kt] ri_kept_same [OF T(1,2)] by simp
  show "confined (set (ri_frames (is_info st))) (is_mem st) mem'" using touches_confined [OF T(3)] by simp
qed

lemma insert_write_kept:
  assumes "ri_wf info" "insert_write env mem info ring src proto buf len iovs niov = (r, info', mem')"
  shows "ri_kept info info' \<and> confined (set (ri_frames info)) mem mem'"
proof -
  obtain e info2 mem2 where hd: "v4v_memcpy_to_guest_ring env mem info (u32 (rg_tx_ptr ring + SIZEOF_RING))
      (encode_mh (nat ((len + int SIZEOF_MH) mod 2 ^ 32)) src proto) = (e, info2, mem2)" by (metis prod_cases3)
  note T = memcpy_to_ring_touch [OF assms(1) _ hd]
  have k2: "ri_kept info info2" "confined (set (ri_frames info)) mem mem2"
    using ri_kept_same [OF T(1,2)] touches_confined [OF T(3)] by simp_all
  show ?thesis
  proof (cases e)
    case (Some x)
    then show ?thesis using assms(2) hd k2 by (simp add: insert_write_def)
  next
    case None
    define st where "st = \<lparr>is_tx = (let tx0 = u32 (rg_tx_ptr ring + SIZEOF_MH) in if tx0 = ri_len info2 then 0 else tx0),
      is_info = info2, is_mem = mem2\<rparr>"
    obtain e3 st3 where lp: "insert_loop env st (rg_len ring) buf len iovs niov = (e3, st3)" by force
    have "ri_wf (is_info st)" using k2(1) by (simp add: st_def ri_kept_fields)
    from insert_loop_kept [OF this lp] have k3: "ri_kept info2 (is_info st3)"
      "confined (set (ri_frames info2)) mem2 (is_mem st3)" by (simp_all add: ins_kept_def st_def)
    have k13: "ri_kept info (is_info st3)" "confined (set (ri_frames info)) mem (is_mem st3)"
      using ri_kept_trans [OF k2(1) k3(1)] confined_trans [OF k2(2)] k3(2) ri_kept_fields(3) [OF k2(1)] by simp_all
    show ?thesis
    proof (cases e3)
      case (Some x)
      then show ?thesis using assms(2) hd None lp k13 by (simp add: insert_write_def st_def Let_def)
    next
      case n3: None
      have f: "insert_finish env st3 = (r, info', mem')"
        using assms(2) hd None lp n3 by (simp add: insert_write_def st_def Let_def)
      note F = insert_finish_kept [OF ri_kept_fields(5) [OF k13(1)] f]
      show ?thesis
        using ri_kept_trans [OF k13(1) F(1)] confined_trans [OF k13(2)] F(2) ri_kept_fields(3) [OF k13(1)] by simp
    qed
  qed
qed

lemma ringbuf_insert_kept:
  assumes "ri_wf info" "v4v_ringbuf_insert env mem info src_id proto buf len iovs niov = (r, n, info', mem')"
  shows "ri_kept info info'" "confined (set (ri_frames info)) mem mem'"
proof -
  have body: "ri_kept info i \<and> confined (set (ri_frames info)) mem m"
    if b: "insert_body env mem info (id_addr src_id) proto buf k iovs niov = (e, i, m)" for e i m k
  proof -
    obtain q info1 where rd: "v4v_memcpy_from_guest_ring env mem info 0 SIZEOF_RING = (q, info1)" by force
    have k1: "ri_kept info info1"
      using memcpy_from_ring_loop_same [OF assms(1)] rd ri_kept_same by (auto simp: v4v_memcpy_from_guest_ring_def)
    show ?thesis
    proof (cases "\<exists>bs. q = Inr bs \<and> insert_write env mem info1 (v4v_sanitize_ring (parse_ring bs) info1)
        (id_addr src_id) proto buf k iovs niov = (e, i, m)")
      case True
      then have "ri_kept info1 i \<and> confined (set (ri_frames info1)) mem m"
        using insert_write_kept [OF ri_kept_fields(5) [OF k1]] by blast
      then show ?thesis using ri_kept_trans [OF k1] ri_kept_fields(3) [OF k1] by simp
    next
      case False
      then have "i = info1" "m = mem" using b rd by (auto simp: insert_body_def Let_def split: sum.splits if_splits)
      then show ?thesis using k1 by simp
    qed
  qed
  have "ri_kept info info' \<and> confined (set (ri_frames info)) mem mem'"
    using assms(2) body ri_kept_refl [OF assms(1)]
    by (auto simp: v4v_ringbuf_insert_def split: if_splits sum.splits prod.splits)
  then show "ri_kept info info'" "confined (set (ri_frames info)) mem mem'" by auto
qed

section \<open>Page references\<close>

text \<open>The references a ring holds; the host's rings hold none.\<close>

definition holds :: "bool \<Rightarrow> v4v_ring_info \<Rightarrow> mfn \<Rightarrow> int" where
  "holds put info m = (if put then int (count_list (ri_frames info) m) else 0)"

text \<open>Frame 0 is left out: \<open>v4v_ring_remove_mfns\<close> does not return a reference to it.\<close>

definition balanced :: "bool \<Rightarrow> v4v_ring_info \<Rightarrow> refs \<Rightarrow> v4v_ring_info \<Rightarrow> refs \<Rightarrow> bool" where
  "balanced put info r info' r' \<longleftrightarrow> (\<forall>m. m \<noteq> 0 \<longrightarrow> r' m - holds put info' m = r m - holds put info m)"

lemma balanced_refl [simp]: "balanced put info r info r"
  by (simp add: balanced_def)

lemma balanced_trans: "balanced put a r b r1 \<Longrightarrow> balanced put b r1 c r2 \<Longrightarrow> balanced put a r c r2"
  by (simp add: balanced_def)

lemma balanced_frames: "ri_frames b = ri_frames a \<Longrightarrow> balanced put a r b r"
  by (simp add: balanced_def holds_def)

text \<open>What a change of a ring's pages leaves alone.\<close>

definition same_ring :: "v4v_ring_info \<Rightarrow> v4v_ring_info \<Rightarrow> bool" where
  "same_ring a b \<longleftrightarrow> ri_id b = ri_id a \<and> ri_len b = ri_len a \<and> ri_tx_ptr b = ri_tx_ptr a \<and>
     ri_ring b = ri_ring a \<and> ri_pending b = ri_pending a"

lemma same_ring_refl [simp]: "same_ring a a"
  by (simp add: same_ring_def)

lemma same_ring_trans: "same_ring a b \<Longrightarrow> same_ring b c \<Longrightarrow> same_ring a c"
  by (simp add: same_ring_def)

definition pages_ok :: "bool \<Rightarrow> v4v_ring_info \<Rightarrow> refs \<Rightarrow> v4v_ring_info \<Rightarrow> refs \<Rightarrow> bool" where
  "pages_ok put info r info' r' \<longleftrightarrow> ri_wf info' \<and> same_ring info info' \<and> balanced put info r info' r'"

lemma pages_ok_refl: "ri_wf info \<Longrightarrow> pages_ok put info r info r"
  by (simp add: pages_ok_def)

lemma pages_ok_trans: "pages_ok put a r b r1 \<Longrightarrow> pages_ok put b r1 c r2 \<Longrightarrow> pages_ok put a r c r2"
  using same_ring_trans balanced_trans by (auto simp: pages_ok_def)

lemma find_ring_mfn_refs:
  "v4v_find_ring_mfn env d pfn r = (Inl e, r1) \<Longrightarrow> r1 = r"
  "v4v_find_ring_mfn env d pfn r = (Inr m, r1) \<Longrightarrow> r1 = (if IS_HOST d then r else get_page m r)"
  by (auto simp: v4v_find_ring_mfn_def split: if_splits p2m_entry.splits)

lemma put_get [simp]: "put_page m (get_page m r) = r"
  by (simp add: put_page_def get_page_def)

lemma recheck_loop_refs: "recheck_loop env d mem hnd ms is r = (b, r') \<Longrightarrow> r' = r"
proof (induction "is" arbitrary: r)
  case (Cons i "is")
  then show ?case
    by (auto simp: Let_def dest: find_ring_mfn_refs split: sum.splits prod.splits if_splits)
qed simp

lemma fold_put_page:
  "m \<noteq> 0 \<Longrightarrow> fold (\<lambda>i r. if f i \<noteq> 0 then put_page (f i) r else r) is r m = r m - int (count_list (map f is) m)"
  by (induction "is" arbitrary: r) (auto simp: put_page_def)

lemma ri_frames_eq: "ri_mfns info = Some ms \<Longrightarrow> ri_nmfns info \<le> length ms \<Longrightarrow>
    ri_frames info = map (\<lambda>i. the (ms ! i)) [0..<ri_nmfns info]"
  by (auto simp: ri_frames_def intro!: nth_equalityI)

lemma remove_mfns_ok:
  assumes "ri_wf info" "v4v_ring_remove_mfns info put r = (info', r')"
  shows "pages_ok put info r info' r'" "ri_mfns info' = None"
proof -
  have "pages_ok put info r info' r' \<and> ri_mfns info' = None"
  proof (cases "ri_mfns info")
    case None
    then show ?thesis using assms by (simp add: v4v_ring_remove_mfns_def pages_ok_refl)
  next
    case (Some ms)
    have l: "ri_nmfns info \<le> length ms" using assms(1) Some by (auto simp: ri_wf_def split: option.splits)
    have u: "ri_nmfns (v4v_ring_unmap info) = ri_nmfns info"
      by (auto simp: v4v_ring_unmap_def split: option.split)
    have s: "same_ring info info'" "ri_mfns info' = None" "ri_nmfns info' = 0" "ri_npage info' = 0" "ri_mfn_mapping info' = None"
      using assms(2) Some by (auto simp: v4v_ring_remove_mfns_def v4v_ring_unmap_def same_ring_def Let_def split: option.splits)
    have "r' m = r m - holds put info m" if "m \<noteq> 0" for m
      using assms(2) Some fold_put_page [OF that, of "\<lambda>i. the (ms ! i)" "[0..<ri_nmfns info]" r]
      by (auto simp: v4v_ring_remove_mfns_def Let_def holds_def u ri_frames_eq [OF Some l])
    moreover have "ri_frames info' = []" "ri_wf info'" using s by (simp_all add: ri_frames_def ri_wf_def)
    ultimately show ?thesis using s by (simp add: pages_ok_def balanced_def holds_def)
  qed
  then show "pages_ok put info r info' r'" "ri_mfns info' = None" by auto
qed

text \<open>One more page: the frame is appended to the ring.\<close>

definition add_mfn :: "nat \<Rightarrow> mfn \<Rightarrow> v4v_ring_info \<Rightarrow> v4v_ring_info" where
  "add_mfn i m info = info\<lparr>ri_mfns := Some ((the (ri_mfns info))[i := Some m]), ri_nmfns := i + 1,
     ri_mfn_mapping := Some ((the (ri_mfn_mapping info))[i := Null])\<rparr>"

lemma add_mfn_ok:
  assumes wf: "ri_wf info" and i: "i = ri_nmfns info" "i < ri_npage info" and m: "ri_mfns info \<noteq> None"
  shows "ri_wf (add_mfn i m info)" "ri_frames (add_mfn i m info) = ri_frames info @ [m]"
    "same_ring info (add_mfn i m info)" "ri_npage (add_mfn i m info) = ri_npage info"
    "ri_nmfns (add_mfn i m info) = i + 1" "ri_mfns (add_mfn i m info) \<noteq> None"
proof -
  obtain ms maps where w: "ri_mfns info = Some ms" "ri_mfn_mapping info = Some maps" "length ms = ri_npage info"
    "length maps = ri_npage info" "\<forall>k<ri_nmfns info. \<exists>m. ms ! k = Some m \<and> maps ! k \<in> {Null, Mapped m}"
    using wf m by (auto simp: ri_wf_def split: option.splits)
  show "ri_wf (add_mfn i m info)"
    using w i by (auto simp: ri_wf_def add_mfn_def nth_list_update less_Suc_eq)
  have "take (i + 1) (ms[i := Some m]) = take i ms @ [Some m]"
    using w(3) i by (simp add: take_Suc_conv_app_nth)
  then show "ri_frames (add_mfn i m info) = ri_frames info @ [m]"
    using w(1) i by (simp add: ri_frames_def add_mfn_def)
  show "same_ring info (add_mfn i m info)" "ri_npage (add_mfn i m info) = ri_npage info"
    "ri_nmfns (add_mfn i m info) = i + 1" "ri_mfns (add_mfn i m info) \<noteq> None"
    by (simp_all add: same_ring_def add_mfn_def)
qed

lemma fetch_loop_ok:
  assumes "ri_wf info" "ri_mfns info \<noteq> None" "is = [ri_nmfns info..<ri_npage info]"
    "fetch_loop env d mem hnd is info r = (ret, e, info', r')"
  shows "pages_ok (\<not> IS_HOST d) info r info' r' \<and> ri_npage info' = ri_npage info \<and>
    (\<not> ret \<and> e = None \<longrightarrow> ri_nmfns info' = ri_npage info')"
  using assms
proof (induction "is" arbitrary: info r)
  case Nil
  then have "ri_npage info \<le> ri_nmfns info" by (metis upt_eq_Nil_conv le_zero_eq linorder_le_cases)
  then show ?case using Nil by (auto simp: pages_ok_refl ri_wf_def split: option.splits)
next
  case (Cons i "is")
  have i: "i = ri_nmfns info" "i < ri_npage info" "is = [Suc i..<ri_npage info]"
    using Cons.prems(3) [symmetric] unfolding upt_eq_Cons_conv by auto
  show ?case
  proof (cases "\<exists>pfn m r1. \<not> free_pages_needed (cur (henv env)) \<and> read_pfn env mem hnd i = Inr pfn \<and>
      v4v_find_ring_mfn env d pfn r = (Inr m, r1)")
    case False
    then have "info' = info \<and> r' = r \<and> e \<noteq> None"
      using Cons.prems(4) find_ring_mfn_refs(1) by (fastforce split: if_splits sum.splits prod.splits)
    then show ?thesis using Cons.prems(1) pages_ok_refl by auto
  next
    case True
    then obtain pfn m r1 where t: "\<not> free_pages_needed (cur (henv env))" "read_pfn env mem hnd i = Inr pfn"
      "v4v_find_ring_mfn env d pfn r = (Inr m, r1)" by blast
    note A = add_mfn_ok [OF Cons.prems(1) i(1,2) Cons.prems(2), of m]
    have "r1 = (if IS_HOST d then r else get_page m r)" by (rule find_ring_mfn_refs(2) [OF t(3)])
    then have p: "pages_ok (\<not> IS_HOST d) info r (add_mfn i m info) r1"
      using A by (auto simp: pages_ok_def balanced_def holds_def get_page_def)
    have "fetch_loop env d mem hnd is (add_mfn i m info) r1 = (ret, e, info', r')"
      using Cons.prems(4) t by (simp add: add_mfn_def)
    moreover have "is = [ri_nmfns (add_mfn i m info)..<ri_npage (add_mfn i m info)]" using A(4,5) i(3) by simp
    ultimately show ?thesis using Cons.IH [OF A(1,6)] pages_ok_trans [OF p] A(4) by metis
  qed
qed

lemma recheck_mfns_ok:
  assumes "ri_wf info" "recheck_mfns env d mem hnd npage info r = (info', r')" "d = current_id env"
  shows "pages_ok (\<not> IS_HOST d) info r info' r' \<and> (ri_mfns info' = None \<or> ri_npage info' = npage)"
proof (cases "ri_mfns info")
  case None
  then show ?thesis using assms pages_ok_refl by (auto simp: recheck_mfns_def)
next
  case (Some ms)
  obtain b r1 where l: "(if ri_npage info \<noteq> npage then (False, r)
      else recheck_loop env d mem hnd ms [0..<ri_nmfns info] r) = (b, r1)" by force
  have "r1 = r" "b \<Longrightarrow> ri_npage info = npage" using l recheck_loop_refs by (auto split: if_splits)
  then show ?thesis
    using assms Some l remove_mfns_ok [OF assms(1)] pages_ok_refl [OF assms(1)]
    by (cases b) (auto simp: recheck_mfns_def)
qed

lemma alloc_mfns_ok:
  assumes "ri_wf info" "alloc_mfns env npage info = Inr info'"
  shows "pages_ok put info r info' r" "ri_mfns info' \<noteq> None"
    "ri_mfns info = None \<or> ri_npage info = npage \<Longrightarrow> ri_npage info' = npage"
  using assms
  by (auto simp: alloc_mfns_def pages_ok_def same_ring_def balanced_def holds_def ri_frames_def ri_wf_def
      split: if_splits option.splits)

lemma fetch_loop_ret: "fetch_loop env d mem hnd is info r = (ret, e, info', r') \<Longrightarrow> ret \<Longrightarrow> e \<noteq> None"
  by (induction "is" arbitrary: info r) (auto split: if_splits sum.splits prod.splits)

text \<open>\<open>v4v_find_ring_mfns\<close> after its checks, from the re-check of the old pages on.\<close>

lemma find_ring_mfns_cont:
  assumes "v4v_find_ring_mfns env d mem info hnd len r = (e, info', r')" "\<not> (info' = info \<and> r' = r \<and> e \<noteq> None)"
  obtains npage ph info1 r1 where "recheck_mfns env d mem ph npage info r = (info1, r1)"
    "len \<le> npage * PAGE_SIZE" "npage * PAGE_SIZE \<le> V4V_MAX_RING_SIZE"
    "(case alloc_mfns env npage info1 of Inl e \<Rightarrow> (Some e, info1, r1)
      | Inr info2 \<Rightarrow> (if ri_nmfns info2 = ri_npage info2 then (None, info2, r1)
           else (case fetch_loop env d mem ph [ri_nmfns info2..<ri_npage info2] info2 r1 of
              (ret, e, info3, r3) \<Rightarrow> (if \<not> ret \<and> e \<noteq> None \<and> e \<noteq> Some ECONTINUATION
                 then (case v4v_ring_remove_mfns info3 (\<not> IS_HOST (current_id env)) r3 of
                         (info4, r4) \<Rightarrow> (e, info4, r4))
                 else (e, info3, r3))))) = (e, info', r')"
proof -
  from assms obtain bs where bs: "copy_from_guest_errno (cur (henv env)) mem hnd 40 = Inr bs"
    by (auto simp: v4v_find_ring_mfns_def split: sum.splits)
  define npage where "npage = get_field bs 8 4"
  define ph where "ph = u64 (hnd + 40)"
  obtain info1 r1 where rc: "recheck_mfns env d mem ph npage info r = (info1, r1)" by force
  note F = assms [unfolded v4v_find_ring_mfns_def bs Let_def npage_def [symmetric] ph_def [symmetric]]
  have n: "npage \<le> V4V_MAX_RING_SIZE div PAGE_SIZE" "len \<le> u32 (npage * PAGE_SIZE)"
    using F bs rc by (auto simp flip: npage_def split: if_splits)
  then have "npage * PAGE_SIZE \<le> V4V_MAX_RING_SIZE" "len \<le> npage * PAGE_SIZE"
    by (simp_all add: V4V_MAX_RING_SIZE_def PAGE_SIZE_def u32_def)
  then show thesis
    using that [OF rc] F bs rc by (auto simp flip: npage_def ph_def split: if_splits)
qed

lemma find_ring_mfns_ok:
  assumes wf: "ri_wf info" and d: "d = current_id env"
    and res: "v4v_find_ring_mfns env d mem info hnd len r = (e, info', r')"
  shows "pages_ok (\<not> IS_HOST d) info r info' r' \<and>
    (e = None \<longrightarrow> ri_nmfns info' = ri_npage info' \<and> len \<le> ri_npage info' * PAGE_SIZE \<and>
      ri_npage info' * PAGE_SIZE \<le> V4V_MAX_RING_SIZE)" (is "?P info r info' r' \<and> ?D e info'")
proof (cases "info' = info \<and> r' = r \<and> e \<noteq> None")
  case True
  then show ?thesis using pages_ok_refl [OF wf] by auto
next
  case False
  obtain npage ph info1 r1 where rc: "recheck_mfns env d mem ph npage info r = (info1, r1)"
    "len \<le> npage * PAGE_SIZE" "npage * PAGE_SIZE \<le> V4V_MAX_RING_SIZE" and
    cont: "(case alloc_mfns env npage info1 of Inl e \<Rightarrow> (Some e, info1, r1)
      | Inr info2 \<Rightarrow> (if ri_nmfns info2 = ri_npage info2 then (None, info2, r1)
           else (case fetch_loop env d mem ph [ri_nmfns info2..<ri_npage info2] info2 r1 of
              (ret, e, info3, r3) \<Rightarrow> (if \<not> ret \<and> e \<noteq> None \<and> e \<noteq> Some ECONTINUATION
                 then (case v4v_ring_remove_mfns info3 (\<not> IS_HOST (current_id env)) r3 of
                         (info4, r4) \<Rightarrow> (e, info4, r4))
                 else (e, info3, r3))))) = (e, info', r')"
    by (rule find_ring_mfns_cont [OF res False])
  note R = recheck_mfns_ok [OF wf rc(1) d]
  then have w1: "ri_wf info1" by (simp add: pages_ok_def)
  show ?thesis
  proof (cases "alloc_mfns env npage info1")
    case (Inl x)
    then show ?thesis using cont R by auto
  next
    case (Inr info2)
    note A = alloc_mfns_ok(1) [OF w1 Inr, of "\<not> IS_HOST d" r1] alloc_mfns_ok(2) [OF w1 Inr]
    have p2: "?P info r info2 r1" using pages_ok_trans A(1) R by blast
    have w2: "ri_wf info2" using A(1) by (simp add: pages_ok_def)
    have n2: "ri_npage info2 = npage" using alloc_mfns_ok(3) [OF w1 Inr] R by blast
    obtain ret e3 info3 r3 where f: "fetch_loop env d mem ph [ri_nmfns info2..<ri_npage info2] info2 r1 =
        (ret, e3, info3, r3)" by (metis prod_cases4)
    note L = fetch_loop_ok [OF w2 A(2) refl f]
    have p3: "?P info r info3 r3" using pages_ok_trans [OF p2] L by blast
    then have w3: "ri_wf info3" by (simp add: pages_ok_def)
    obtain info4 r4 where rm: "v4v_ring_remove_mfns info3 (\<not> IS_HOST d) r3 = (info4, r4)" by force
    have p4: "?P info r info4 r4" using pages_ok_trans [OF p3 remove_mfns_ok(1) [OF w3 rm]] .
    have "ret \<Longrightarrow> e3 \<noteq> None" using f by (rule fetch_loop_ret)
    then show ?thesis using cont Inr f rm p2 p3 p4 d L n2 rc(2,3) by (auto split: if_splits)
  qed
qed

end
