(* ===== verification/V4v_Policy.thy ===== *)
theory V4v_Policy
  imports V4v_Frames
begin

text \<open>
  What a V4V hypercall may do, as a relation on states, and the proof that every hypercall does
  nothing else.  A step of \<open>v4v_step\<close> changes one thing: interrupt lines, memory the caller may
  write, a ring that accepts messages from the caller, the caller's own rings, or a placeholder
  made by the host.  The theorems about isolation and about page references are rule inductions
  over these steps.
\<close>

section \<open>The policy\<close>

definition accepts :: "v4v_ring_id \<Rightarrow> domid \<Rightarrow> bool" where
  "accepts rid s \<longleftrightarrow> id_partner rid = s \<or> id_partner rid = V4V_DOMID_NONE"

text \<open>
  What an operation of another domain leaves of a ring: all but the transmit pointer, the page
  mappings and the pending entries of the domains \<open>S\<close>.
\<close>

definition ring_touched :: "domid set \<Rightarrow> v4v_ring_info \<Rightarrow> v4v_ring_info \<Rightarrow> bool" where
  "ring_touched S info info' \<longleftrightarrow>
     ri_id info' = ri_id info \<and> ri_len info' = ri_len info \<and> ri_ring info' = ri_ring info \<and>
     ri_frames info' = ri_frames info \<and> ri_wf info' \<and>
     (pending_ok (ri_pending info) \<longrightarrow> pending_ok (ri_pending info')) \<and>
     (\<forall>d. d \<notin> S \<longrightarrow> wanted (ri_pending info') d = wanted (ri_pending info) d)"

inductive v4v_step :: "hyp_env \<Rightarrow> xen \<Rightarrow> xen \<Rightarrow> bool" for env where
  step_quiet: "quiet env x x' \<Longrightarrow> v4v_step env x x'"
| step_own_mem: "confined (writable (cur (henv env))) (xmem x) mem' \<Longrightarrow> v4v_step env x (x\<lparr>xmem := mem'\<rparr>)"
| step_ring: "dom_table x dst = Some tbl \<Longrightarrow> v4v_ring_find_info tbl (ri_id info) = Some info \<Longrightarrow>
    accepts (ri_id info) (current_id env) \<Longrightarrow> IS_HOST (current_id env) \<or> IS_HOST dst \<Longrightarrow>
    ring_touched {current_id env} info info' \<Longrightarrow> confined (set (ri_frames info)) (xmem x) mem' \<Longrightarrow>
    v4v_step env x (upd_table dst (tbl_store info') (x\<lparr>xmem := mem'\<rparr>))"
| step_own_table: "dom_table x (current_id env) = Some tbl \<Longrightarrow>
    list_all2 (list_all2 (ring_touched UNIV)) tbl tbl' \<Longrightarrow>
    v4v_step env x (upd_table (current_id env) (\<lambda>_. tbl') x)"
| step_own_ring: "dom_table x (current_id env) = Some tbl \<Longrightarrow> v4v_ring_find_info tbl (ri_id info) = Some info \<Longrightarrow>
    ri_id info' = ri_id info \<Longrightarrow> ri_pending info' = ri_pending info \<Longrightarrow> ri_wf info' \<Longrightarrow>
    balanced (\<not> IS_HOST (current_id env)) info (page_refs x) info' r \<Longrightarrow>
    v4v_step env x ((upd_table (current_id env) (tbl_store info') x)\<lparr>page_refs := r\<rparr>)"
| step_new: "dom_table x i = Some tbl \<Longrightarrow> v4v_ring_find_info tbl rid = None \<Longrightarrow> a_domain (id_addr rid) = i \<Longrightarrow>
    i = current_id env \<or> IS_HOST (current_id env) \<Longrightarrow>
    IS_HOST i \<or> id_partner rid = 0 \<or> id_partner rid = V4V_DOMID_NONE \<Longrightarrow>
    v4v_step env x (upd_table i (tbl_add (new_info rid)) x)"
| step_del: "dom_table x (current_id env) = Some tbl \<Longrightarrow> v4v_ring_find_info tbl (ri_id info) = Some info \<Longrightarrow>
    v4v_step env x (v4v_ring_remove_info (current_id env) info (\<not> IS_HOST (current_id env)) x)"
| step_oom: "IS_HOST (current_id env) \<Longrightarrow> v4v_step env x (x\<lparr>xen_bug := True\<rparr>)"

abbreviation v4v_steps :: "hyp_env \<Rightarrow> xen \<Rightarrow> xen \<Rightarrow> bool" where
  "v4v_steps env \<equiv> (v4v_step env)\<^sup>*\<^sup>*"

section \<open>The invariant\<close>

definition tbl_ok :: "domid \<Rightarrow> v4v_table \<Rightarrow> bool" where
  "tbl_ok i tbl \<longleftrightarrow> tbl_inv tbl \<and>
     (\<forall>info \<in> set (concat tbl). ri_wf info \<and> pending_ok (ri_pending info) \<and>
        a_domain (id_addr (ri_id info)) = i \<and>
        (IS_HOST i \<or> id_partner (ri_id info) = 0 \<or> id_partner (ri_id info) = V4V_DOMID_NONE))"

definition xen_inv :: "xen \<Rightarrow> bool" where
  "xen_inv x \<longleftrightarrow> distinct (map domain_id (domain_list x)) \<and>
     (\<forall>i tbl. dom_table x i = Some tbl \<longrightarrow> tbl_ok i tbl)"

lemma tbl_okD:
  assumes "tbl_ok i tbl"
  shows "tbl_inv tbl" "v4v_ring_find_info tbl k = Some info \<Longrightarrow> ri_wf info \<and> ri_id info = k \<and>
      pending_ok (ri_pending info) \<and> a_domain (id_addr (ri_id info)) = i \<and>
      (IS_HOST i \<or> id_partner (ri_id info) = 0 \<or> id_partner (ri_id info) = V4V_DOMID_NONE)"
  using assms ht.lookup_entries [of tbl k info] by (auto simp: tbl_ok_def)

lemma tbl_ok_event:
  assumes "tbl_ok i tbl"
    and "\<And>v. e = Tbl_add v \<or> e = Tbl_store v \<Longrightarrow> ri_wf v \<and> pending_ok (ri_pending v) \<and>
      a_domain (id_addr (ri_id v)) = i \<and> (IS_HOST i \<or> id_partner (ri_id v) = 0 \<or> id_partner (ri_id v) = V4V_DOMID_NONE)"
  shows "tbl_ok i (tbl_step ri_id v4v_ring_find_info tbl_add tbl_store tbl_del e tbl)"
  using assms ht.step_invar [OF tbl_okD(1) [OF assms(1)], of e] ht.entries_step [OF tbl_okD(1) [OF assms(1)], of _ e]
  unfolding tbl_ok_def by blast

lemma tbl_ok_store:
  assumes "tbl_ok i tbl" "v4v_ring_find_info tbl (ri_id info) = Some old" "ri_wf info" "pending_ok (ri_pending info)"
  shows "tbl_ok i (tbl_store info tbl)"
  using tbl_ok_event [OF assms(1), of "Tbl_store info"] assms(2-4) tbl_okD(2) [OF assms(1,2)] by auto

lemma tbl_ok_add:
  assumes "tbl_ok i tbl" "v4v_ring_find_info tbl rid = None" "a_domain (id_addr rid) = i"
    "IS_HOST i \<or> id_partner rid = 0 \<or> id_partner rid = V4V_DOMID_NONE"
  shows "tbl_ok i (tbl_add (new_info rid) tbl)"
  using tbl_ok_event [OF assms(1), of "Tbl_add (new_info rid)"] assms(2-4)
  by (auto simp: new_info_def ri_wf_def pending_ok_def)

lemma tbl_ok_del: "tbl_ok i tbl \<Longrightarrow> v4v_ring_find_info tbl k = Some info \<Longrightarrow> tbl_ok i (tbl_del k tbl)"
  using tbl_ok_event [of i tbl "Tbl_del k"] by auto

lemma dom_table_simps [simp]:
  "dom_table (x\<lparr>page_refs := r\<rparr>) = dom_table x" "dom_table (x\<lparr>xmem := m\<rparr>) = dom_table x"
  "dom_table (x\<lparr>xen_bug := b\<rparr>) = dom_table x"
  by (simp_all add: fun_eq_iff dom_table_def dom_find_def)

lemma upd_table_simps [simp]:
  "xmem (upd_table i f x) = xmem x" "page_refs (upd_table i f x) = page_refs x"
  "map domain_id (domain_list (upd_table i f x)) = map domain_id (domain_list x)"
  by (auto simp: upd_table_def upd_dom_def)

lemma xen_inv_table:
  assumes "xen_inv x" "dom_table x i = Some tbl" "tbl_ok i (f tbl)"
  shows "xen_inv (upd_table i f x)"
proof -
  have "tbl_ok j tbl'" if "dom_table (upd_table i f x) j = Some tbl'" for j tbl'
    using that assms by (auto simp: dom_table_upd_table xen_inv_def split: if_splits)
  then show ?thesis using assms(1) unfolding xen_inv_def upd_table_simps by blast
qed

lemma xen_inv_simps [simp]:
  "xen_inv (x\<lparr>page_refs := r\<rparr>) = xen_inv x" "xen_inv (x\<lparr>xmem := m\<rparr>) = xen_inv x"
  "xen_inv (x\<lparr>xen_bug := b\<rparr>) = xen_inv x"
  by (simp_all add: xen_inv_def)

lemma xen_inv_quiet:
  assumes "xen_inv x" "quiet env x x'"
  shows "xen_inv x'"
proof -
  have "list_all2 dom_quiet (domain_list x) (domain_list x')" using assms(2) by (simp add: quiet_def)
  then have "map domain_id (domain_list x') = map domain_id (domain_list x)"
    by (induction rule: list_all2_induct) (auto simp: dom_quiet_def dom_data_def)
  then show ?thesis using assms quiet_table [OF assms(2)] by (simp add: xen_inv_def)
qed

lemma list_all2_concat: "list_all2 (list_all2 R) xs ys \<Longrightarrow> list_all2 R (concat xs) (concat ys)"
  by (induction rule: list_all2_induct) (auto simp: list_all2_appendI)

lemma list_all2_mem: "list_all2 R xs ys \<Longrightarrow> y \<in> set ys \<Longrightarrow> \<exists>x \<in> set xs. R x y"
  by (induction rule: list_all2_induct) auto

lemma tbl_inv_ids:
  assumes "tbl_inv tbl" "length tbl' = length tbl"
    "\<And>h. h < length tbl \<Longrightarrow> map ri_id (tbl' ! h) = map ri_id (tbl ! h)"
  shows "tbl_inv tbl'"
  unfolding tbl_inv_def
proof (intro conjI allI impI ballI)
  show "length tbl' = V4V_HTABLE_SIZE" using assms(1,2) by (simp add: tbl_invD(1))
  fix h
  assume h: "h < V4V_HTABLE_SIZE"
  then have e: "map ri_id (tbl' ! h) = map ri_id (tbl ! h)" using assms(1,3) by (simp add: tbl_invD(1))
  then show "distinct (map ri_id (tbl' ! h))" using tbl_invD(2) [OF assms(1) h] by simp
  fix info
  assume "info \<in> set (tbl' ! h)"
  then have "ri_id info \<in> set (map ri_id (tbl' ! h))" by simp
  then obtain i where "i \<in> set (tbl ! h)" "ri_id info = ri_id i" unfolding e by auto
  then show "v4v_hash_fn (ri_id info) = h" using tbl_invD(3) [OF assms(1) h] by simp
qed

definition ring_sound :: "v4v_ring_info \<Rightarrow> v4v_ring_info \<Rightarrow> bool" where
  "ring_sound info info' \<longleftrightarrow> ri_id info' = ri_id info \<and>
     (ri_wf info \<and> pending_ok (ri_pending info) \<longrightarrow> ri_wf info' \<and> pending_ok (ri_pending info'))"

lemma ring_touched_sound: "ring_touched S info info' \<Longrightarrow> ring_sound info info'"
  by (simp add: ring_touched_def ring_sound_def)

lemma tbl_ok_sound:
  assumes ok: "tbl_ok i tbl" and t: "list_all2 (list_all2 ring_sound) tbl tbl'"
  shows "tbl_ok i tbl'"
proof -
  have "map ri_id (tbl' ! h) = map ri_id (tbl ! h)" if "h < length tbl" for h
  proof -
    have "list_all2 ring_sound (tbl ! h) (tbl' ! h)" using t that by (simp add: list_all2_nthD)
    then show ?thesis by (induction rule: list_all2_induct) (auto simp: ring_sound_def)
  qed
  then have inv: "tbl_inv tbl'"
    using tbl_inv_ids [OF tbl_okD(1) [OF ok]] list_all2_lengthD [OF t] by simp
  have "ri_wf info' \<and> pending_ok (ri_pending info') \<and> a_domain (id_addr (ri_id info')) = i \<and>
      (IS_HOST i \<or> id_partner (ri_id info') = 0 \<or> id_partner (ri_id info') = V4V_DOMID_NONE)"
    if in': "info' \<in> set (concat tbl')" for info'
  proof -
    obtain info where "info \<in> set (concat tbl)" "ring_sound info info'"
      using list_all2_mem [OF list_all2_concat [OF t] in'] by blast
    then show ?thesis using ok unfolding tbl_ok_def ring_sound_def by auto
  qed
  with inv show ?thesis unfolding tbl_ok_def by blast
qed

lemma tbl_ok_poll:
  assumes "tbl_ok i tbl" "list_all2 (list_all2 (ring_touched UNIV)) tbl tbl'"
  shows "tbl_ok i tbl'"
  by (rule tbl_ok_sound [OF assms(1)])
    (rule list_all2_mono [OF assms(2)], erule list_all2_mono, rule ring_touched_sound)

lemma xen_inv_step:
  assumes "v4v_step env x x'" "xen_inv x"
  shows "xen_inv x'"
  using assms
proof cases
  case (step_quiet)
  then show ?thesis using assms(2) xen_inv_quiet by blast
next
  case (step_own_mem mem')
  then show ?thesis using assms(2) by simp
next
  case (step_ring dst tbl info info' mem')
  have ok: "tbl_ok dst tbl" using assms(2) step_ring(2) by (simp add: xen_inv_def)
  have "tbl_ok dst (tbl_store info' tbl)"
    using tbl_ok_store [OF ok, of info' info] step_ring(3,6) tbl_okD(2) [OF ok step_ring(3)]
    by (simp add: ring_touched_def)
  then show ?thesis
    using assms(2) step_ring(1,2) xen_inv_table [of "x\<lparr>xmem := mem'\<rparr>" dst tbl "tbl_store info'"] by simp
next
  case (step_own_table tbl tbl')
  have "tbl_ok (current_id env) tbl" using assms(2) step_own_table(2) by (simp add: xen_inv_def)
  then have "tbl_ok (current_id env) tbl'" by (rule tbl_ok_poll) (rule step_own_table(3))
  then show ?thesis using assms(2) step_own_table(1,2) xen_inv_table [of x _ tbl "\<lambda>_. tbl'"] by simp
next
  case (step_own_ring tbl info info' r)
  have ok: "tbl_ok (current_id env) tbl" using assms(2) step_own_ring(2) by (simp add: xen_inv_def)
  have "tbl_ok (current_id env) (tbl_store info' tbl)"
    using tbl_ok_store [OF ok, of info' info] step_own_ring(3-6) tbl_okD(2) [OF ok step_own_ring(3)] by simp
  then show ?thesis using assms(2) step_own_ring(1,2) xen_inv_table [of x _ tbl "tbl_store info'"] by simp
next
  case (step_new i tbl rid)
  have "tbl_ok i tbl" using assms(2) step_new(2) by (simp add: xen_inv_def)
  then have "tbl_ok i (tbl_add (new_info rid) tbl)" by (rule tbl_ok_add [OF _ step_new(3,4,6)])
  then show ?thesis using assms(2) step_new(1,2) xen_inv_table [of x i tbl "tbl_add (new_info rid)"] by simp
next
  case (step_del tbl info)
  have "tbl_ok (current_id env) tbl" using assms(2) step_del(2) by (simp add: xen_inv_def)
  then have "tbl_ok (current_id env) (tbl_del (ri_id info) tbl)" by (rule tbl_ok_del [OF _ step_del(3)])
  then show ?thesis 
    using assms(2) step_del(1,2) xen_inv_table [of x _ tbl "tbl_del (ri_id info)"] by (simp add: v4v_ring_remove_info_def)
next
  case step_oom
  then show ?thesis using assms(2) by simp
qed

lemma xen_inv_steps: "v4v_steps env x x' \<Longrightarrow> xen_inv x \<Longrightarrow> xen_inv x'"
  by (induction rule: rtranclp_induct) (auto intro: xen_inv_step)

section \<open>Rings touched by others\<close>

lemma payload_space_same:
  assumes "ri_wf info" "v4v_ringbuf_payload_space env mem info = (sp, info')"
  shows "ri_same info info' \<and> ri_wf info'"
proof -
  obtain q i where g: "v4v_ringbuf_get_rx_ptr env mem info = (q, i)" by force
  have "ri_same info i \<and> ri_wf i"
    using g assms(1) map_page_cases [OF assms(1)]
    by (fastforce simp: v4v_ringbuf_get_rx_ptr_def split: if_splits prod.splits sum.splits)
  then show ?thesis
    using assms g by (auto simp: v4v_ringbuf_payload_space_def Let_def split: if_splits sum.splits)
qed

lemma ring_touched_kept: "ri_kept info info' \<Longrightarrow> ring_touched S info info'"
  using ri_kept_fields [of info info'] by (simp add: ring_touched_def)

lemma ring_touched_same: "ri_same info info' \<Longrightarrow> ri_wf info' \<Longrightarrow> ring_touched S info info'"
  by (rule ring_touched_kept [OF ri_kept_same])

lemma ring_touched_trans: "ring_touched S a b \<Longrightarrow> ring_touched S b c \<Longrightarrow> ring_touched S a c"
  by (simp add: ring_touched_def)

lemma ri_wf_pending: "ri_wf (info\<lparr>ri_pending := es\<rparr>) = ri_wf info"
  by (auto simp: ri_wf_def split: option.splits)

lemma ring_touched_pending:
  assumes "ri_wf info" "pending_ok (ri_pending info) \<longrightarrow> pending_ok es"
    "\<forall>d. d \<notin> S \<longrightarrow> wanted es d = wanted (ri_pending info) d"
  shows "ring_touched S info (info\<lparr>ri_pending := es\<rparr>)"
  using assms by (simp add: ring_touched_def ri_wf_pending ri_frames_def)

lemma requeue_touched:
  assumes "ri_wf info" "v4v_pending_requeue ok info d n = (r, info')"
  shows "ring_touched {d} info info'"
proof -
  note R = requeue_cases [OF assms(2)]
  have "info' = info\<lparr>ri_pending := ri_pending info'\<rparr>" using R(1) by (simp add: pend_same_def)
  moreover have "wanted (ri_pending info') k = wanted (ri_pending info) k" if "k \<noteq> d" for k
    using R(3,4) that by (cases "r = None") auto
  ultimately show ?thesis
    using ring_touched_pending [OF assms(1), of "ri_pending info'" "{d}"] R(2) by auto
qed

lemma cancel_touched:
  assumes "ri_wf info"
  shows "ring_touched {d} info (v4v_pending_cancel info d)"
proof -
  have "wanted (filter (\<lambda>e. pe_id e \<noteq> d) es) k = wanted es k" if "k \<noteq> d" for es k
    using that by (induction es) (auto simp: wanted_Cons)
  then show ?thesis
    unfolding v4v_pending_cancel_def by (intro ring_touched_pending assms) (auto simp: pending_ok_filter)
qed

lemma find_by_addr:
  assumes "tbl_inv tbl" "v4v_ring_find_info_by_addr d tbl a p = Some info"
  shows "v4v_ring_find_info tbl (ri_id info) = Some info" "accepts (ri_id info) p"
    "a_port (id_addr (ri_id info)) = a_port a"
proof -
  let ?i = "\<lparr>id_addr = \<lparr>a_port = a_port a, a_domain = d\<rparr>, id_partner = p\<rparr>"
  have "\<exists>k. v4v_ring_find_info tbl k = Some info \<and> accepts k p \<and> a_port (id_addr k) = a_port a"
  proof (cases "v4v_ring_find_info tbl ?i")
    case None
    then show ?thesis
      using assms(2) by (intro exI [of _ "?i\<lparr>id_partner := V4V_DOMID_NONE\<rparr>"])
        (simp add: v4v_ring_find_info_by_addr_def Let_def accepts_def)
  next
    case (Some i)
    then show ?thesis
      using assms(2) by (intro exI [of _ ?i]) (simp add: v4v_ring_find_info_by_addr_def Let_def accepts_def)
  qed
  then obtain k where k: "v4v_ring_find_info tbl k = Some info" "accepts k p" "a_port (id_addr k) = a_port a"
    by blast
  moreover have "ri_id info = k" using ht.lookup_key [OF assms(1) k(1)] .
  ultimately show "v4v_ring_find_info tbl (ri_id info) = Some info" "accepts (ri_id info) p"
    "a_port (id_addr (ri_id info)) = a_port a" by simp_all
qed

lemma reply_touched:
  assumes "ri_wf info" "ring_data_reply env mem info src sr = (f, m, info')"
  shows "ring_touched {src} info info'"
proof -
  obtain sp info1 where sp: "v4v_ringbuf_payload_space (henv env) mem info = (sp, info1)" by force
  have s: "ri_same info info1" "ri_wf info1" using payload_space_same [OF assms(1) sp] by auto
  have "ring_touched {src} info1 info'"
    using assms(2) sp cancel_touched [OF s(2), of src] requeue_touched [OF s(2) prod.collapse [symmetric]]
    by (auto simp: ring_data_reply_def Let_def split: if_splits)
  then show ?thesis by (rule ring_touched_trans [OF ring_touched_same [OF s]])
qed

section \<open>Every hypercall follows the policy\<close>

lemma domain_table: "get_domain_by_id x i = Some d \<Longrightarrow> dom_v4v d = Some tbl \<Longrightarrow> dom_table x i = Some tbl"
  by (auto simp: get_domain_by_id_def dom_table_def split: if_splits option.splits)

lemma table_find: "dom_table x i = Some tbl \<Longrightarrow> dom_find x i \<noteq> None"
  by (auto simp: dom_table_def split: option.splits)

lemma copy_out_steps: "copy_out env addr bs x = (r, x') \<Longrightarrow> v4v_steps env x x'"
  by (auto simp: copy_out_def split: prod.splits dest!: copy_to_guest_errno_confined intro: step_own_mem)

lemma fill_ring_answer_steps:
  assumes inv: "xen_inv x" and own: "src = current_id env" and host: "IS_HOST (current_id env) \<or> IS_HOST dst"
    and res: "fill_ring_answer env src dst ent x = (f, m, x')"
  shows "v4v_steps env x x'"
proof (cases "x' = x")
  case False
  then obtain d tbl info info' where r: "get_domain_by_id x dst = Some d" "dom_v4v d = Some tbl"
    "v4v_ring_find_info_by_addr dst tbl (de_ring ent) src = Some info"
    "ring_data_reply env (xmem x) info src (de_space_required ent) = (f, m, info')"
    "x' = upd_table dst (tbl_store info') x"
    using res by (auto simp: fill_ring_answer_def split: option.splits prod.splits)
  have t: "dom_table x dst = Some tbl" by (rule domain_table [OF r(1,2)])
  then have ok: "tbl_ok dst tbl" using inv by (simp add: xen_inv_def)
  note F = find_by_addr [OF tbl_okD(1) [OF ok] r(3)]
  have "ring_touched {current_id env} info info'" using reply_touched [OF _ r(4)] tbl_okD(2) [OF ok F(1)] own by simp
  from step_ring [OF t F(1) _ host this confined_refl] F(2) own show ?thesis using r(5) by simp
qed simp

lemma validate_cases:
  assumes "v4v_validate_channel env x s d pre = Inr (s', d')" "s = current_id env"
  shows "s' = current_id env" "IS_HOST (current_id env) \<or> IS_HOST d'"
  using assms(2) validate_guest(1,2) [OF assms(1)] validate_host(1) [OF assms(1)]
  by (cases "IS_HOST (current_id env)"; simp)+

lemma fill_ring_data_steps:
  assumes "xen_inv x" "v4v_fill_ring_data env (current_id env) hnd x = (r, x')"
  shows "v4v_steps env x x'"
proof (cases "x' = x")
  case False
  then obtain bs src dst where v: "copy_in env x hnd 16 = Inr bs"
    "v4v_validate_channel env x (current_id env) (a_domain (de_ring (parse_ring_data_ent bs))) True = Inr (src, dst)"
    using assms(2) by (auto simp: v4v_fill_ring_data_def Let_def split: sum.splits)
  obtain f m x1 where a: "fill_ring_answer env src dst (parse_ring_data_ent bs) x = (f, m, x1)" by (metis prod_cases3)
  obtain r2 x2 where c: "copy_out env (u64 (hnd + 6)) (le_bytes 2 f) x1 = (r2, x2)" by force
  have s2: "v4v_steps env x x2"
    using fill_ring_answer_steps [OF assms(1) _ _ a] validate_cases [OF v(2) refl] copy_out_steps [OF c] by auto
  show ?thesis
    using assms(2) v a c s2
    by (cases r2) (auto simp: v4v_fill_ring_data_def Let_def dest: copy_out_steps intro: rtranclp_trans)
qed simp

lemma fill_ring_datas_steps:
  "xen_inv x \<Longrightarrow> v4v_fill_ring_datas env (current_id env) n hnd x = (r, x') \<Longrightarrow> v4v_steps env x x'"
proof (induction n arbitrary: hnd x)
  case (Suc n)
  obtain r1 x1 where f: "v4v_fill_ring_data env (current_id env) hnd x = (r1, x1)" by force
  have s: "v4v_steps env x x1" by (rule fill_ring_data_steps [OF Suc.prems(1) f])
  show ?case
  proof (cases r1)
    case None
    then have "v4v_fill_ring_datas env (current_id env) n (u64 (hnd + 16)) x1 = (r, x')" using Suc.prems(2) f by simp
    then show ?thesis using Suc.IH [OF xen_inv_steps [OF s Suc.prems(1)]] s by (meson rtranclp_trans)
  qed (use Suc.prems(2) f s in simp)
qed simp

lemma signal_steps: "dom_table x i = Some tbl \<Longrightarrow> v4v_steps env x (v4v_signal_domain env i x)"
  using step_quiet [OF signal_domain_quiet] table_find by blast

lemma send_to_ring_steps:
  assumes inv: "xen_inv x" and t: "dom_table x dst = Some tbl" "v4v_ring_find_info tbl (ri_id info) = Some info"
    and own: "a_domain (id_addr src_id) = current_id env" "accepts (ri_id info) (current_id env)"
    and host: "IS_HOST (current_id env) \<or> IS_HOST dst"
    and res: "send_to_ring env dst info src_id proto buf len iovs niov x = (r, x')"
  shows "v4v_steps env x x'"
proof -
  have ok: "tbl_ok dst tbl" using inv t(1) by (simp add: xen_inv_def)
  have wf: "ri_wf info" using tbl_okD(2) [OF ok t(2)] by simp
  obtain ret n info1 mem1 where i: "v4v_ringbuf_insert (henv env) (xmem x) info src_id proto buf len iovs niov =
      (ret, n, info1, mem1)" by (metis prod_cases4)
  note K = ringbuf_insert_kept [OF wf i]
  obtain q info2 where rq: "v4v_pending_requeue (xmalloc_ok env (A_pending (ri_id info))) info1
      (a_domain (id_addr src_id)) n = (q, info2)" by force
  define info' where "info' = (if ret = Some EAGAIN then info2 else info1)"
  have "ring_touched {current_id env} info info'"
    using ring_touched_kept [OF K(1), of "{current_id env}"] requeue_touched [OF ri_kept_fields(5) [OF K(1)] rq]
      own(1) ring_touched_trans [of "{current_id env}" info info1 info2] by (simp add: info'_def)
  from step_ring [OF t own(2) host this K(2)]
  have s: "v4v_steps env x (upd_table dst (tbl_store info') (x\<lparr>xmem := mem1\<rparr>))" by simp
  let ?x1 = "upd_table dst (tbl_store info') (x\<lparr>xmem := mem1\<rparr>)"
  have "v4v_steps env ?x1 (v4v_signal_domain env dst ?x1)"
    using t(1) by (intro signal_steps [of _ _ "tbl_store info' tbl"]) (simp add: dom_table_upd_table)
  with s have s2: "v4v_steps env x (v4v_signal_domain env dst ?x1)" by (rule rtranclp_trans)
  have "x' = ?x1 \<or> x' = v4v_signal_domain env dst ?x1"
    using res i rq by (auto simp: send_to_ring_def info'_def Let_def split: if_splits option.splits)
  then show ?thesis using s s2 by blast
qed

lemma send_steps:
  assumes inv: "xen_inv x" and own: "a_domain src = current_id env"
    and res: "v4v_send env d src dst proto buf len iovs niov x = (r, x')"
  shows "v4v_steps env x x'"
proof (cases "x' = x")
  case False
  obtain s dd dm tbl where v: "v4v_validate_channel env x (a_domain src) (a_domain dst) True = Inr (s, dd)"
    "get_domain_by_id x dd = Some dm" "dom_v4v dm = Some tbl"
    using res False by (auto simp: v4v_send_def Let_def split: option.splits sum.splits)
  note C = validate_cases [OF v(1) own]
  have t: "dom_table x dd = Some tbl" by (rule domain_table [OF v(2,3)])
  have "tbl_ok dd tbl" using inv t by (simp add: xen_inv_def)
  then have ti: "tbl_inv tbl" by (rule tbl_okD(1))
  show ?thesis
  proof (cases "v4v_ring_find_info_by_addr dd tbl dst s")
    case None
    then have "x' = v4v_signal_domain env dd x"
      using res False v by (auto simp: v4v_send_def Let_def split: option.splits)
    then show ?thesis using signal_steps [OF t] by simp
  next
    case (Some info)
    then have "send_to_ring env dd info \<lparr>id_addr = \<lparr>a_port = a_port src, a_domain = s\<rparr>, id_partner = dd\<rparr>
        proto buf len iovs niov x = (r, x')"
      using res False v by (auto simp: v4v_send_def Let_def split: option.splits)
    from send_to_ring_steps [OF inv t find_by_addr(1) [OF ti Some] _ _ C(2) this] find_by_addr(2) [OF ti Some] C(1)
    show ?thesis by simp
  qed
qed simp

lemma remove_steps:
  assumes "xen_inv x" "v4v_ring_remove env (current_id env) hnd x = (r, x')"
  shows "v4v_steps env x x'"
proof (cases "x' = x")
  case False
  then obtain tbl k info where t: "dom_table x (current_id env) = Some tbl" "v4v_ring_find_info tbl k = Some info"
    "x' = v4v_ring_remove_info (current_id env) info (\<not> IS_HOST (current_id env)) x"
    using assms(2) by (auto simp: v4v_ring_remove_def Let_def split: option.splits sum.splits if_splits)
  have "tbl_ok (current_id env) tbl" using assms(1) t(1) by (simp add: xen_inv_def)
  then have "v4v_ring_find_info tbl (ri_id info) = Some info" using tbl_okD(2) t(2) by metis
  from step_del [OF t(1) this] show ?thesis using t(3) by simp
qed simp

lemma create_steps:
  assumes "v4v_ring_create env (current_id env) hnd x = (r, x')"
  shows "v4v_steps env x x'"
proof (cases "x' = x")
  case False
  note D = assms [unfolded v4v_ring_create_def Let_def] False
  from D have host: "IS_HOST (current_id env)" by (auto split: if_splits)
  from D host obtain bs where b: "copy_in env x hnd 8 = Inr bs" by (auto split: sum.splits)
  define rid0 where "rid0 = parse_ring_id bs"
  define p0 where "p0 = (if id_partner rid0 \<noteq> V4V_DOMID_ANY then current_id env else id_partner rid0)"
  from D host b obtain s p where v: "v4v_validate_channel env x (a_domain (id_addr rid0)) p0 True = Inr (s, p)"
    by (cases "v4v_validate_channel env x (a_domain (id_addr rid0)) p0 True") (auto simp: rid0_def p0_def split: if_splits)
  from D host b v obtain dst tbl where t: "get_domain_by_id x s = Some dst" "dom_v4v dst = Some tbl"
    by (cases "get_domain_by_id x s"; cases "dom_v4v (the (get_domain_by_id x s))") (auto simp: rid0_def p0_def split: if_splits)
  define rid where "rid = \<lparr>id_addr = \<lparr>a_port = a_port (id_addr rid0), a_domain = s\<rparr>, id_partner = p\<rparr>"
  have e: "x' = x\<lparr>xen_bug := True\<rparr> \<or> v4v_ring_find_info tbl rid = None \<and> x' = upd_table s (tbl_add (new_info rid)) x"
    using D host b v t by (auto simp: rid_def rid0_def p0_def split: if_splits)
  have "p = 0 \<or> p = V4V_DOMID_NONE"
    using validate_host(2) [OF v host] host by (auto simp: p0_def domid_consts split: if_splits)
  then show ?thesis
    using e step_oom [OF host, of x] step_new [OF domain_table [OF t], of rid env] host
    by (elim disjE conjE) (auto simp: rid_def intro!: r_into_rtranclp)
qed simp

section \<open>Polling and registering\<close>

lemma notify_ring_touched:
  assumes "ri_wf info" "v4v_notify_ring env mem info tn = (info', tn')"
  shows "ring_touched UNIV info info'"
proof -
  obtain sp info1 where sp: "(if ri_len info \<noteq> 0 then v4v_ringbuf_payload_space (henv env) mem info
      else (0, info)) = (sp, info1)" by force
  have s: "ring_touched UNIV info info1"
  proof (cases "ri_len info = 0")
    case True
    then show ?thesis using sp ring_touched_same [of info info] assms(1) by simp
  next
    case False
    then show ?thesis using payload_space_same [OF assms(1)] sp ring_touched_same by auto
  qed
  then have w: "ri_wf info1" by (simp add: ring_touched_def)
  have "ring_touched UNIV info1 (info1\<lparr>ri_pending := filter P (ri_pending info1)\<rparr>)" for P
    by (rule ring_touched_pending [OF w]) (simp_all add: pending_ok_filter)
  then show ?thesis
    using assms(2) sp s ring_touched_trans [OF s]
    by (auto simp: v4v_notify_ring_def pending_find_eq Let_def split: if_splits)
qed

lemma map_acc_rel:
  assumes "map_acc f xs s = (ys, s')" "\<And>a s b t. a \<in> set xs \<Longrightarrow> f a s = (b, t) \<Longrightarrow> R a b"
  shows "list_all2 R xs ys"
  using assms by (induction xs arbitrary: s ys) (auto split: prod.splits)

lemma poll_touched:
  assumes "tbl_ok i tbl" "map_acc (map_acc (v4v_notify_ring env mem)) tbl tn = (tbl', tn')"
  shows "list_all2 (list_all2 (ring_touched UNIV)) tbl tbl'"
proof (rule map_acc_rel [OF assms(2)])
  fix b s b' t
  assume b: "b \<in> set tbl" and m: "map_acc (v4v_notify_ring env mem) b s = (b', t)"
  have "ri_wf info" if "info \<in> set b" for info using assms(1) b that unfolding tbl_ok_def by auto
  then show "list_all2 (ring_touched UNIV) b b'"
    by (intro map_acc_rel [OF m]) (rule notify_ring_touched)
qed

lemma check_pending_steps:
  assumes "xen_inv x" "dom_table x (current_id env) = Some tbl"
  shows "v4v_steps env x (v4v_notify_check_pending env (current_id env) x)"
proof -
  obtain tbl' tn where m: "map_acc (map_acc (v4v_notify_ring env (xmem x))) tbl [] = (tbl', tn)" by force
  have "tbl_ok (current_id env) tbl" using assms by (simp add: xen_inv_def)
  from step_own_table [OF assms(2) poll_touched [OF this m]]
  have "v4v_steps env x (upd_table (current_id env) (\<lambda>_. tbl') x)" by simp
  moreover have "v4v_steps env y (v4v_pending_notify env tn y)" for y
    using step_quiet [OF pending_notify_quiet] by blast
  ultimately have "v4v_steps env x (v4v_pending_notify env tn (upd_table (current_id env) (\<lambda>_. tbl') x))"
    by (meson rtranclp_trans)
  then show ?thesis using assms(2) m by (simp add: v4v_notify_check_pending_def)
qed

lemma check_pending_table:
  assumes "dom_table x i = Some tbl"
  shows "\<exists>tbl'. dom_table (v4v_notify_check_pending env i x) i = Some tbl'"
proof -
  obtain tbl' tn where m: "map_acc (map_acc (v4v_notify_ring env (xmem x))) tbl [] = (tbl', tn)" by force
  then show ?thesis
    using assms quiet_table [OF pending_notify_quiet]
    by (simp add: v4v_notify_check_pending_def dom_table_upd_table)
qed

lemma add_check_steps:
  assumes "ring_add_check env (current_id env) hnd tok x = (q, x')"
  shows "v4v_steps env x x' \<and> dom_table x' = dom_table x \<and>
    (\<forall>rid len tx. q = Inr (rid, len, tx) \<longrightarrow> a_domain (id_addr rid) = current_id env \<and>
       (IS_HOST (current_id env) \<or> id_partner rid = 0))"
proof -
  have co: "v4v_steps env y y' \<and> dom_table y' = dom_table y" if "copy_out env a bs y = (r, y')" for a bs y r y'
    using copy_out_steps [OF that] that by (auto simp: copy_out_def split: prod.splits)
  have vc: "s = current_id env \<and> (IS_HOST (current_id env) \<or> p = 0)"
    if "v4v_validate_channel env x (current_id env) pid a = Inr (s, p)" for pid a s p
    using validate_cases [OF that refl] validate_guest(2) [OF that] by auto
  have dm: "V4V_DOMID_DM \<noteq> 0" by (simp add: domid_consts)
  show ?thesis
    using assms dm
    by (auto simp: ring_add_check_def Let_def dest!: co vc split: sum.splits if_splits prod.splits option.splits
        intro: rtranclp_trans)
qed

lemma publish_steps:
  assumes I: "xen_inv x" "dom_table x (current_id env) = Some tbl" "v4v_ring_find_info tbl (ri_id info) = Some info"
    and p: "ring_add_publish env (current_id env) info len tx ring_hnd pfn_hnd x = (r, x')"
  shows "v4v_steps env x x' \<and> dom_table x' (current_id env) \<noteq> None"
proof -
  let ?i = "info\<lparr>ri_tx_ptr := tx, ri_ring := ring_hnd\<rparr>"
  obtain r1 info2 refs' where f: "v4v_find_ring_mfns env (current_id env) (xmem x) ?i pfn_hnd len (page_refs x)
    = (r1, info2, refs')" by (metis prod_cases3)
  obtain r3 info3 where m: "(case r1 of Some e \<Rightarrow> (Some e, info2)
    | None \<Rightarrow> (case v4v_ring_map_page (henv env) info2 0 of
        (Inl e, i) \<Rightarrow> (Some e, i) | (Inr _, i) \<Rightarrow> (None, i))) = (r3, info3)" by force
  define info4 where "info4 = (if r3 = None then info3\<lparr>ri_len := len\<rparr> else info3)"
  have "tbl_ok (current_id env) tbl" using I(1,2) by (simp add: xen_inv_def)
  from tbl_okD(2) [OF this I(3)] have w: "ri_wf ?i" by (auto simp: ri_wf_def split: option.splits)
  have ok: "pages_ok (\<not> IS_HOST (current_id env)) ?i (page_refs x) info2 refs'"
    using find_ring_mfns_ok [OF w refl f] by blast
  have "pages_ok (\<not> IS_HOST (current_id env)) ?i (page_refs x) info3 refs'"
  proof (cases "info3 = info2")
    case False
    then obtain q where "v4v_ring_map_page (henv env) info2 0 = (q, info3)"
      using m by (auto split: option.splits prod.splits sum.splits)
    then show ?thesis
      using ok map_page_cases [of info2 "henv env" 0 q info3]
      by (auto simp: pages_ok_def same_ring_def balanced_def holds_def ri_same_iff ri_frames_def)
  qed (use ok in simp)
  then have "ri_id info4 = ri_id info \<and> ri_pending info4 = ri_pending info \<and> ri_wf info4 \<and>
    balanced (\<not> IS_HOST (current_id env)) info (page_refs x) info4 refs'"
    by (auto simp: pages_ok_def same_ring_def balanced_def holds_def info4_def ri_wf_def ri_frames_def split: option.splits)
  then have "v4v_steps env x ((upd_table (current_id env) (tbl_store info4) x)\<lparr>page_refs := refs'\<rparr>)"
    using step_own_ring [OF I(2,3)] by blast
  moreover have "x' = (upd_table (current_id env) (tbl_store info4) x)\<lparr>page_refs := refs'\<rparr>"
    using p f m by (auto simp: ring_add_publish_def info4_def Let_def)
  ultimately show ?thesis using I(2) by (simp add: dom_table_upd_table)
qed

lemma install_steps:
  assumes I: "xen_inv x" "a_domain (id_addr rid) = current_id env" "IS_HOST (current_id env) \<or> id_partner rid = 0"
    and p: "ring_add_install env (current_id env) rid len tx ring_hnd pfn_hnd fe x = (r, x')"
  shows "v4v_steps env x x' \<and> (dom_table x (current_id env) \<noteq> None \<longrightarrow> dom_table x' (current_id env) \<noteq> None)"
proof (cases "x' = x")
  case False
  note P = p [unfolded ring_add_install_def] False
  from P obtain tbl where t: "dom_table x (current_id env) = Some tbl" by (auto split: option.splits)
  have ok: "tbl_ok (current_id env) tbl" using I(1) t by (simp add: xen_inv_def)
  show ?thesis
  proof (cases "v4v_ring_find_info tbl rid")
    case None
    let ?y = "upd_table (current_id env) (tbl_add (new_info rid)) x"
    have s: "v4v_step env x ?y" using step_new [OF t None I(2)] I(3) by auto
    have k: "ri_id (new_info rid) = rid" by (simp add: new_info_def)
    have "v4v_ring_find_info (tbl_add (new_info rid) tbl) rid = Some (new_info rid)"
      using ht.step_lookup [OF tbl_okD(1) [OF ok], of "Tbl_add (new_info rid)"] None k by simp
    then have "v4v_steps env ?y x' \<and> dom_table x' (current_id env) \<noteq> None"
      using publish_steps [OF xen_inv_step [OF s I(1)], of env "tbl_add (new_info rid) tbl" "new_info rid"]
        P None t k by (auto simp: dom_table_upd_table split: if_splits)
    then show ?thesis using s by (meson converse_rtranclp_into_rtranclp)
  next
    case (Some info)
    then have "v4v_ring_find_info tbl (ri_id info) = Some info" using tbl_okD(2) [OF ok Some] by simp
    from publish_steps [OF I(1) t this] show ?thesis using P t Some by (auto split: if_splits)
  qed
qed simp

lemma add_steps:
  assumes inv: "xen_inv x" and a: "v4v_ring_add env (current_id env) ring_hnd pfn_hnd tok fe x = (r, x')"
  shows "v4v_steps env x x'"
proof (cases "x' = x")
  case False
  obtain q x1 where c: "ring_add_check env (current_id env) ring_hnd tok x = (q, x1)" by force
  note C = add_check_steps [OF c]
  note A = a [unfolded v4v_ring_add_def c] False
  from A obtain tbl where t: "dom_table x (current_id env) = Some tbl" by (auto split: option.splits if_splits)
  show ?thesis
  proof (cases q)
    case (Inl e)
    then show ?thesis using A C t by (auto split: if_splits)
  next
    case (Inr b)
    then obtain rid len tx where q: "q = Inr (rid, len, tx)" by (cases b) auto
    obtain r2 x2 where i: "ring_add_install env (current_id env) rid len tx ring_hnd pfn_hnd fe x1 = (r2, x2)" by force
    have x1: "xen_inv x1" using C xen_inv_steps [OF _ inv] by blast
    have s2: "v4v_steps env x1 x2" "dom_table x2 (current_id env) \<noteq> None"
      using install_steps [OF x1 _ _ i] C q t by auto
    then have "v4v_steps env x2 (v4v_notify_check_pending env (current_id env) x2)"
      using check_pending_steps [OF xen_inv_steps [OF s2(1) x1]] by blast
    then have "v4v_steps env x2 x'" using A t q i by (auto split: if_splits option.splits)
    then show ?thesis using C s2(1) by (meson rtranclp_trans)
  qed
qed simp

lemma notify_steps:
  assumes inv: "xen_inv x" and n: "v4v_notify env (current_id env) hnd x = (r, x')"
  shows "v4v_steps env x x'"
proof (cases "dom_table x (current_id env)")
  case (Some tbl)
  let ?y = "v4v_notify_check_pending env (current_id env) x"
  have y: "v4v_steps env x ?y" by (rule check_pending_steps [OF inv Some])
  have "v4v_steps env ?y x'"
    using n Some fill_ring_datas_steps [OF xen_inv_steps [OF y inv]]
    by (auto simp: v4v_notify_def Let_def split: if_splits sum.splits)
  then show ?thesis using y by (meson rtranclp_trans)
qed (use n in \<open>simp add: v4v_notify_def\<close>)

lemma status_snd [simp]: "snd (status rx) = snd rx"
  by (auto simp: status_def split: prod.splits option.splits)

lemma send_addrs_own: "send_addrs env a b x = Inr (src, dst) \<Longrightarrow> a_domain src = current_id env"
  by (auto simp: send_addrs_def split: if_splits sum.splits)

lemma v4v_op_steps:
  assumes "xen_inv x"
  shows "v4v_steps env x (snd (do_v4v_op env cmd a1 a2 a3 a4 a5 x))"
proof -
  note S = add_steps [OF assms prod.collapse [symmetric]] remove_steps [OF assms prod.collapse [symmetric]]
    notify_steps [OF assms prod.collapse [symmetric]] create_steps [OF prod.collapse [symmetric]]
  have "v4v_steps env x (snd (v4v_send env d src dst p b l i n x))" if "send_addrs env a1 a2 x = Inr (src, dst)"
    for d src dst p b l i n
    by (rule send_steps [OF assms send_addrs_own [OF that] prod.collapse [symmetric]])
  then show ?thesis
    by (auto simp: do_v4v_op_def Let_def S split: sum.split)
qed

end
