(* ===== verification/V4v_Isolation.thy ===== *)
theory V4v_Isolation
  imports V4v_Policy
begin

text \<open>
  What a guest can reach through V4V.  The frame condition \<open>guest_reach\<close> holds of every step a guest
  makes, is transitive, and so holds of every hypercall of a guest.
\<close>

section \<open>What a guest's hypercall may change\<close>

text \<open>The frames of the host's rings that take messages from domain \<open>c\<close>.\<close>

definition open_frames :: "domid \<Rightarrow> xen \<Rightarrow> mfn set" where
  "open_frames c x = {m. \<exists>tbl rid info. dom_table x 0 = Some tbl \<and> v4v_ring_find_info tbl rid = Some info \<and>
     accepts rid c \<and> m \<in> set (ri_frames info)}"

text \<open>A ring of the host before and after.\<close>

definition host_ring :: "domid \<Rightarrow> v4v_ring_id \<Rightarrow> v4v_ring_info option \<Rightarrow> v4v_ring_info option \<Rightarrow> bool" where
  "host_ring c rid r r' \<longleftrightarrow> (if accepts rid c then rel_option (ring_touched {c}) r r' else r' = r)"

definition dom_flags :: "xdomain \<Rightarrow> bool \<times> bool \<times> byte list" where
  "dom_flags d = (is_dying d, destroyed d, v4v_token d)"

definition guest_reach :: "hyp_env \<Rightarrow> xen \<Rightarrow> xen \<Rightarrow> bool" where
  "guest_reach env x x' \<longleftrightarrow>
     (\<forall>i. i \<noteq> current_id env \<and> i \<noteq> 0 \<longrightarrow> rel_option dom_quiet (dom_find x i) (dom_find x' i)) \<and>
     (\<forall>i. map_option dom_flags (dom_find x' i) = map_option dom_flags (dom_find x i)) \<and>
     rel_option (\<lambda>t t'. \<forall>rid. host_ring (current_id env) rid (v4v_ring_find_info t rid) (v4v_ring_find_info t' rid))
       (dom_table x 0) (dom_table x' 0) \<and>
     confined (writable (cur (henv env)) \<union> open_frames (current_id env) x) (xmem x) (xmem x') \<and>
     (ui_running env \<longrightarrow> xen_bug x' = xen_bug x)"

lemma dom_find_simps [simp]:
  "dom_find (x\<lparr>page_refs := r\<rparr>) = dom_find x" "dom_find (x\<lparr>xmem := m\<rparr>) = dom_find x"
  "dom_find (x\<lparr>xen_bug := b\<rparr>) = dom_find x"
  by (simp_all add: fun_eq_iff dom_find_def)

lemma dom_find_upd_table:
  "dom_find (upd_table i f x) j =
     (if j = i then map_option (\<lambda>d. d\<lparr>dom_v4v := map_option f (dom_v4v d)\<rparr>) (dom_find x j) else dom_find x j)"
  by (simp add: upd_table_def dom_find_upd)

lemma dom_flags_v4v [simp]: "dom_flags (d\<lparr>dom_v4v := t\<rparr>) = dom_flags d"
  by (simp add: dom_flags_def)

lemma flags_upd_table [simp]:
  "map_option dom_flags (dom_find (upd_table i f x) j) = map_option dom_flags (dom_find x j)"
  by (cases "dom_find x j") (auto simp: dom_find_upd_table)

lemma xen_bug_upd_table [simp]: "xen_bug (upd_table i f x) = xen_bug x"
  by (simp add: upd_table_def upd_dom_def)

lemma host_ring_refl: "(\<And>info. r = Some info \<Longrightarrow> ri_wf info) \<Longrightarrow> host_ring c rid r r"
  by (cases r) (auto simp: host_ring_def ring_touched_def)

lemma host_ring_trans: "host_ring c rid r r1 \<Longrightarrow> host_ring c rid r1 r2 \<Longrightarrow> host_ring c rid r r2"
  by (cases r; cases r1; cases r2) (auto simp: host_ring_def ring_touched_def split: if_splits)

lemma open_frames_mono:
  assumes "rel_option (\<lambda>t t'. \<forall>rid. host_ring c rid (v4v_ring_find_info t rid) (v4v_ring_find_info t' rid))
    (dom_table x 0) (dom_table x' 0)"
  shows "open_frames c x' \<subseteq> open_frames c x"
proof
  fix m assume "m \<in> open_frames c x'"
  then obtain t' rid info' where t: "dom_table x' 0 = Some t'" "v4v_ring_find_info t' rid = Some info'"
    "accepts rid c" "m \<in> set (ri_frames info')" by (auto simp: open_frames_def)
  then obtain t where u: "dom_table x 0 = Some t" "host_ring c rid (v4v_ring_find_info t rid) (Some info')"
    using assms by (cases "dom_table x 0") (auto dest!: spec [of _ rid])
  then obtain info where "v4v_ring_find_info t rid = Some info" "ri_frames info' = ri_frames info"
    using t(3) by (cases "v4v_ring_find_info t rid") (simp_all add: host_ring_def ring_touched_def)
  then show "m \<in> open_frames c x" using t(3,4) u(1) by (auto simp: open_frames_def)
qed

lemma rel_option_trans:
  assumes "rel_option R a b" "rel_option R b c" "\<And>x y z. R x y \<Longrightarrow> R y z \<Longrightarrow> R x z"
  shows "rel_option R a c"
  using assms(1,2) by (cases a; cases b; cases c) (simp_all, rule assms(3))

lemma guest_reach_trans:
  assumes "guest_reach env x y" "guest_reach env y z"
  shows "guest_reach env x z"
proof -
  let ?c = "current_id env" and ?W = "writable (cur (henv env))"
  let ?R = "\<lambda>t t'. \<forall>rid. host_ring ?c rid (v4v_ring_find_info t rid) (v4v_ring_find_info t' rid)"
  have h: "rel_option ?R (dom_table x 0) (dom_table y 0)" "rel_option ?R (dom_table y 0) (dom_table z 0)"
    using assms by (simp_all add: guest_reach_def)
  have "?R a b \<Longrightarrow> ?R b d \<Longrightarrow> ?R a d" for a b d using host_ring_trans by blast
  then have "rel_option ?R (dom_table x 0) (dom_table z 0)" by (rule rel_option_trans [OF h])
  moreover have "?W \<union> open_frames ?c y \<subseteq> ?W \<union> open_frames ?c x" using open_frames_mono [OF h(1)] by blast
  then have "confined (?W \<union> open_frames ?c x) (xmem y) (xmem z)"
    using assms(2) confined_mono [of "?W \<union> open_frames ?c y" "xmem y" "xmem z"] by (simp add: guest_reach_def)
  then have "confined (?W \<union> open_frames ?c x) (xmem x) (xmem z)"
    using assms(1) confined_trans [of "?W \<union> open_frames ?c x" "xmem x" "xmem y" "xmem z"]
    by (simp add: guest_reach_def)
  moreover have "rel_option dom_quiet (dom_find x i) (dom_find z i)" if "i \<noteq> ?c" "i \<noteq> 0" for i
    using assms that rel_option_trans [of dom_quiet "dom_find x i" "dom_find y i" "dom_find z i"] dom_quiet_trans
    unfolding guest_reach_def by blast
  ultimately show ?thesis using assms unfolding guest_reach_def by (intro conjI allI impI) simp_all
qed

section \<open>One step\<close>

lemma host_refl:
  assumes "xen_inv x"
  shows "rel_option (\<lambda>t t'. \<forall>rid. host_ring c rid (v4v_ring_find_info t rid) (v4v_ring_find_info t' rid))
    (dom_table x i) (dom_table x i)"
proof (cases "dom_table x i")
  case (Some t)
  then have "tbl_ok i t" using assms by (simp add: xen_inv_def)
  then have "host_ring c rid (v4v_ring_find_info t rid) (v4v_ring_find_info t rid)" for rid
    using tbl_okD(2) [of i t rid] by (intro host_ring_refl) simp
  then show ?thesis using Some by simp
qed simp

lemma quiet_flags: "rel_option dom_quiet a b \<Longrightarrow> map_option dom_flags b = map_option dom_flags a"
  by (cases a; cases b) (auto simp: dom_quiet_def dom_data_def dom_flags_def)

lemma rel_option_quiet [simp]: "rel_option dom_quiet a a"
  by (cases a) auto

text \<open>A change of the caller's own table, whatever it is.\<close>

lemma own_table_frame:
  assumes "xen_inv x" "\<not> IS_HOST (current_id env)"
  shows "guest_reach env x ((upd_table (current_id env) f x)\<lparr>page_refs := r\<rparr>)"
  unfolding guest_reach_def
  using host_refl [OF assms(1), of "current_id env" 0] assms(2)
  by (intro conjI allI impI) (simp_all add: dom_find_upd_table dom_table_upd_table option.map_comp comp_def)

lemma own_table_frame_refs:
  assumes "xen_inv x" "\<not> IS_HOST (current_id env)"
  shows "guest_reach env x (upd_table (current_id env) f x)"
proof -
  have "(upd_table (current_id env) f x)\<lparr>page_refs := page_refs x\<rparr> = upd_table (current_id env) f x"
    by (simp add: upd_table_def upd_dom_def)
  then show ?thesis using own_table_frame [OF assms, where f = f and r = "page_refs x"] by (simp only:)
qed

lemma ring_frame:
  assumes inv: "xen_inv x" and t: "dom_table x 0 = Some tbl" "v4v_ring_find_info tbl (ri_id info) = Some info"
    and a: "accepts (ri_id info) (current_id env)" "ring_touched {current_id env} info info'"
    and m: "confined (set (ri_frames info)) (xmem x) mem'"
  shows "guest_reach env x (upd_table 0 (tbl_store info') (x\<lparr>xmem := mem'\<rparr>))"
proof -
  have ok: "tbl_ok 0 tbl" using inv t(1) by (simp add: xen_inv_def)
  have k: "ri_id info' = ri_id info" using a(2) by (simp add: ring_touched_def)
  have l: "v4v_ring_find_info (tbl_store info' tbl) = (v4v_ring_find_info tbl)(ri_id info \<mapsto> info')"
    using ht.lookup_store [OF tbl_okD(1) [OF ok], of info'] t(2) k by simp
  have "host_ring (current_id env) rid (v4v_ring_find_info tbl rid) (v4v_ring_find_info (tbl_store info' tbl) rid)" for rid
    using host_refl [OF inv, of "current_id env" 0] t a l by (auto simp: host_ring_def)
  moreover have "set (ri_frames info) \<subseteq> open_frames (current_id env) x"
    using t a(1) by (auto simp: open_frames_def)
  then have "confined (writable (cur (henv env)) \<union> open_frames (current_id env) x) (xmem x) mem'"
    by (intro confined_mono [OF m]) auto
  ultimately show ?thesis
    using t unfolding guest_reach_def
    by (intro conjI allI impI) (simp_all add: dom_find_upd_table dom_table_upd_table option.map_comp comp_def)
qed

lemma guest_reach_step:
  assumes "v4v_step env x x'" "xen_inv x" "\<not> IS_HOST (current_id env)"
  shows "guest_reach env x x'"
  using assms(1)
proof cases
  case step_quiet
  have "map_option dom_flags (dom_find x' i) = map_option dom_flags (dom_find x i)" for i
    by (rule quiet_flags [OF quiet_find [OF step_quiet]])
  then show ?thesis
    using step_quiet quiet_find [OF step_quiet] quiet_table [OF step_quiet, of 0]
      host_refl [OF assms(2), of "current_id env" 0]
    unfolding guest_reach_def quiet_def by (intro conjI allI impI) simp_all
next
  case (step_own_mem mem')
  then show ?thesis
    using host_refl [OF assms(2), of "current_id env" 0] confined_mono [of "writable (cur (henv env))" "xmem x" mem'
        "writable (cur (henv env)) \<union> open_frames (current_id env) x"]
    by (simp add: guest_reach_def)
next
  case (step_ring dst tbl info info' mem')
  then have "dst = 0" using assms(3) by simp
  then show ?thesis using step_ring ring_frame [OF assms(2)] by simp
next
  case (step_own_table tbl tbl')
  then show ?thesis using own_table_frame_refs [OF assms(2,3)] by simp
next
  case (step_own_ring tbl info info' r)
  then show ?thesis using own_table_frame [OF assms(2,3)] by simp
next
  case (step_new i tbl rid)
  then show ?thesis using own_table_frame_refs [OF assms(2,3)] assms(3) by auto
next
  case (step_del tbl info)
  then show ?thesis using own_table_frame [OF assms(2,3)] by (simp add: v4v_ring_remove_info_def)
next
  case step_oom
  then show ?thesis using assms(3) by simp
qed

lemma guest_reach_steps:
  assumes "v4v_steps env x x'" "xen_inv x" "\<not> IS_HOST (current_id env)"
  shows "guest_reach env x x'"
  using assms(1)
proof (induction rule: rtranclp_induct)
  case base
  then show ?case using host_refl [OF assms(2), of "current_id env" 0] by (simp add: guest_reach_def)
next
  case (step y z)
  show ?case
    by (rule guest_reach_trans [OF step(3) guest_reach_step [OF step(2) xen_inv_steps [OF step(1) assms(2)] assms(3)]])
qed

end
