(* ===== verification/V4v_Refs.thy ===== *)
theory V4v_Refs
  imports V4v_Isolation
begin

text \<open>
  The page references V4V takes.  Guests' rings hold one reference per frame they list; the
  references outstanding are exactly those of the rings that exist.  The system \<open>v4v_system\<close> runs
  hypercalls of all domains and the life cycle of their V4V state in any order.
\<close>

section \<open>Counting\<close>

definition table_holds :: "v4v_table \<Rightarrow> mfn \<Rightarrow> nat" where
  "table_holds tbl m = (\<Sum>info\<leftarrow>concat tbl. count_list (ri_frames info) m)"

definition dom_holds :: "mfn \<Rightarrow> xdomain \<Rightarrow> nat" where
  "dom_holds m d = (if IS_HOST (domain_id d) then 0 else case dom_v4v d of None \<Rightarrow> 0 | Some tbl \<Rightarrow> table_holds tbl m)"

definition refs_exact :: "xen \<Rightarrow> bool" where
  "refs_exact x \<longleftrightarrow> (\<forall>m. m \<noteq> 0 \<longrightarrow> page_refs x m = int (\<Sum>d\<leftarrow>domain_list x. dom_holds m d))"

lemma sum_list_upd:
  assumes "distinct (map k xs)" "find (\<lambda>d. k d = i) xs = Some d"
  shows "(\<Sum>d\<leftarrow>map (\<lambda>d. if k d = i then f d else d) xs. g d) + g d = (\<Sum>d\<leftarrow>xs. g d) + (g (f d) :: nat)"
  using assms
proof (induction xs)
  case (Cons a xs)
  show ?case
  proof (cases "k a = i")
    case True
    then have "\<forall>b \<in> set xs. k b \<noteq> i" using Cons.prems(1) by (metis distinct.simps(2) image_eqI list.set_map list.simps(9))
    then have "map (\<lambda>d. if k d = i then f d else d) xs = xs" by (simp add: map_idI)
    then show ?thesis using Cons.prems(2) True by simp
  qed (use Cons in simp)
qed simp

lemma sum_concat_upd:
  "h < length t \<Longrightarrow> (\<Sum>a\<leftarrow>concat (t[h := b]). g a) + (\<Sum>a\<leftarrow>t ! h. g a) = (\<Sum>a\<leftarrow>concat t. g a) + (\<Sum>a\<leftarrow>b. g a :: nat)"
proof (induction t arbitrary: h)
  case (Cons c t)
  then show ?case by (cases h) auto
qed simp

lemma sum_update_first: "find P xs = Some v \<Longrightarrow> (\<Sum>a\<leftarrow>update_first P w xs. g a) + g v = (\<Sum>a\<leftarrow>xs. g a) + (g w :: nat)"
  by (induction xs) (auto split: if_splits)

lemma sum_remove_first: "find P xs = Some v \<Longrightarrow> (\<Sum>a\<leftarrow>remove_first P xs. g a) + g v = (\<Sum>a\<leftarrow>xs. g a :: nat)"
  by (induction xs) (auto split: if_splits)

lemma hash_bound: "tbl_inv tbl \<Longrightarrow> v4v_hash_fn i < length tbl"
  using hash_less [of i] by (simp add: tbl_inv_def)

lemma table_holds_upd:
  assumes "tbl_inv tbl"
  shows "table_holds (tbl[v4v_hash_fn k := b]) m + (\<Sum>info\<leftarrow>tbl ! v4v_hash_fn k. count_list (ri_frames info) m) =
    table_holds tbl m + (\<Sum>info\<leftarrow>b. count_list (ri_frames info) m)"
  unfolding table_holds_def by (rule sum_concat_upd [OF hash_bound [OF assms]])

lemma table_holds_add:
  assumes "tbl_inv tbl"
  shows "table_holds (tbl_add info tbl) m = table_holds tbl m + count_list (ri_frames info) m"
  using table_holds_upd [OF assms, of "ri_id info" "info # tbl ! v4v_hash_fn (ri_id info)" m]
  by (simp add: tbl_add_def Let_def)

lemma table_holds_store:
  assumes "tbl_inv tbl" "v4v_ring_find_info tbl (ri_id info) = Some old"
  shows "table_holds (tbl_store info tbl) m + count_list (ri_frames old) m =
    table_holds tbl m + count_list (ri_frames info) m"
  using table_holds_upd [OF assms(1), of "ri_id info"
      "update_first (\<lambda>i. ri_id i = ri_id info) info (tbl ! v4v_hash_fn (ri_id info))" m]
    sum_update_first [OF assms(2) [unfolded v4v_ring_find_info_def], where w = info and g = "\<lambda>info. count_list (ri_frames info) m"]
  by (simp add: tbl_store_def Let_def)

lemma table_holds_del:
  assumes "tbl_inv tbl" "v4v_ring_find_info tbl k = Some old"
  shows "table_holds (tbl_del k tbl) m + count_list (ri_frames old) m = table_holds tbl m"
  using table_holds_upd [OF assms(1), of k "remove_first (\<lambda>info. ri_id info = k) (tbl ! v4v_hash_fn k)" m]
    sum_remove_first [OF assms(2) [unfolded v4v_ring_find_info_def], where g = "\<lambda>info. count_list (ri_frames info) m"]
  by (simp add: tbl_del_def Let_def)

lemma table_holds_same:
  assumes "list_all2 (list_all2 (ring_touched S)) tbl tbl'"
  shows "table_holds tbl' m = table_holds tbl m"
proof -
  have "list_all2 (ring_touched S) (concat tbl) (concat tbl')" by (rule list_all2_concat [OF assms])
  then have "map (\<lambda>info. count_list (ri_frames info) m) (concat tbl') =
      map (\<lambda>info. count_list (ri_frames info) m) (concat tbl)"
    by (induction rule: list_all2_induct) (simp_all add: ring_touched_def)
  then show ?thesis by (simp only: table_holds_def)
qed

section \<open>A change of one table\<close>

lemma holds_upd_dom:
  assumes "xen_inv x" "dom_find x i = Some d"
  shows "(\<Sum>e\<leftarrow>domain_list (upd_dom i f x). dom_holds m e) + dom_holds m d = (\<Sum>e\<leftarrow>domain_list x. dom_holds m e) + dom_holds m (f d)"
  using sum_list_upd [of domain_id "domain_list x" i d "dom_holds m" f] assms
  by (simp add: upd_dom_def xen_inv_def dom_find_def)

lemma refs_exact_upd:
  assumes inv: "xen_inv x" "refs_exact x" and t: "dom_table x i = Some tbl"
    and r: "\<And>m. m \<noteq> 0 \<Longrightarrow> r m - (if IS_HOST i then 0 else int (table_holds (f tbl) m)) =
      page_refs x m - (if IS_HOST i then 0 else int (table_holds tbl m))"
  shows "refs_exact ((upd_table i f x)\<lparr>page_refs := r\<rparr>)"
proof -
  obtain d where d: "dom_find x i = Some d" "dom_v4v d = Some tbl"
    using t by (auto simp: dom_table_def split: option.splits)
  have "domain_id d = i" by (rule dom_find_id [OF d(1)])
  then have h: "dom_holds m d = (if IS_HOST i then 0 else table_holds tbl m)"
    "dom_holds m (d\<lparr>dom_v4v := map_option f (dom_v4v d)\<rparr>) = (if IS_HOST i then 0 else table_holds (f tbl) m)" for m
    using d(2) by (simp_all add: dom_holds_def)
  have "r m = int (\<Sum>e\<leftarrow>domain_list (upd_table i f x). dom_holds m e)" if "m \<noteq> 0" for m
    using holds_upd_dom [OF inv(1) d(1), of m "\<lambda>d. d\<lparr>dom_v4v := map_option f (dom_v4v d)\<rparr>"] r [OF that]
      inv(2) that h [of m] by (cases "IS_HOST i") (auto simp: refs_exact_def upd_table_def)
  then show ?thesis by (simp add: refs_exact_def)
qed

lemma refs_exact_upd_same:
  assumes "xen_inv x" "refs_exact x" "dom_table x i = Some tbl" "\<And>m. table_holds (f tbl) m = table_holds tbl m"
  shows "refs_exact (upd_table i f x)"
proof -
  have "(upd_table i f x)\<lparr>page_refs := page_refs x\<rparr> = upd_table i f x"
    by (simp add: upd_table_def upd_dom_def)
  then show ?thesis using refs_exact_upd [OF assms(1-3), where f = f and r = "page_refs x"] assms(4) by (simp only:)
qed

section \<open>Hypercalls\<close>

lemma refs_exact_quiet:
  assumes "quiet env x x'" "refs_exact x"
  shows "refs_exact x'"
proof -
  have "list_all2 dom_quiet (domain_list x) (domain_list x')" using assms(1) by (simp add: quiet_def)
  then have "map (dom_holds m) (domain_list x') = map (dom_holds m) (domain_list x)" for m
    by (induction rule: list_all2_induct) (auto simp: dom_quiet_def dom_data_def dom_holds_def)
  then show ?thesis using assms by (simp add: refs_exact_def quiet_def)
qed

lemma refs_exact_mem [simp]: "refs_exact (x\<lparr>xmem := m\<rparr>) = refs_exact x" "refs_exact (x\<lparr>xen_bug := b\<rparr>) = refs_exact x"
  by (simp_all add: refs_exact_def)

lemma xen_inv_mem [simp]: "xen_inv (x\<lparr>xmem := m\<rparr>) = xen_inv x" "xen_inv (x\<lparr>page_refs := r\<rparr>) = xen_inv x"
  by (simp_all add: xen_inv_def)

lemma refs_exact_ring:
  assumes "xen_inv x" "refs_exact x" "dom_table x i = Some tbl" "v4v_ring_find_info tbl (ri_id info) = Some info"
    "ri_id info' = ri_id info" "balanced (\<not> IS_HOST i) info (page_refs x) info' r"
  shows "refs_exact ((upd_table i (tbl_store info') x)\<lparr>page_refs := r\<rparr>)"
proof (rule refs_exact_upd [OF assms(1-3)])
  fix m :: mfn assume "m \<noteq> 0"
  have "tbl_inv tbl" using assms(1,3) by (simp add: xen_inv_def tbl_ok_def)
  from table_holds_store [OF this, of info' info m] assms(4,5)
  have "table_holds (tbl_store info' tbl) m + count_list (ri_frames info) m =
      table_holds tbl m + count_list (ri_frames info') m" by simp
  then have "int (table_holds (tbl_store info' tbl) m) + int (count_list (ri_frames info) m) =
      int (table_holds tbl m) + int (count_list (ri_frames info') m)" by (metis of_nat_add)
  then show "r m - (if IS_HOST i then 0 else int (table_holds (tbl_store info' tbl) m)) =
      page_refs x m - (if IS_HOST i then 0 else int (table_holds tbl m))"
    using assms(6) [unfolded balanced_def holds_def, rule_format, OF \<open>m \<noteq> 0\<close>] by (cases "IS_HOST i") simp_all
qed

lemma remove_mfns_refs:
  assumes "ri_wf info" "m \<noteq> 0"
  shows "snd (v4v_ring_remove_mfns info put r) m = r m - holds put info m"
proof -
  obtain info' r' where rm: "v4v_ring_remove_mfns info put r = (info', r')" by force
  note R = remove_mfns_ok [OF assms(1) rm]
  have "ri_nmfns info' = 0" using R by (simp add: pages_ok_def ri_wf_def split: option.splits)
  then have "holds put info' m = 0" by (simp add: holds_def ri_frames_def)
  moreover have "r' m - holds put info' m = r m - holds put info m"
    using R(1) assms(2) by (simp add: pages_ok_def balanced_def)
  ultimately show ?thesis using rm by simp
qed

lemma holds_remove_all [simp]: "holds put (v4v_pending_remove_all info) = holds put info"
  by (simp add: fun_eq_iff holds_def v4v_pending_remove_all_def ri_frames_def)

lemma ri_wf_remove_all [simp]: "ri_wf (v4v_pending_remove_all info) = ri_wf info"
  by (simp add: v4v_pending_remove_all_def ri_wf_pending)

lemma remove_info_refs:
  assumes inv: "xen_inv x" "refs_exact x" and t: "dom_table x i = Some tbl" "v4v_ring_find_info tbl (ri_id info) = Some info"
  shows "refs_exact (v4v_ring_remove_info i info (\<not> IS_HOST i) x)"
proof -
  have ok: "tbl_ok i tbl" using inv(1) t(1) by (simp add: xen_inv_def)
  then have "ri_wf (v4v_pending_remove_all info)" using tbl_okD(2) [OF ok t(2)] by simp
  note R = remove_mfns_refs [OF this, of _ "\<not> IS_HOST i" "page_refs x"]
  show ?thesis unfolding v4v_ring_remove_info_def
    by (rule refs_exact_upd [OF inv t(1)])
      (auto simp: R holds_def simp flip: table_holds_del [OF tbl_okD(1) [OF ok] t(2)])
qed

lemma refs_exact_step:
  assumes "v4v_step env x x'" "xen_inv x" "refs_exact x"
  shows "refs_exact x'"
  using assms(1)
proof cases
  case step_quiet
  then show ?thesis by (rule refs_exact_quiet [OF _ assms(3)])
next
  case (step_own_mem mem')
  then show ?thesis using assms(3) by simp
next
  case (step_ring dst tbl info info' mem')
  let ?y = "x\<lparr>xmem := mem'\<rparr>"
  have "balanced (\<not> IS_HOST dst) info (page_refs ?y) info' (page_refs ?y)" "ri_id info' = ri_id info"
    using step_ring by (auto simp: ring_touched_def balanced_frames)
  then have "refs_exact ((upd_table dst (tbl_store info') ?y)\<lparr>page_refs := page_refs ?y\<rparr>)"
    using refs_exact_ring [of ?y dst tbl info info' "page_refs ?y"] assms(2,3) step_ring by simp
  then show ?thesis using step_ring(1) by (simp add: refs_exact_def)
next
  case (step_own_table tbl tbl')
  have "table_holds tbl' m = table_holds tbl m" for m by (rule table_holds_same [OF step_own_table(3)])
  then show ?thesis using refs_exact_upd_same [OF assms(2,3) step_own_table(2), of "\<lambda>_. tbl'"] step_own_table(1) by simp
next
  case (step_own_ring tbl info info' r)
  then show ?thesis using refs_exact_ring [OF assms(2,3) step_own_ring(2,3,4)] by simp
next
  case (step_new i tbl rid)
  have "tbl_inv tbl" using assms(2) step_new by (simp add: xen_inv_def tbl_ok_def)
  then have "table_holds (tbl_add (new_info rid) tbl) m = table_holds tbl m" for m
    using table_holds_add [of tbl "new_info rid" m] by (simp add: new_info_def ri_frames_def)
  then show ?thesis using refs_exact_upd_same [OF assms(2,3) step_new(2), of "tbl_add (new_info rid)"] step_new(1) by simp
next
  case (step_del tbl info)
  then show ?thesis using remove_info_refs [OF assms(2,3) step_del(2,3)] by simp
next
  case step_oom
  then show ?thesis using assms(3) by simp
qed

lemma refs_exact_steps:
  assumes "v4v_steps env x x'" "xen_inv x" "refs_exact x"
  shows "refs_exact x'"
  using assms(1)
proof (induction rule: rtranclp_induct)
  case (step y z)
  show ?case by (rule refs_exact_step [OF step(2) xen_inv_steps [OF step(1) assms(2)] step(3)])
qed (rule assms(3))

end
