(* ===== verification/V4v_System.thy ===== *)
theory V4v_System
  imports V4v_Refs
begin

text \<open>
  V4V as a whole: the hypercalls of all domains, and the creation, suspension and destruction of
  their V4V state, in any order.  The ring tables stay well formed and the page references stay
  those of the rings that exist.
\<close>

section \<open>The life cycle of a domain's V4V state\<close>

lemma table_upd_dom:
  "dom_table (upd_dom i (\<lambda>dm. dm\<lparr>dom_v4v := t\<rparr>) x) j =
     (if j = i \<and> dom_find x i \<noteq> None then t else dom_table x j)"
  by (auto simp: dom_table_def dom_find_upd split: option.splits)

lemma upd_dom_ids: "(\<And>d. domain_id (f d) = domain_id d) \<Longrightarrow>
    map domain_id (domain_list (upd_dom i f x)) = map domain_id (domain_list x)"
  by (simp add: upd_dom_def)

lemma xen_inv_set_table:
  assumes "xen_inv x" "\<And>tbl. t = Some tbl \<Longrightarrow> tbl_ok i tbl"
  shows "xen_inv (upd_dom i (\<lambda>dm. dm\<lparr>dom_v4v := t\<rparr>) x)"
proof -
  have "map domain_id (domain_list (upd_dom i (\<lambda>dm. dm\<lparr>dom_v4v := t\<rparr>) x)) = map domain_id (domain_list x)"
    by (rule upd_dom_ids) simp
  then show ?thesis using assms unfolding xen_inv_def table_upd_dom by (auto split: if_splits)
qed

lemma refs_exact_set_table:
  assumes inv: "xen_inv x" "refs_exact x" and d: "dom_find x i = Some d"
    and r: "\<And>m. m \<noteq> 0 \<Longrightarrow> r m = page_refs x m - int (dom_holds m d) + int (dom_holds m (d\<lparr>dom_v4v := t\<rparr>))"
  shows "refs_exact ((upd_dom i (\<lambda>dm. dm\<lparr>dom_v4v := t\<rparr>) x)\<lparr>page_refs := r\<rparr>)"
proof -
  have "r m = int (\<Sum>e\<leftarrow>domain_list (upd_dom i (\<lambda>dm. dm\<lparr>dom_v4v := t\<rparr>) x). dom_holds m e)" if "m \<noteq> 0" for m
    using holds_upd_dom [OF inv(1) d, of m "\<lambda>dm. dm\<lparr>dom_v4v := t\<rparr>"] r [OF that] inv(2) that
    by (simp add: refs_exact_def)
  then show ?thesis by (simp add: refs_exact_def)
qed

lemma upd_dom_page_refs: "(upd_dom i f x)\<lparr>page_refs := page_refs x\<rparr> = upd_dom i f x"
  by (simp add: upd_dom_def)

lemma upd_dom_none: "dom_find x i = None \<Longrightarrow> upd_dom i f x = x"
proof -
  assume "dom_find x i = None"
  then have "map (\<lambda>d. if domain_id d = i then f d else d) (domain_list x) = domain_list x"
    by (intro map_idI) (auto simp: dom_find_def find_None_iff)
  then show ?thesis by (simp add: upd_dom_def)
qed

lemma tbl_ok_empty: "tbl_ok i tbl_empty"
  using tbl_inv_empty by (auto simp: tbl_ok_def tbl_empty_def)

lemma table_holds_empty: "table_holds tbl_empty m = 0"
  by (simp add: table_holds_def tbl_empty_def)

lemma init_inv:
  assumes "xen_inv x" "refs_exact x" "dom_table x i = None"
  shows "xen_inv (snd (v4v_init env i x)) \<and> refs_exact (snd (v4v_init env i x))"
proof (cases "dom_find x i")
  case None
  then show ?thesis using assms by (simp add: v4v_init_def upd_dom_none)
next
  case (Some d)
  then have "dom_v4v d = None" using assms(3) by (simp add: dom_table_def)
  then have "refs_exact ((upd_dom i (\<lambda>dm. dm\<lparr>dom_v4v := Some tbl_empty\<rparr>) x)\<lparr>page_refs := page_refs x\<rparr>)"
    by (intro refs_exact_set_table [OF assms(1,2) Some]) (simp add: dom_holds_def table_holds_empty)
  then have "refs_exact (upd_dom i (\<lambda>dm. dm\<lparr>dom_v4v := Some tbl_empty\<rparr>) x)" by (simp only: upd_dom_page_refs)
  moreover have "xen_inv (upd_dom i (\<lambda>dm. dm\<lparr>dom_v4v := Some tbl_empty\<rparr>) x)"
    using tbl_ok_empty by (intro xen_inv_set_table [OF assms(1)]) simp
  ultimately show ?thesis using assms(1,2) by (simp add: v4v_init_def)
qed

lemma release_all_refs:
  assumes "\<And>info. info \<in> set infos \<Longrightarrow> ri_wf info" "m \<noteq> 0"
  shows "release_all put infos r m = r m - (\<Sum>info\<leftarrow>infos. holds put info m)"
  using assms(1)
proof (induction infos arbitrary: r)
  case (Cons info infos)
  have "snd (v4v_ring_remove_mfns (v4v_pending_remove_all info) put r) m = r m - holds put info m"
    using remove_mfns_refs [of "v4v_pending_remove_all info" m put r] Cons.prems assms(2) by simp
  then show ?case using Cons.IH [of "snd (v4v_ring_remove_mfns (v4v_pending_remove_all info) put r)"] Cons.prems
    by (simp add: release_all_def)
qed (simp add: release_all_def)

lemma sum_holds: "(\<Sum>info\<leftarrow>concat tbl. holds put info m) = (if put then int (table_holds tbl m) else 0)"
proof -
  have "(\<Sum>info\<leftarrow>infos. int (count_list (ri_frames info) m)) = int (\<Sum>info\<leftarrow>infos. count_list (ri_frames info) m)" for infos
    by (induction infos) auto
  then show ?thesis by (simp add: holds_def table_holds_def)
qed

lemma tbl_ok_wf: "tbl_ok i tbl \<Longrightarrow> info \<in> set (concat tbl) \<Longrightarrow> ri_wf info"
  unfolding tbl_ok_def by blast

lemma destroy_inv:
  assumes "xen_inv x" "refs_exact x"
  shows "xen_inv (v4v_destroy i x) \<and> refs_exact (v4v_destroy i x)"
proof (cases "dom_find x i")
  case None
  then show ?thesis using assms by (simp add: v4v_destroy_def)
next
  case (Some d)
  let ?r = "case dom_v4v d of None \<Rightarrow> page_refs x
    | Some tbl \<Rightarrow> release_all (\<not> IS_HOST i) (concat tbl) (page_refs x)"
  have "?r m = page_refs x m - int (dom_holds m d) + int (dom_holds m (d\<lparr>dom_v4v := None\<rparr>))" if "m \<noteq> 0" for m
  proof (cases "dom_v4v d")
    case (Some tbl)
    then have "tbl_ok i tbl" using assms(1) \<open>dom_find x i = Some d\<close> by (simp add: xen_inv_def dom_table_def)
    from release_all_refs [of "concat tbl" m "\<not> IS_HOST i" "page_refs x", OF tbl_ok_wf [OF this] that]
    show ?thesis using Some dom_find_id [OF \<open>dom_find x i = Some d\<close>] by (simp add: sum_holds dom_holds_def)
  qed (simp add: dom_holds_def)
  from refs_exact_set_table [OF assms Some this]
  show ?thesis
    using assms Some xen_inv_set_table [OF assms(1), of None i] by (simp add: v4v_destroy_def Let_def)
qed

section \<open>Suspending\<close>

lemma reset_sound:
  assumes "ri_wf info" "v4v_ring_reset info put r = (info', r')"
  shows "ring_sound info info'" "ri_frames info' = []" "m \<noteq> 0 \<Longrightarrow> r' m = r m - holds put info m"
proof -
  obtain info1 r1 where rm: "v4v_ring_remove_mfns info put r = (info1, r1)" by force
  note R = remove_mfns_ok [OF assms(1) rm]
  have e: "info' = info1\<lparr>ri_len := 0, ri_tx_ptr := 0, ri_ring := 0, ri_nmfns := 0\<rparr>" "r' = r1"
    using assms(2) rm by (simp_all add: v4v_ring_reset_def)
  have "ri_npage info1 = 0" "ri_mfn_mapping info1 = None"
    using R by (simp_all add: pages_ok_def ri_wf_def split: option.splits)
  then show "ring_sound info info'"
    using R by (simp add: ring_sound_def e pages_ok_def same_ring_def ri_wf_def)
  show "ri_frames info' = []" by (simp add: e ri_frames_def)
  show "r' m = r m - holds put info m" if "m \<noteq> 0"
    using remove_mfns_refs [OF assms(1) that, of put r] rm e by simp
qed

lemma map_acc_refs:
  assumes "map_acc f xs r = (ys, r')" "\<And>a r b r'. a \<in> set xs \<Longrightarrow> f a r = (b, r') \<Longrightarrow> r' m = r m - (g a :: int)"
  shows "r' m = r m - (\<Sum>a\<leftarrow>xs. g a)"
  using assms
proof (induction xs arbitrary: r ys)
  case (Cons a xs)
  obtain b r1 where f: "f a r = (b, r1)" by force
  obtain bs where "map_acc f xs r1 = (bs, r')" using Cons.prems(1) f by (auto split: prod.splits)
  then have "r' m = r1 m - (\<Sum>a\<leftarrow>xs. g a)" using Cons.IH Cons.prems(2) by auto
  then show ?case using Cons.prems(2) [OF _ f] by simp
qed simp

lemma suspend_table:
  assumes ok: "tbl_ok i tbl" and m: "map_acc (map_acc (\<lambda>info. v4v_ring_reset info put)) tbl r = (tbl', r')"
  shows "tbl_ok i tbl'" "table_holds tbl' k = 0"
    "k \<noteq> 0 \<Longrightarrow> r' k = r k - (if put then int (table_holds tbl k) else 0)"
proof -
  have w: "ri_wf info" if "b \<in> set tbl" "info \<in> set b" for b info using tbl_ok_wf [OF ok] that by auto
  have "list_all2 (list_all2 (\<lambda>a b. ring_sound a b \<and> ri_frames b = [])) tbl tbl'"
    by (rule map_acc_rel [OF m], erule map_acc_rel) (use w reset_sound(1,2) in blast)
  note T = this
  show "tbl_ok i tbl'"
    by (rule tbl_ok_sound [OF ok], rule list_all2_mono [OF T], erule list_all2_mono) simp
  have "list_all (\<lambda>b. ri_frames b = []) (concat tbl')"
    using list_all2_concat [OF T] by (induction rule: list_all2_induct) auto
  then show "table_holds tbl' k = 0" unfolding table_holds_def by (simp add: list_all_iff)
  assume k: "k \<noteq> 0"
  have "r' k = r k - (\<Sum>b\<leftarrow>tbl. \<Sum>info\<leftarrow>b. holds put info k)"
    by (rule map_acc_refs [OF m], erule map_acc_refs) (use w k reset_sound(3) in blast)
  also have "(\<Sum>b\<leftarrow>tbl. \<Sum>info\<leftarrow>b. holds put info k) = (\<Sum>info\<leftarrow>concat tbl. holds put info k)"
    by (induction tbl) auto
  finally show "r' k = r k - (if put then int (table_holds tbl k) else 0)" by (simp add: sum_holds)
qed

lemma suspend_inv:
  assumes "xen_inv x" "refs_exact x"
  shows "xen_inv (v4v_shutdown_for_suspend c i x) \<and> refs_exact (v4v_shutdown_for_suspend c i x)"
proof (cases "v4v_shutdown_for_suspend c i x = x \<or> v4v_shutdown_for_suspend c i x = x\<lparr>xen_bug := True\<rparr>")
  case True
  then show ?thesis using assms by auto
next
  case False
  then obtain d tbl where d: "dom_find x i = Some d" "dom_v4v d = Some tbl"
    by (auto simp: v4v_shutdown_for_suspend_def split: option.splits if_splits)
  then have t: "dom_table x i = Some tbl" by (simp add: dom_table_def)
  then have ok: "tbl_ok i tbl" using assms(1) by (simp add: xen_inv_def)
  obtain tbl' r where m: "map_acc (map_acc (\<lambda>info. v4v_ring_reset info (\<not> IS_HOST i))) tbl (page_refs x) = (tbl', r)"
    by force
  note S = suspend_table [OF ok m]
  have "v4v_shutdown_for_suspend c i x = (upd_table i (\<lambda>_. tbl') x)\<lparr>page_refs := r\<rparr>"
    using False d m by (auto simp: v4v_shutdown_for_suspend_def split: if_splits)
  moreover have "refs_exact ((upd_table i (\<lambda>_. tbl') x)\<lparr>page_refs := r\<rparr>)"
    using S(2,3) by (intro refs_exact_upd [OF assms t]) auto
  moreover have "xen_inv (upd_table i (\<lambda>_. tbl') x)" by (rule xen_inv_table [OF assms(1) t S(1)])
  ultimately show ?thesis by simp
qed

lemma resume_inv:
  assumes "xen_inv x" "refs_exact x"
  shows "xen_inv (v4v_resume env i x) \<and> refs_exact (v4v_resume env i x)"
proof -
  have "quiet env x (v4v_resume env i x)"
    using signal_domain_quiet [of x i env] by (auto simp: v4v_resume_def split: option.split)
  then show ?thesis using assms xen_inv_quiet [of x env] refs_exact_quiet by blast
qed

section \<open>Runs\<close>

text \<open>
  The states V4V can be in.  Besides the operations of \<open>xen/common/v4v.c\<close> there are the rest of the
  hypervisor and the guests themselves: they create domains, free domains that have no V4V state
  left, and change memory, flags, interrupt lines and counters at will (\<open>sys_rest\<close>).
\<close>

definition same_v4v :: "xdomain \<Rightarrow> xdomain \<Rightarrow> bool" where
  "same_v4v d d' \<longleftrightarrow> domain_id d' = domain_id d \<and> dom_v4v d' = dom_v4v d"

inductive v4v_system :: "xen \<Rightarrow> bool" where
  sys_boot: "v4v_system \<lparr>domain_list = [], xmem = mem, page_refs = (\<lambda>_. 0), host_signals = 0, xen_bug = False\<rparr>"
| sys_create: "v4v_system x \<Longrightarrow> dom_find x (domain_id d) = None \<Longrightarrow> dom_v4v d = None \<Longrightarrow>
    v4v_system (x\<lparr>domain_list := d # domain_list x\<rparr>)"
| sys_init: "v4v_system x \<Longrightarrow> dom_table x i = None \<Longrightarrow> v4v_system (snd (v4v_init env i x))"
| sys_op: "v4v_system x \<Longrightarrow> v4v_system (snd (do_v4v_op env cmd a1 a2 a3 a4 a5 x))"
| sys_suspend: "v4v_system x \<Longrightarrow> v4v_system (v4v_shutdown_for_suspend crashed i x)"
| sys_resume: "v4v_system x \<Longrightarrow> v4v_system (v4v_resume env i x)"
| sys_destroy: "v4v_system x \<Longrightarrow> v4v_system (v4v_destroy i x)"
| sys_free: "v4v_system x \<Longrightarrow> dom_table x i = None \<Longrightarrow>
    v4v_system (x\<lparr>domain_list := filter (\<lambda>d. domain_id d \<noteq> i) (domain_list x)\<rparr>)"
| sys_rest: "v4v_system x \<Longrightarrow> list_all2 same_v4v (domain_list x) (domain_list y) \<Longrightarrow> page_refs y = page_refs x \<Longrightarrow>
    v4v_system y"

lemma rest_inv:
  assumes "xen_inv x" "refs_exact x" "list_all2 same_v4v (domain_list x) (domain_list y)" "page_refs y = page_refs x"
  shows "xen_inv y" "refs_exact y"
proof -
  have "map domain_id (domain_list y) = map domain_id (domain_list x)"
    using assms(3) by (induction rule: list_all2_induct) (auto simp: same_v4v_def)
  moreover have "dom_table y i = dom_table x i" for i
  proof -
    have "rel_option same_v4v (find (\<lambda>d. domain_id d = i) (domain_list x)) (find (\<lambda>d. domain_id d = i) (domain_list y))"
      using assms(3) by (induction rule: list_all2_induct) (auto simp: same_v4v_def)
    then show ?thesis by (auto simp: dom_table_def dom_find_def same_v4v_def split: option.splits)
  qed
  ultimately show "xen_inv y" using assms(1) by (simp add: xen_inv_def)
  have "map (dom_holds m) (domain_list y) = map (dom_holds m) (domain_list x)" for m
    using assms(3) by (induction rule: list_all2_induct) (auto simp: same_v4v_def dom_holds_def)
  then show "refs_exact y" using assms(2,4) by (simp add: refs_exact_def)
qed

lemma create_inv:
  assumes "xen_inv x" "refs_exact x" "dom_find x (domain_id d) = None" "dom_v4v d = None"
  shows "xen_inv (x\<lparr>domain_list := d # domain_list x\<rparr>)" "refs_exact (x\<lparr>domain_list := d # domain_list x\<rparr>)"
proof -
  have "domain_id d \<notin> domain_id ` set (domain_list x)"
    using assms(3) by (auto simp: dom_find_def find_None_iff)
  then show "xen_inv (x\<lparr>domain_list := d # domain_list x\<rparr>)"
    using assms(1,4) by (auto simp: xen_inv_def dom_table_def dom_find_def split: if_splits option.splits)
  show "refs_exact (x\<lparr>domain_list := d # domain_list x\<rparr>)"
    using assms(2,4) by (simp add: refs_exact_def dom_holds_def)
qed

lemma find_filter: "(\<And>a. P a \<Longrightarrow> Q a) \<Longrightarrow> find P (filter Q xs) = find P xs"
  by (induction xs) auto

lemma free_inv:
  fixes x i
  defines "y \<equiv> x\<lparr>domain_list := filter (\<lambda>d. domain_id d \<noteq> i) (domain_list x)\<rparr>"
  assumes inv: "xen_inv x" "refs_exact x" and t: "dom_table x i = None"
  shows "xen_inv y" "refs_exact y"
proof -
  have "dom_find y j = (if j = i then None else dom_find x j)" for j
    by (auto simp: y_def dom_find_def find_filter find_None_iff)
  then have "dom_table y j = dom_table x j" for j using t by (simp add: dom_table_def)
  moreover have "distinct (map domain_id (domain_list y))"
    using inv(1) by (simp add: y_def xen_inv_def distinct_map_filter)
  ultimately show "xen_inv y" using inv(1) by (simp add: xen_inv_def)
  have d: "distinct (map domain_id (domain_list x))" using inv(1) by (simp add: xen_inv_def)
  have "dom_v4v d = None" if "d \<in> set (domain_list x)" "domain_id d = i" for d
    using t find_key_distinct [OF d that(1)] that by (simp add: dom_table_def dom_find_def)
  then have "dom_holds m d = 0" if "d \<in> set (domain_list x)" "domain_id d = i" for d m
    using that by (simp add: dom_holds_def)
  then have "(\<Sum>d\<leftarrow>domain_list y. dom_holds m d) = (\<Sum>d\<leftarrow>domain_list x. dom_holds m d)" for m
    unfolding y_def by (simp, intro sum_list_map_filter) auto
  then show "refs_exact y" using inv(2) by (simp add: refs_exact_def y_def)
qed

lemma v4v_system_inv: "v4v_system x \<Longrightarrow> xen_inv x \<and> refs_exact x"
proof (induction rule: v4v_system.induct)
  case (sys_boot mem)
  then show ?case by (simp add: xen_inv_def refs_exact_def dom_table_def dom_find_def)
next
  case (sys_op x env cmd a1 a2 a3 a4 a5)
  then have "v4v_steps env x (snd (do_v4v_op env cmd a1 a2 a3 a4 a5 x))" using v4v_op_steps by blast
  then show ?case using sys_op xen_inv_steps refs_exact_steps by blast
next
  case (sys_rest x y)
  then show ?case using rest_inv [of x y] by blast
next
  case (sys_create x d)
  then show ?case using create_inv [of x d] by blast
next
  case (sys_free x i)
  then show ?case using free_inv [of x i] by blast
qed (use init_inv suspend_inv resume_inv destroy_inv in blast)+

section \<open>A sample system\<close>

text \<open>The host offers the sample ring to domain 1, which is about to send.\<close>

definition host_info :: v4v_ring_info where
  "host_info = sample_info\<lparr>ri_id := \<lparr>id_addr = \<lparr>a_port = 7, a_domain = 0\<rparr>, id_partner = 1\<rparr>\<rparr>"

definition sample_domain :: "domid \<Rightarrow> v4v_table \<Rightarrow> xdomain" where
  "sample_domain i tbl = \<lparr>domain_id = i, dom_v4v = Some tbl, is_dying = False, destroyed = False, v4v_token = [],
     dom_irq = blank_irq\<rparr>"

definition sample_xen :: xen where
  "sample_xen = \<lparr>domain_list = [sample_domain 1 tbl_empty, sample_domain 0 (tbl_add host_info tbl_empty)],
     xmem = sample_mem(11 := (\<lambda>i. if i = 0 then 9 else if i = 16 then 7 else if i = 20 then 0xf1 else if i = 21 then 0x7f else 0)),
     page_refs = (\<lambda>_. 0), host_signals = 0, xen_bug = False\<rparr>"

definition sample_hyp :: hyp_env where
  "sample_hyp = \<lparr>henv = sample_env, current_id = 1, is_sys_privileged = False, is_priv_for = (\<lambda>_. False),
     ui_running = True, ui_signal_v4v = True, mfn_valid = (\<lambda>_. True), get_page_ok = (\<lambda>_. True),
     xmalloc_ok = (\<lambda>_. True)\<rparr>"

lemma host_info_wf: "ri_wf host_info" "pending_ok (ri_pending host_info)"
  using sample_inv by (simp_all add: host_info_def ri_inv_def ri_wf_def pending_ok_def sample_info_def)

lemma sample_table: "tbl_ok 0 (tbl_add host_info tbl_empty)"
  using tbl_ok_event [OF tbl_ok_empty, of "Tbl_add host_info" 0] host_info_wf tbl_lookup_empty
  by (simp add: host_info_def)

lemma sample_xen_tables:
  "dom_table sample_xen i = (if i = 1 then Some tbl_empty else if i = 0 then Some (tbl_add host_info tbl_empty) else None)"
  by (simp add: sample_xen_def dom_table_def dom_find_def sample_domain_def)

lemma sample_xen_inv: "xen_inv sample_xen"
proof -
  have "distinct (map domain_id (domain_list sample_xen))" by (simp add: sample_xen_def sample_domain_def)
  then show ?thesis using tbl_ok_empty sample_table by (simp add: xen_inv_def sample_xen_tables)
qed

section \<open>The properties\<close>

text \<open>
  C10.  Every V4V hypercall, whatever its arguments, the caller's memory and the outcome of
  allocations, is a sequence of steps the policy allows: it signals domains, writes memory its
  caller may write, sends into or asks about a ring that accepts the caller (where one of the two
  is the host), polls, registers and removes the caller's own rings, or, for the host alone,
  leaves a placeholder in another domain.
\<close>

theorem v4v_op_follows_policy:
  assumes "xen_inv x"
  shows "v4v_steps env x (snd (do_v4v_op env cmd a1 a2 a3 a4 a5 x))"
  using assms by (rule v4v_op_steps)

theorem v4v_op_follows_policy_witness:
  "v4v_steps sample_hyp sample_xen (snd (do_v4v_op sample_hyp V4VOP_send 4096 4112 0 3 6 sample_xen))"
  by (rule v4v_op_follows_policy [OF sample_xen_inv])

text \<open>
  C11.  A guest is confined.  A V4V hypercall of a guest leaves every other guest's rings, pending
  notifications, flags and token as they are (interrupt line 7 may be pulsed); it leaves the flags
  and the token of every domain; of the host's rings it leaves those that do not accept the guest,
  and of those that do it leaves the identity, the length, the address, the frames and the requests
  of other domains; it changes no memory but frames the guest may write and frames of host rings
  that accept it; and as long as the host service runs it cannot reach a \<open>BUG\<close>.
\<close>

theorem guest_isolation:
  assumes "xen_inv x" "\<not> IS_HOST (current_id env)" "do_v4v_op env cmd a1 a2 a3 a4 a5 x = (rc, x')"
  shows "(\<forall>i. i \<noteq> current_id env \<and> i \<noteq> 0 \<longrightarrow> rel_option dom_quiet (dom_find x i) (dom_find x' i)) \<and>
    (\<forall>i. map_option dom_flags (dom_find x' i) = map_option dom_flags (dom_find x i)) \<and>
    rel_option (\<lambda>t t'. \<forall>rid. host_ring (current_id env) rid (v4v_ring_find_info t rid) (v4v_ring_find_info t' rid))
      (dom_table x 0) (dom_table x' 0) \<and>
    confined (writable (cur (henv env)) \<union> open_frames (current_id env) x) (xmem x) (xmem x') \<and>
    (ui_running env \<longrightarrow> xen_bug x' = xen_bug x)"
proof -
  have "v4v_steps env x x'" using v4v_op_steps [OF assms(1), of env cmd a1 a2 a3 a4 a5] assms(3) by simp
  from guest_reach_steps [OF this assms(1,2), unfolded guest_reach_def] show ?thesis .
qed

theorem guest_isolation_witness:
  "confined (writable (cur (henv sample_hyp)) \<union> open_frames (current_id sample_hyp) sample_xen) (xmem sample_xen)
    (xmem (snd (do_v4v_op sample_hyp V4VOP_send 4096 4112 0 3 6 sample_xen)))"
  using guest_isolation [OF sample_xen_inv, of sample_hyp V4VOP_send 4096 4112 0 3 6] 
  by (cases "do_v4v_op sample_hyp V4VOP_send 4096 4112 0 3 6 sample_xen") (simp add: sample_hyp_def)

text \<open>
  C12.  In every state V4V can be in, every ring table is well formed (each ring in the chain of its
  hash, no identifier twice, rings owned by their domain, guests' rings open only to the host or to
  anyone, at most one pending entry per domain and ring), and the page references held by V4V are
  exactly those of the frames of the guests' rings that exist: none leaks and none is dropped
  twice.  In particular none is left when no guest has V4V state.
\<close>

theorem v4v_refs_exact:
  assumes "v4v_system x"
  shows "xen_inv x \<and> (\<forall>m. m \<noteq> 0 \<longrightarrow> page_refs x m = int (\<Sum>d\<leftarrow>domain_list x. dom_holds m d)) \<and>
    ((\<forall>i. i \<noteq> 0 \<longrightarrow> dom_table x i = None) \<longrightarrow> (\<forall>m. m \<noteq> 0 \<longrightarrow> page_refs x m = 0))"
proof -
  have I: "xen_inv x" "\<forall>m. m \<noteq> 0 \<longrightarrow> page_refs x m = int (\<Sum>d\<leftarrow>domain_list x. dom_holds m d)"
    using v4v_system_inv [OF assms] by (simp_all add: refs_exact_def)
  have "dom_holds m d = 0" if "\<forall>i. i \<noteq> 0 \<longrightarrow> dom_table x i = None" "d \<in> set (domain_list x)" for m d
  proof (cases "domain_id d = 0")
    case False
    have "dom_find x (domain_id d) = Some d"
      using find_key_distinct [of domain_id "domain_list x" d] I(1) that(2) by (simp add: xen_inv_def dom_find_def)
    then show ?thesis using that(1) [rule_format, OF False] by (simp add: dom_table_def dom_holds_def)
  qed (simp add: dom_holds_def)
  then have "(\<Sum>d\<leftarrow>domain_list x. dom_holds m d) = 0" if "\<forall>i. i \<noteq> 0 \<longrightarrow> dom_table x i = None" for m
    using that by simp
  then show ?thesis using I by simp
qed

definition booted :: xen where
  "booted = snd (v4v_init sample_hyp 1 \<lparr>domain_list = [(sample_domain 1 tbl_empty)\<lparr>dom_v4v := None\<rparr>],
     xmem = sample_mem, page_refs = (\<lambda>_. 0), host_signals = 0, xen_bug = False\<rparr>)"

lemma booted_system: "v4v_system booted"
  using sys_init [OF sys_create [OF sys_boot [of sample_mem], of "(sample_domain 1 tbl_empty)\<lparr>dom_v4v := None\<rparr>"], of 1 sample_hyp]
  by (simp add: booted_def dom_find_def dom_table_def sample_domain_def)

theorem v4v_refs_exact_witness:
  "xen_inv (v4v_destroy 1 (snd (do_v4v_op sample_hyp V4VOP_register_ring 0 4096 0 0 0 booted))) \<and>
    page_refs (v4v_destroy 1 (snd (do_v4v_op sample_hyp V4VOP_register_ring 0 4096 0 0 0 booted))) 14 =
      int (\<Sum>d\<leftarrow>domain_list (v4v_destroy 1 (snd (do_v4v_op sample_hyp V4VOP_register_ring 0 4096 0 0 0 booted))). dom_holds 14 d)"
proof -
  note R = v4v_refs_exact [OF sys_destroy [OF sys_op [OF booted_system]], of 1 sample_hyp V4VOP_register_ring 0 4096 0 0 0]
  have "(14::nat) \<noteq> 0" by simp
  with R show ?thesis by blast
qed

end
