(* ===== verification/V4v_Delivery.thy ===== *)
theory V4v_Delivery
  imports V4v_Fifo V4v_System
begin

text \<open>
  The service V4V gives its users, end to end: a send hypercall of a guest appends its message,
  marked with the guest's identity, to the queue the host reads with \<open>v4v_copy_out\<close>, or leaves the
  queue alone; a refused sender is remembered, and it is signalled when there is room.
\<close>

section \<open>Sending into a ring\<close>

lemma pend_same_id: "pend_same info info' \<Longrightarrow> ri_id info' = ri_id info"
  unfolding pend_same_def by (metis v4v_ring_info.select_convs(1) v4v_ring_info.surjective v4v_ring_info.update_convs(9))

lemma ring_repr_pending:
  assumes "pend_same info info'" "ring_repr (info, mem) q"
  shows "ring_repr (info', mem) q"
proof -
  have "info' = info\<lparr>ri_pending := ri_pending info'\<rparr>" using assms(1) by (simp add: pend_same_def)
  then obtain es where e: "info' = info\<lparr>ri_pending := es\<rparr>" by blast
  have "ri_inv (info\<lparr>ri_pending := es\<rparr>) = ri_inv info" by (simp add: ri_inv_def ri_wf_pending)
  then show ?thesis using assms(2) by (simp add: e ring_repr_def ri_frames_def ring_fits_def)
qed

text \<open>What becomes of a message for a ring that holds the queue \<open>q\<close>.\<close>

definition send_outcome ::
  "domid \<Rightarrow> v4v_ring_info \<Rightarrow> v4v_message list \<Rightarrow> v4v_message \<Rightarrow> errno + int \<Rightarrow> v4v_ring_info \<Rightarrow> mem \<Rightarrow> bool" where
  "send_outcome s info q m rc info' mem' \<longleftrightarrow>
     (let size = 16 + round16 (length (m_data m))
      in if ri_len info \<le> size then rc = Inl EMSGSIZE \<and> ring_repr (info', mem') q
         else if ri_len info - total q \<le> size then
           ring_repr (info', mem') q \<and>
           (rc = Inl EAGAIN \<and> (\<exists>k. wanted (ri_pending info') s = Some k \<and> length (m_data m) \<le> k) \<or> rc = Inl ENOMEM)
         else rc = Inr (int (length (m_data m))) \<and> ring_repr (info', mem') (q @ [m]))"

lemma insert_outcome:
  assumes r: "ring_repr (info, mem) q" and ok: "ring_allowed a (info, mem)" "ring_offers a (info, mem) m"
    and n: "sa_niov a \<noteq> 0 \<longrightarrow> length (m_data m) \<le> V4V_RING_MAX_SIZE"
    and i: "v4v_ringbuf_insert (sa_env a) mem info (sa_src a) (sa_proto a) (sa_buf a) (sa_len a) (sa_iovs a) (sa_niov a) =
      (ret, k, info', mem')"
  shows "k = int (length (m_data m)) \<and> ring_repr (info', mem') (if ret = None then q @ [m] else q) \<and>
    ret = (let size = 16 + round16 (length (m_data m))
           in if ri_len info \<le> size then Some EMSGSIZE
              else if ri_len info - total q \<le> size then Some EAGAIN else None)"
proof -
  have pages: "\<forall>f\<in>set (ri_frames info). map_page_ok (sa_env a) f" using ok(1) by (simp add: ring_allowed_def)
  have o: "length (m_data m) < 2 ^ 31 - 16"
    "payload (sa_env a) mem (ri_frames info) (sa_buf a) (sa_len a) (sa_iovs a) (sa_niov a) (m_data m)"
    using ok(2) by (simp_all add: ring_offers_def)
  have "0 < ri_len info" by (rule ring_reprD(4) [OF r])
  note R = insert_result [OF ring_repr_ready [OF r pages] this o, of "sa_src a" "sa_proto a", unfolded i]
  have "ring_send a (info, mem) = (ret = None, info', mem')" by (simp add: ring_send_def i)
  then have "ring_repr (info', mem') (if ret = None then q @ [m] else q)"
    using ring_send_queues [OF r ok] ring_send_refused [OF r ok(1)] by (cases ret) auto
  then show ?thesis
    using R n by (auto simp: seen_free_repr [OF r pages] Let_def split: if_splits)
qed

lemma signal_host_signals:
  assumes "dom_table x i = Some tbl" "ui_running env" "ui_signal_v4v env" "i = 0"
  shows "host_signals (v4v_signal_domain env i x) = host_signals x + 1"
  using assms by (auto simp: v4v_signal_domain_def dom_table_def deliver_via_upcall_def split: option.splits)

lemma host_signals_upd_table [simp]: "host_signals (upd_table i f x) = host_signals x"
  by (simp add: upd_table_def upd_dom_def)

lemma send_to_ring_outcome:
  fixes src_id proto buf len iovs niov env
  defines "a \<equiv> \<lparr>sa_env = henv env, sa_src = src_id, sa_proto = proto, sa_buf = buf, sa_len = len, sa_iovs = iovs, sa_niov = niov\<rparr>"
  assumes inv: "xen_inv x" and t: "dom_table x dst = Some tbl" "v4v_ring_find_info tbl (ri_id info) = Some info"
    and r: "ring_repr (info, xmem x) q" and ok: "ring_allowed a (info, xmem x)" "ring_offers a (info, xmem x) m"
    and n: "niov \<noteq> 0 \<longrightarrow> length (m_data m) \<le> V4V_RING_MAX_SIZE"
    and s: "send_to_ring env dst info src_id proto buf len iovs niov x = (rc, x')"
  shows "\<exists>tbl' info'. dom_table x' dst = Some tbl' \<and> v4v_ring_find_info tbl' (ri_id info) = Some info' \<and>
    send_outcome (a_domain (id_addr src_id)) info q m rc info' (xmem x') \<and>
    ((\<exists>k. rc = Inr k) \<and> ui_running env \<and> ui_signal_v4v env \<and> dst = 0 \<longrightarrow> host_signals x' = host_signals x + 1)"
proof -
  obtain ret k info1 mem1 where i: "v4v_ringbuf_insert (henv env) (xmem x) info src_id proto buf len iovs niov =
      (ret, k, info1, mem1)" by (metis prod_cases4)
  have "k = int (length (m_data m)) \<and> ring_repr (info1, mem1) (if ret = None then q @ [m] else q) \<and>
    ret = (let size = 16 + round16 (length (m_data m)) in if ri_len info \<le> size then Some EMSGSIZE
       else if ri_len info - total q \<le> size then Some EAGAIN else None)"
    by (rule insert_outcome [OF r ok]) (use n i in \<open>simp_all add: a_def\<close>)
  note I = this [THEN conjunct1] this [THEN conjunct2, THEN conjunct1] this [THEN conjunct2, THEN conjunct2]
  have tok: "tbl_ok dst tbl" using inv t(1) by (simp add: xen_inv_def)
  have k1: "ri_id info1 = ri_id info"
    using ringbuf_insert_kept(1) [OF _ i] tbl_okD(2) [OF tok t(2)] by (auto simp: ri_kept_def)
  obtain e info2 where rq: "v4v_pending_requeue (xmalloc_ok env (A_pending (ri_id info))) info1
      (a_domain (id_addr src_id)) k = (e, info2)" by force
  note Q = requeue_cases [OF rq]
  have l: "length (m_data m) < 2 ^ 32" using ok(2) by (simp add: ring_offers_def)
  define info' where "info' = (if ret = Some EAGAIN then info2 else info1)"
  let ?x1 = "upd_table dst (tbl_store info') (x\<lparr>xmem := mem1\<rparr>)"
  have k2: "ri_id info' = ri_id info" using k1 pend_same_id [OF Q(1)] by (simp add: info'_def)
  have x': "x' = (if ret = None then v4v_signal_domain env dst ?x1 else ?x1)"
    "rc = (if ret = None then Inr k else if ret = Some EAGAIN \<and> e \<noteq> None then Inl ENOMEM else Inl (the ret))"
    using s i rq by (auto simp: send_to_ring_def info'_def Let_def split: if_splits option.splits)
  have t1: "dom_table ?x1 dst = Some (tbl_store info' tbl)" using t(1) by (simp add: dom_table_upd_table)
  have q: "quiet env ?x1 x'"
    using x'(1) signal_domain_quiet [OF table_find [OF t1], of env] by simp
  have "v4v_ring_find_info (tbl_store info' tbl) (ri_id info) = Some info'"
    using ht.lookup_store [OF tbl_okD(1) [OF tok], of info'] t(2) k2 by simp
  moreover have "dom_table x' dst = Some (tbl_store info' tbl)"
    using quiet_table [OF q, of dst] t1 by simp
  moreover have "ring_repr (info', mem1) (if ret = None then q @ [m] else q)"
    using I(2) ring_repr_pending [OF Q(1), of mem1 q] by (cases ret) (simp_all add: info'_def)
  then have "send_outcome (a_domain (id_addr src_id)) info q m rc info' (xmem x')"
    using I(1,3) Q(3) x'(2) l q
    by (auto simp: send_outcome_def Let_def info'_def quiet_def u32_of_int_nonneg split: if_splits)
  moreover have "host_signals x' = host_signals x + 1"
    if "rc = Inr y" "ui_running env" "ui_signal_v4v env" "dst = 0" for y
    using that x' signal_host_signals [OF t1, of env] by (auto split: if_splits)
  ultimately show ?thesis by blast
qed

section \<open>The send hypercall\<close>

lemma validate_dm:
  assumes "\<not> IS_HOST (current_id env)" "current_id env < V4V_DOMID_SELF"
  shows "v4v_validate_channel env x (current_id env) V4V_DOMID_DM pre = Inr (current_id env, 0)"
proof -
  have "current_id env \<noteq> V4V_DOMID_ANY" "\<not> V4V_DOMID_SELF \<le> current_id env" "\<not> V4V_DOMID_SELF \<le> 0"
    using assms(2) by (auto simp: domid_consts)
  then show ?thesis using assms by (simp add: v4v_validate_channel_def Let_def v4v_dm_domid_def)
qed

text \<open>
  C13.  A guest's \<open>V4VOP_send\<close> to the host, seen from both ends.  If the host's ring for it holds the
  messages \<open>q\<close>, then afterwards it holds \<open>q\<close> followed by the message the guest sent (with the
  guest's own domain as source, whatever the guest wrote there), the call returns its length, and
  the host is signalled; or the message can never fit (\<open>EMSGSIZE\<close>), or it does not fit now and the
  guest is put down for a notification (\<open>EAGAIN\<close>, or \<open>ENOMEM\<close> when that fails), and the queue is
  still \<open>q\<close>.  Which of them happens depends only on the lengths.
\<close>

theorem guest_send_delivers:
  assumes "xen_inv x" "\<not> IS_HOST (current_id env)" "current_id env < V4V_DOMID_SELF" "dom_table x (current_id env) \<noteq> None"
    and addrs: "send_addrs env a1 a2 x = Inr (src, dst)" "a_domain dst = V4V_DOMID_DM"
    and host: "get_domain_by_id x 0 = Some d0" "dom_v4v d0 = Some tbl"
    and ring: "v4v_ring_find_info_by_addr 0 tbl dst (current_id env) = Some info" "ring_repr (info, xmem x) q"
      "\<forall>f\<in>set (ri_frames info). map_page_ok (henv env) f"
    and data: "payload (henv env) (xmem x) (ri_frames info) a3 (s32 (int a4)) 0 0 bs" "length bs < 2 ^ 31 - 16"
    and op: "do_v4v_op env V4VOP_send a1 a2 a3 a4 a5 x = (rc, x')"
  shows "\<exists>tbl' info'. dom_table x' 0 = Some tbl' \<and> v4v_ring_find_info tbl' (ri_id info) = Some info' \<and>
    send_outcome (current_id env) info q
      \<lparr>m_source = \<lparr>a_port = a_port src, a_domain = current_id env\<rparr>, m_protocol = of_nat a5, m_data = bs\<rparr>
      rc info' (xmem x') \<and>
    ((\<exists>k. rc = Inr k) \<and> ui_running env \<and> ui_signal_v4v env \<longrightarrow> host_signals x' = host_signals x + 1)"
proof -
  let ?c = "current_id env"
  let ?src = "\<lparr>id_addr = \<lparr>a_port = a_port src, a_domain = ?c\<rparr>, id_partner = 0\<rparr>"
  let ?m = "\<lparr>m_source = \<lparr>a_port = a_port src, a_domain = ?c\<rparr>, m_protocol = of_nat a5, m_data = bs\<rparr>"
  let ?a = "\<lparr>sa_env = henv env, sa_src = ?src, sa_proto = of_nat a5, sa_buf = a3, sa_len = s32 (int a4), sa_iovs = 0, sa_niov = 0\<rparr>"
  have t: "dom_table x 0 = Some tbl" by (rule domain_table [OF host])
  have "tbl_ok 0 tbl" using assms(1) t by (simp add: xen_inv_def)
  note F = find_by_addr [OF tbl_okD(1) [OF this] ring(1)]
  have "send_to_ring env 0 info ?src (of_nat a5) a3 (s32 (int a4)) 0 0 x = (rc, x')"
    using op assms(2-4) addrs host ring(1) send_addrs_own [OF addrs(1)] validate_dm [OF assms(2,3), of x True]
    by (auto simp: do_v4v_op_def v4v_ops v4v_send_def Let_def)
  moreover have "ring_allowed ?a (info, xmem x)" using ring(3) s32_range [of "int a4"] by (simp add: ring_allowed_def)
  moreover have "ring_offers ?a (info, xmem x) ?m" using data by (simp add: ring_offers_def)
  ultimately show ?thesis
    using send_to_ring_outcome [OF assms(1) t F(1) ring(2), of env ?src "of_nat a5" a3 "s32 (int a4)" 0 0 ?m rc x'] by simp
qed

text \<open>Domain 1 sends three bytes to port 7 of the host.\<close>

lemma sample_copy_in:
  assumes "a < 2 ^ 64" "guest_bytes (cur sample_env) (xmem sample_xen) a n = map Some bs"
  shows "copy_in sample_hyp sample_xen a n = Inr bs"
  using assms copy_from_guest_errno_okay [of "cur sample_env" a "xmem sample_xen" n bs]
  by (simp add: copy_in_def sample_hyp_def guest_ready_def must_retry_def sample_env_def)

lemma sample_xen_addrs:
  "send_addrs sample_hyp 4096 4112 sample_xen = Inr (\<lparr>a_port = 9, a_domain = 1\<rparr>, \<lparr>a_port = 7, a_domain = V4V_DOMID_DM\<rparr>)"
proof -
  have "copy_in sample_hyp sample_xen 4096 6 = Inr [9, 0, 0, 0, 0, 0]" "copy_in sample_hyp sample_xen 4112 6 = Inr [7, 0, 0, 0, 0xf1, 0x7f]"
    by (rule sample_copy_in, simp,
        simp add: guest_bytes_def guest_frame_def hvm_xlate_def sample_env_def sample_xen_def sample_mem_def PAGE_SIZE_def upt_rec)+
  then show ?thesis
    by (simp add: send_addrs_def okay_def parse_addr_def get_field_def domid_consts sample_hyp_def sample_env_def)
qed

lemma sample_xen_ring:
  "v4v_ring_find_info_by_addr 0 (tbl_add host_info tbl_empty) \<lparr>a_port = 7, a_domain = V4V_DOMID_DM\<rparr> 1 = Some host_info"
proof -
  have "v4v_ring_find_info (tbl_add host_info tbl_empty) (ri_id host_info) = Some host_info"
    using tbl_lookup_add [OF tbl_inv_empty, of host_info] by simp
  then show ?thesis by (simp add: v4v_ring_find_info_by_addr_def host_info_def)
qed

lemma sample_xen_repr: "ring_repr (host_info, xmem sample_xen) []"
  using sample_inv
  by (simp add: ring_repr_def Let_def ring_fits_def uring_holds_def ring_view_def rbs_def rb_def ri_inv_def ri_wf_def
      ri_frames_def host_info_def sample_info_def sample_xen_def sample_mem_def v4v_consts upt_rec)

lemma sample_xen_payload: "payload sample_env (xmem sample_xen) (ri_frames host_info) 0 3 0 0 sample_data"
  by (auto simp: payload_def src_ok_def guest_ready_def must_retry_def guest_bytes_def guest_frames_def guest_frame_def
      hvm_xlate_def sample_data_def sample_env_def sample_xen_def sample_mem_def host_info_def sample_info_def ri_frames_def
      PAGE_SIZE_def upt_rec)

theorem guest_send_delivers_witness:
  "\<exists>rc x' tbl' info'. do_v4v_op sample_hyp V4VOP_send 4096 4112 0 3 6 sample_xen = (rc, x') \<and> dom_table x' 0 = Some tbl' \<and>
    v4v_ring_find_info tbl' (ri_id host_info) = Some info' \<and> rc = Inr 3 \<and> host_signals x' = 1 \<and>
    ring_repr (info', xmem x') [\<lparr>m_source = \<lparr>a_port = 9, a_domain = 1\<rparr>, m_protocol = 6, m_data = [0, 42, 0]\<rparr>]"
proof -
  obtain rc x' where op: "do_v4v_op sample_hyp V4VOP_send 4096 4112 0 3 6 sample_xen = (rc, x')" by force
  have c: "current_id sample_hyp = 1" "henv sample_hyp = sample_env" "host_signals sample_xen = 0"
    by (simp_all add: sample_hyp_def sample_xen_def)
  have h: "get_domain_by_id sample_xen 0 = Some (sample_domain 0 (tbl_add host_info tbl_empty))"
    by (simp add: get_domain_by_id_def dom_find_def sample_xen_def sample_domain_def domid_consts)
  have d: "dom_v4v (sample_domain 0 t) = Some t" for t by (simp add: sample_domain_def)
  have m: "\<forall>f\<in>set (ri_frames host_info). map_page_ok sample_env f" by (simp add: sample_env_def)
  have s: "s32 (int 3) = 3" by (simp add: s32_id)
  have l: "length sample_data < 2 ^ 31 - 16" "length sample_data = 3" "ri_len host_info = 64" "round16 3 = 16"
    by (simp_all add: sample_data_def host_info_def sample_info_def round16_def)
  obtain tbl' info' where "dom_table x' 0 = Some tbl'" "v4v_ring_find_info tbl' (ri_id host_info) = Some info'"
    "send_outcome 1 host_info [] \<lparr>m_source = \<lparr>a_port = 9, a_domain = 1\<rparr>, m_protocol = 6, m_data = sample_data\<rparr> rc info' (xmem x')"
    "(\<exists>k. rc = Inr k) \<longrightarrow> host_signals x' = 1"
    using guest_send_delivers [OF sample_xen_inv _ _ _ sample_xen_addrs _ h d, unfolded c, OF _ _ _ _ sample_xen_ring
        sample_xen_repr m _ l(1) op, simplified s, OF _ _ _ _ sample_xen_payload]
    by (auto simp: sample_xen_tables domid_consts sample_hyp_def)
  then show ?thesis using op l by (auto simp: send_outcome_def Let_def sample_data_def round16_def)
qed

end
