(* ===== verification/V4v_Notify.thy ===== *)
theory V4v_Notify
  imports V4v_System
begin

text \<open>
  Notifications.  \<open>v4v_notify_check_pending\<close> takes from the caller's rings exactly the requests for
  which there is now room and signals each of the domains that made them; a signal to a guest is
  one edge on interrupt line 7.
\<close>

section \<open>Which requests are answered\<close>

text \<open>The room the code finds in a ring; a placeholder has none.\<close>

definition ring_room :: "v4v_env \<Rightarrow> mem \<Rightarrow> v4v_ring_info \<Rightarrow> nat" where
  "ring_room env mem info = (if ri_len info = 0 then 0 else fst (v4v_ringbuf_payload_space env mem info))"

definition answered :: "v4v_env \<Rightarrow> mem \<Rightarrow> v4v_ring_info \<Rightarrow> v4v_pending_ent \<Rightarrow> bool" where
  "answered env mem info e \<longleftrightarrow> 0 < ring_room env mem info \<and> pe_len e \<le> ring_room env mem info"

text \<open>A ring before and after: page mappings apart, only the requests answered are gone.\<close>

definition polled :: "v4v_env \<Rightarrow> mem \<Rightarrow> v4v_ring_info \<Rightarrow> v4v_ring_info \<Rightarrow> bool" where
  "polled env mem info info' \<longleftrightarrow> ri_wf info' \<and>
     (\<exists>mp. info' = info\<lparr>ri_mfn_mapping := mp, ri_pending := filter (\<lambda>e. \<not> answered env mem info e) (ri_pending info)\<rparr>)"

lemma polled_fields:
  "polled env mem info info' \<Longrightarrow> ri_id info' = ri_id info \<and>
     ri_pending info' = filter (\<lambda>e. \<not> answered env mem info e) (ri_pending info)"
  by (auto simp: polled_def)

lemma notify_ring_answers:
  assumes "ri_wf info" "v4v_notify_ring env mem info tn = (info', tn')"
  shows "polled (henv env) mem info info' \<and> tn' = rev (filter (answered (henv env) mem info) (ri_pending info)) @ tn"
proof -
  obtain sp info1 where sp: "(if ri_len info \<noteq> 0 then v4v_ringbuf_payload_space (henv env) mem info
      else (0, info)) = (sp, info1)" by force
  have room: "ring_room (henv env) mem info = sp" using sp by (auto simp: ring_room_def split: if_splits)
  have "ri_same info info1 \<and> ri_wf info1"
    using sp payload_space_same [OF assms(1), of "henv env" mem sp info1] assms(1) by (auto split: if_splits)
  then obtain mp where same: "info1 = info\<lparr>ri_mfn_mapping := mp\<rparr>" and w: "ri_wf info1" by (auto simp: ri_same_iff)
  show ?thesis
  proof (cases "sp = 0")
    case True
    then have "info' = info1" "tn' = tn" using assms(2) sp by (simp_all add: v4v_notify_ring_def)
    moreover have "filter (\<lambda>e. \<not> answered (henv env) mem info e) (ri_pending info) = ri_pending info"
      using True room by (simp add: answered_def)
    ultimately show ?thesis using same w True room by (auto simp: polled_def answered_def)
  next
    case False
    then have f: "v4v_pending_find info1 sp tn = (info', tn')" using assms(2) sp by (simp add: v4v_notify_ring_def)
    have a: "(\<lambda>e. sp < pe_len e) = (\<lambda>e. \<not> answered (henv env) mem info e)" "(\<lambda>e. pe_len e \<le> sp) = answered (henv env) mem info"
      using False room by (auto simp: answered_def fun_eq_iff)
    show ?thesis
      using f w same unfolding pending_find_eq a by (auto simp: polled_def ri_wf_pending)
  qed
qed

definition to_signal :: "v4v_env \<Rightarrow> mem \<Rightarrow> v4v_ring_info list \<Rightarrow> v4v_pending_ent list" where
  "to_signal env mem infos = concat (map (\<lambda>info. filter (answered env mem info) (ri_pending info)) infos)"

lemma notify_chain_answers:
  assumes "\<And>info. info \<in> set b \<Longrightarrow> ri_wf info" "map_acc (v4v_notify_ring env mem) b tn = (b', tn')"
  shows "list_all2 (polled (henv env) mem) b b' \<and> tn' = rev (to_signal (henv env) mem b) @ tn"
  using assms
proof (induction b arbitrary: tn b')
  case (Cons info b)
  obtain i1 t1 where n: "v4v_notify_ring env mem info tn = (i1, t1)" by force
  obtain b1 where m: "map_acc (v4v_notify_ring env mem) b t1 = (b1, tn')" "b' = i1 # b1"
    using Cons.prems(2) n by (auto split: prod.splits)
  have "list_all2 (polled (henv env) mem) b b1 \<and> tn' = rev (to_signal (henv env) mem b) @ t1"
    using Cons.IH [OF _ m(1)] Cons.prems(1) by simp
  moreover have "polled (henv env) mem info i1 \<and> t1 = rev (filter (answered (henv env) mem info) (ri_pending info)) @ tn"
    using notify_ring_answers [OF Cons.prems(1) n] by simp
  ultimately show ?case using m(2) by (simp add: to_signal_def)
qed (simp add: to_signal_def)

lemma notify_table_answers:
  assumes "\<And>b info. b \<in> set tbl \<Longrightarrow> info \<in> set b \<Longrightarrow> ri_wf info"
    "map_acc (map_acc (v4v_notify_ring env mem)) tbl tn = (tbl', tn')"
  shows "list_all2 (list_all2 (polled (henv env) mem)) tbl tbl' \<and> tn' = rev (to_signal (henv env) mem (concat tbl)) @ tn"
  using assms
proof (induction tbl arbitrary: tn tbl')
  case (Cons b tbl)
  obtain b1 t1 where n: "map_acc (v4v_notify_ring env mem) b tn = (b1, t1)" by force
  obtain tb1 where m: "map_acc (map_acc (v4v_notify_ring env mem)) tbl t1 = (tb1, tn')" "tbl' = b1 # tb1"
    using Cons.prems(2) n by (auto split: prod.splits)
  have "list_all2 (list_all2 (polled (henv env) mem)) tbl tb1 \<and> tn' = rev (to_signal (henv env) mem (concat tbl)) @ t1"
    by (rule Cons.IH [OF _ m(1)]) (use Cons.prems(1) in auto)
  moreover have "list_all2 (polled (henv env) mem) b b1 \<and> t1 = rev (to_signal (henv env) mem b) @ tn"
    by (rule notify_chain_answers [OF _ n]) (use Cons.prems(1) in auto)
  ultimately show ?case using m(2) by (simp add: to_signal_def)
qed (simp add: to_signal_def)

lemma polled_lookup:
  assumes "list_all2 (list_all2 (polled env mem)) tbl tbl'" "tbl_inv tbl" "v4v_ring_find_info tbl rid = Some info"
  shows "\<exists>info'. v4v_ring_find_info tbl' rid = Some info' \<and> polled env mem info info'"
proof -
  have "list_all2 (polled env mem) (tbl ! v4v_hash_fn rid) (tbl' ! v4v_hash_fn rid)"
    using assms(1) hash_bound [OF assms(2), of rid] by (simp add: list_all2_nthD)
  then have "rel_option (polled env mem) (find (\<lambda>i. ri_id i = rid) (tbl ! v4v_hash_fn rid))
      (find (\<lambda>i. ri_id i = rid) (tbl' ! v4v_hash_fn rid))"
    by (induction rule: list_all2_induct) (auto dest: polled_fields)
  then show ?thesis using assms(3) by (auto simp: v4v_ring_find_info_def option_rel_Some1)
qed

section \<open>What a signal does\<close>

text \<open>A domain that exists, is not being freed, and has V4V state.\<close>

definition alive :: "xen \<Rightarrow> domid \<Rightarrow> bool" where
  "alive x i \<longleftrightarrow> (\<exists>d. get_domain_by_id x i = Some d \<and> dom_v4v d \<noteq> None)"

lemma alive_quiet:
  assumes "quiet env x x'"
  shows "alive x' i = alive x i"
  using quiet_find [OF assms, of i]
  by (cases "dom_find x i"; cases "dom_find x' i")
    (auto simp: alive_def get_domain_by_id_def dom_quiet_def dom_data_def)

lemma signal_domid_effect:
  assumes "ui_running env"
  shows "host_signals (v4v_signal_domid env j x) =
      host_signals x + (if j = 0 \<and> alive x 0 \<and> ui_signal_v4v env then 1 else 0)"
    "map_option dom_irq (dom_find (v4v_signal_domid env j x) i) =
      (if j = i \<and> i \<noteq> 0 \<and> alive x i then map_option (\<lambda>d. v4v_irq_pulse (dom_irq d)) (dom_find x i)
       else map_option dom_irq (dom_find x i))"
proof -
  have f: "dom_find (x\<lparr>host_signals := n\<rparr>) i = dom_find x i" for n by (simp add: dom_find_def)
  have u: "host_signals (upd_dom i f x) = host_signals x" for i f by (simp add: upd_dom_def)
  show "host_signals (v4v_signal_domid env j x) =
      host_signals x + (if j = 0 \<and> alive x 0 \<and> ui_signal_v4v env then 1 else 0)"
    using assms u by (auto simp: v4v_signal_domid_def v4v_signal_domain_def alive_def get_domain_by_id_def
        deliver_via_upcall_def split: option.splits if_splits)
  show "map_option dom_irq (dom_find (v4v_signal_domid env j x) i) =
      (if j = i \<and> i \<noteq> 0 \<and> alive x i then map_option (\<lambda>d. v4v_irq_pulse (dom_irq d)) (dom_find x i)
       else map_option dom_irq (dom_find x i))"
    using assms f by (auto simp: v4v_signal_domid_def v4v_signal_domain_def alive_def get_domain_by_id_def
        deliver_via_upcall_def dom_find_upd split: option.splits if_splits)
qed

lemma alive_signal: "alive (v4v_signal_domid env j x) i = alive x i"
  by (rule alive_quiet [OF signal_domid_quiet])

lemma pending_notify_host:
  assumes "ui_running env"
  shows "host_signals (v4v_pending_notify env es x) =
      host_signals x + (if alive x 0 \<and> ui_signal_v4v env then length (filter (\<lambda>e. pe_id e = 0) es) else 0)"
  unfolding v4v_pending_notify_def
  by (induction es arbitrary: x) (simp_all add: alive_signal signal_domid_effect(1) [OF assms])

lemma pending_notify_guest:
  assumes "ui_running env" "i \<noteq> 0" "alive x i"
  shows "map_option dom_irq (dom_find (v4v_pending_notify env es x) i) =
      map_option (\<lambda>d. (v4v_irq_pulse ^^ length (filter (\<lambda>e. pe_id e = i) es)) (dom_irq d)) (dom_find x i)"
  using assms(3) unfolding v4v_pending_notify_def
proof (induction es arbitrary: x)
  case (Cons e es)
  let ?y = "v4v_signal_domid env (pe_id e) x"
  have "map_option dom_irq (dom_find ?y i) = (if pe_id e = i then map_option (\<lambda>d. v4v_irq_pulse (dom_irq d)) (dom_find x i)
      else map_option dom_irq (dom_find x i))"
    using signal_domid_effect(2) [OF assms(1), of "pe_id e" x i] assms(2) Cons.prems by simp
  moreover have "alive ?y i" using Cons.prems by (simp add: alive_signal)
  ultimately show ?case using Cons.IH [of ?y]
    by (cases "dom_find x i"; cases "dom_find ?y i") (auto simp: funpow_swap1 split: if_splits)
qed simp

section \<open>The properties\<close>

text \<open>
  C14.  No request is forgotten and no domain is woken for nothing.  When a domain polls
  (\<open>v4v_notify_check_pending\<close>, at the end of a registration and in \<open>V4VOP_notify\<close>), a pending request of
  one of its rings is removed exactly if the ring has room for it; and for every request removed
  the domain that made it, if it is alive, is signalled once: the host by a call of its service, a
  guest by a pulse of its interrupt line.
\<close>

theorem poll_wakes_waiting:
  assumes inv: "xen_inv x" and run: "ui_running env" and t: "dom_table x c = Some tbl"
  defines "x' \<equiv> v4v_notify_check_pending env c x" and "es \<equiv> to_signal (henv env) (xmem x) (concat tbl)"
  shows "(\<forall>rid info. v4v_ring_find_info tbl rid = Some info \<longrightarrow>
      (\<exists>tbl' info'. dom_table x' c = Some tbl' \<and> v4v_ring_find_info tbl' rid = Some info' \<and>
        ri_pending info' = filter (\<lambda>e. \<not> answered (henv env) (xmem x) info e) (ri_pending info))) \<and>
    (alive x 0 \<and> ui_signal_v4v env \<longrightarrow> host_signals x' = host_signals x + length (filter (\<lambda>e. pe_id e = 0) es)) \<and>
    (\<forall>i. i \<noteq> 0 \<and> alive x i \<longrightarrow> map_option dom_irq (dom_find x' i) =
      map_option (\<lambda>d. (v4v_irq_pulse ^^ length (filter (\<lambda>e. pe_id e = i) es)) (dom_irq d)) (dom_find x i))"
proof -
  have ok: "tbl_ok c tbl" using inv t by (simp add: xen_inv_def)
  obtain tbl' tn where m: "map_acc (map_acc (v4v_notify_ring env (xmem x))) tbl [] = (tbl', tn)" by force
  have "list_all2 (list_all2 (polled (henv env) (xmem x))) tbl tbl' \<and> tn = rev es @ []"
    unfolding es_def by (rule notify_table_answers [OF _ m]) (use tbl_ok_wf [OF ok] in auto)
  then have P: "list_all2 (list_all2 (polled (henv env) (xmem x))) tbl tbl'" "tn = rev es" by simp_all
  let ?y = "upd_table c (\<lambda>_. tbl') x"
  have x': "x' = v4v_pending_notify env tn ?y" using t m by (simp add: x'_def v4v_notify_check_pending_def)
  have "dom_table x' c = Some tbl'" using t by (simp add: x' quiet_table [OF pending_notify_quiet] dom_table_upd_table)
  then have "\<exists>tbl' info'. dom_table x' c = Some tbl' \<and> v4v_ring_find_info tbl' rid = Some info' \<and>
      ri_pending info' = filter (\<lambda>e. \<not> answered (henv env) (xmem x) info e) (ri_pending info)"
    if "v4v_ring_find_info tbl rid = Some info" for rid info
    using polled_lookup [OF P(1) tbl_okD(1) [OF ok] that] by (auto dest: polled_fields)
  moreover have a: "alive ?y i = alive x i" for i
    using t by (auto simp: alive_def get_domain_by_id_def dom_find_upd_table dom_table_def split: option.splits)
  have n: "length (filter Q (rev es)) = length (filter Q es)" for Q by (simp flip: rev_filter)
  have "host_signals x' = host_signals x + length (filter (\<lambda>e. pe_id e = 0) es)" if "alive x 0" "ui_signal_v4v env"
    unfolding x' P(2) pending_notify_host [OF run] a n using that by (simp add: upd_table_def upd_dom_def)
  moreover have "map_option dom_irq (dom_find x' i) =
      map_option (\<lambda>d. (v4v_irq_pulse ^^ length (filter (\<lambda>e. pe_id e = i) es)) (dom_irq d)) (dom_find x i)"
    if "i \<noteq> 0" "alive x i" for i
    using pending_notify_guest [OF run that(1), of ?y tn] that(2) a [of i]
    by (cases "dom_find x i") (auto simp: x' P(2) n dom_find_upd_table)
  ultimately show ?thesis by blast
qed

text \<open>The host polls while domain 1 waits for three bytes in the host's ring.\<close>

definition waiting_info :: v4v_ring_info where
  "waiting_info = host_info\<lparr>ri_pending := [\<lparr>pe_id = 1, pe_len = 3\<rparr>]\<rparr>"

definition waiting_xen :: xen where
  "waiting_xen = sample_xen\<lparr>domain_list := [sample_domain 1 tbl_empty, sample_domain 0 (tbl_add waiting_info tbl_empty)]\<rparr>"

lemma waiting_tables:
  "dom_table waiting_xen i = (if i = 1 then Some tbl_empty else if i = 0 then Some (tbl_add waiting_info tbl_empty) else None)"
  by (simp add: waiting_xen_def dom_table_def dom_find_def sample_domain_def)

lemma waiting_xen_inv: "xen_inv waiting_xen"
proof -
  have "tbl_ok 0 (tbl_add waiting_info tbl_empty)"
    using tbl_ok_event [OF tbl_ok_empty, of "Tbl_add waiting_info" 0] host_info_wf(1) tbl_lookup_empty
    by (simp add: waiting_info_def ri_wf_pending pending_ok_def) (simp add: host_info_def)
  moreover have "distinct (map domain_id (domain_list waiting_xen))" by (simp add: waiting_xen_def sample_domain_def)
  ultimately show ?thesis using tbl_ok_empty by (simp add: xen_inv_def waiting_tables)
qed

lemma waiting_room: "ring_room sample_env (xmem waiting_xen) waiting_info = 48"
proof -
  have "ring_ready sample_env waiting_info"
    using sample_ready by (simp add: ring_ready_def ring_mappable_def ring_fits_def ri_inv_def ri_wf_def ri_frames_def
        waiting_info_def host_info_def sample_info_def)
  moreover have "rx_sane (xmem waiting_xen) waiting_info"
    by (simp add: rx_sane_def rx_field_def rbs_def rb_def waiting_info_def host_info_def sample_info_def waiting_xen_def
        sample_xen_def sample_mem_def ri_frames_def v4v_consts upt_rec)
  ultimately obtain info' where "v4v_ringbuf_payload_space sample_env (xmem waiting_xen) waiting_info =
      ((if seen_rx sample_env (xmem waiting_xen) waiting_info = ri_tx_ptr waiting_info then ri_len waiting_info - 16
        else seen_free sample_env (xmem waiting_xen) waiting_info - 32), info')"
    using payload_space_eq [of sample_env waiting_info "xmem waiting_xen"]
    by (auto simp: waiting_info_def host_info_def sample_info_def)
  moreover have "seen_rx sample_env (xmem waiting_xen) waiting_info = 48"
    using seen_rx_eq [OF \<open>ring_ready sample_env waiting_info\<close>, of "xmem waiting_xen"]
    by (simp add: rx_field_def rbs_def rb_def waiting_info_def host_info_def sample_info_def waiting_xen_def
        sample_xen_def sample_mem_def ri_frames_def v4v_consts upt_rec V4V_ROUNDUP_def)
  ultimately show ?thesis by (simp add: ring_room_def) (simp add: waiting_info_def host_info_def sample_info_def)
qed

lemma concat_tbl_add: "concat (tbl_add info tbl_empty) = [info]"
proof -
  have "concat ((replicate n [])[h := [a]]) = [a]" if "h < n" for n h and a :: v4v_ring_info
    using that by (induction n arbitrary: h) (auto simp: list_update_def split: nat.splits)
  then show ?thesis using hash_less [of "ri_id info"] by (simp add: tbl_add_def tbl_empty_def Let_def)
qed

theorem poll_wakes_waiting_witness:
  "map_option dom_irq (dom_find (v4v_notify_check_pending (sample_hyp\<lparr>current_id := 0\<rparr>) 0 waiting_xen) 1) =
    Some (v4v_irq_pulse blank_irq)"
proof -
  let ?h = "sample_hyp\<lparr>current_id := 0\<rparr>"
  have h: "henv ?h = sample_env" "ui_running ?h" by (simp_all add: sample_hyp_def)
  have "to_signal sample_env (xmem waiting_xen) (concat (tbl_add waiting_info tbl_empty)) = [\<lparr>pe_id = 1, pe_len = 3\<rparr>]"
  proof -
    have "answered sample_env (xmem waiting_xen) waiting_info \<lparr>pe_id = 1, pe_len = 3\<rparr>" "ri_pending waiting_info = [\<lparr>pe_id = 1, pe_len = 3\<rparr>]"
      using waiting_room by (simp_all add: answered_def) (simp add: waiting_info_def)
    then show ?thesis by (simp add: to_signal_def concat_tbl_add)
  qed
  moreover have "alive waiting_xen 1" "dom_find waiting_xen 1 = Some (sample_domain 1 tbl_empty)"
    by (simp_all add: alive_def get_domain_by_id_def waiting_xen_def dom_find_def sample_domain_def domid_consts word_le_nat_alt)
  ultimately show ?thesis
    using poll_wakes_waiting [OF waiting_xen_inv h(2), of 0 "tbl_add waiting_info tbl_empty"] waiting_tables [of 0]
    by (simp add: h sample_domain_def)
qed

text \<open>Neither page mappings nor pending entries matter to the outcome of an insertion.\<close>

lemma insert_by_room_after:
  assumes rdy: "ring_ready env info" "0 < ri_len info" "rx_sane mem info"
    and i: "ri_same info info1" "ri_wf info1" "pend_same info1 info'"
    and pay: "payload env mem (ri_frames info) buf len iovs niov bs" "bs \<noteq> []" "length bs \<le> V4V_RING_MAX_SIZE"
  shows "fst (v4v_ringbuf_insert env mem info' src_id proto buf len iovs niov) =
    (if ri_len info - 32 < length bs then Some EMSGSIZE
     else if length bs \<le> seen_free env mem info - 32 then None else Some EAGAIN)"
proof -
  obtain es where e: "info' = info1\<lparr>ri_pending := es\<rparr>" using i(3) by (auto simp: pend_same_def)
  have fr: "ri_len info' = ri_len info" "ri_tx_ptr info' = ri_tx_ptr info" "ri_frames info' = ri_frames info"
    using ri_same_fields [OF i(1)] by (simp_all add: e ri_frames_def)
  have "ring_ready env info1" by (rule ring_ready_same [OF rdy(1) i(1,2)])
  then have r: "ring_ready env info'"
    by (simp add: e ring_ready_def ri_inv_def ri_wf_pending ring_mappable_def ring_fits_def ri_frames_def)
  have "rx_sane mem info'" using rdy(3) fr by (simp add: rx_sane_def)
  then have "seen_free env mem info' = seen_free env mem info" "16 dvd seen_free env mem info'"
    using seen_rx_sane [OF r, of mem] seen_rx_sane [OF rdy] seen_free_dvd [OF r, of mem] rdy(2) fr by (simp_all add: seen_free_def)
  then show ?thesis
    using insert_by_room [OF r, of mem buf len iovs niov bs src_id proto] pay rdy(2) fr by simp
qed

lemma ring_data_reply_eq:
  assumes rdy: "ring_ready (henv env) info" "48 \<le> ri_len info" "ri_nmfns info = ri_npage info" "rx_sane mem info"
    and res: "ring_data_reply env mem info src sr = (flags, max_size, info')"
  obtains info1 sp where "ri_same info info1" "ri_wf info1" "max_size = ri_len info - 32"
    "sp = (if rx_field (ri_frames info) mem = ri_tx_ptr info then ri_len info - 16 else seen_free (henv env) mem info - 32)"
    "flags = V4V_RING_DATA_F_EXISTS + (if sr \<le> sp then V4V_RING_DATA_F_SUFFICIENT else V4V_RING_DATA_F_PENDING)"
    "info' = (if sr \<le> sp then v4v_pending_cancel info1 src
        else snd (v4v_pending_requeue (xmalloc_ok env (A_pending (ri_id info))) info1 src (int sr)))"
proof -
  have L0: "0 < ri_len info" using rdy(2) by simp
  obtain sp info1 where sp: "v4v_ringbuf_payload_space (henv env) mem info = (sp, info1)" by force
  have sp': "sp = (if rx_field (ri_frames info) mem = ri_tx_ptr info then ri_len info - 16 else seen_free (henv env) mem info - 32)"
    and p1: "ri_same info info1" "ri_wf info1"
    using payload_space_eq [OF rdy(1) L0 rdy(3,4)] sp seen_rx_sane [OF rdy(1) L0 rdy(4)] by fastforce+
  have m: "u32_sub (u32_sub (ri_len info) SIZEOF_MH) (V4V_ROUNDUP 1) = ri_len info - 32"
    using rdy(2) ring_readyD(8) [OF rdy(1) L0] by (simp add: SIZEOF_MH_def V4V_ROUNDUP_def u32_sub_le u32_id)
  have "sp \<noteq> ri_len info - 32" using sp' rdy(2) seen_free_cases(2) [OF rdy(1) L0 rdy(4)] by auto
  then show thesis
    using that [OF p1 _ sp'] res sp m by (auto simp: ring_data_reply_def Let_def split: if_splits)
qed

text \<open>
  C19.  What \<open>V4VOP_notify\<close> answers about a ring, and what the asker can make of it.  The ring is in place, its
  receiver keeps its pointer aligned and inside the ring, and the space asked for is between 1
  byte and 16 MiB.  The largest message size answered, the length less 32, is exactly the limit of an
  insertion.  Either \<open>SUFFICIENT\<close> or \<open>PENDING\<close> is set, and \<open>EMPTY\<close> never is.  A message of the size asked for,
  inserted next, is \<open>EMSGSIZE\<close> if it is above the limit; otherwise it is accepted if the answer was \<open>SUFFICIENT\<close>
  and told to try again if it was \<open>PENDING\<close>.  Above the limit \<open>SUFFICIENT\<close> is set all the same
  when the ring is empty and the size is at most the length less 16.  With \<open>SUFFICIENT\<close> the asker's
  request is cancelled, with \<open>PENDING\<close> it is kept, memory permitting, for at least the size asked for;
  the requests of other domains stay.
\<close>

theorem ring_data_answer:
  assumes rdy: "ring_ready (henv env) info" "48 \<le> ri_len info" "ri_nmfns info = ri_npage info" "rx_sane mem info"
    and sr: "0 < sr" "sr \<le> V4V_RING_MAX_SIZE" and res: "ring_data_reply env mem info src sr = (flags, max_size, info')"
  shows "max_size = ri_len info - 32 \<and>
    flags \<in> {V4V_RING_DATA_F_EXISTS + V4V_RING_DATA_F_SUFFICIENT, V4V_RING_DATA_F_EXISTS + V4V_RING_DATA_F_PENDING} \<and>
    (payload (henv env) mem (ri_frames info) buf len iovs niov bs \<and> length bs = sr \<longrightarrow>
       fst (v4v_ringbuf_insert (henv env) mem info' src_id proto buf len iovs niov) =
         (if max_size < sr then Some EMSGSIZE
          else if flags = V4V_RING_DATA_F_EXISTS + V4V_RING_DATA_F_SUFFICIENT then None else Some EAGAIN)) \<and>
    (max_size < sr \<longrightarrow> (flags = V4V_RING_DATA_F_EXISTS + V4V_RING_DATA_F_SUFFICIENT \<longleftrightarrow>
       rx_field (ri_frames info) mem = ri_tx_ptr info \<and> sr \<le> ri_len info - 16)) \<and>
    (if flags = V4V_RING_DATA_F_EXISTS + V4V_RING_DATA_F_SUFFICIENT then wanted (ri_pending info') src = None
     else xmalloc_ok env (A_pending (ri_id info)) \<longrightarrow> (\<exists>k. wanted (ri_pending info') src = Some k \<and> sr \<le> k)) \<and>
    (\<forall>d. d \<noteq> src \<longrightarrow> wanted (ri_pending info') d = wanted (ri_pending info) d)"
proof -
  let ?S = "V4V_RING_DATA_F_EXISTS + V4V_RING_DATA_F_SUFFICIENT" and ?P = "V4V_RING_DATA_F_EXISTS + V4V_RING_DATA_F_PENDING"
  have L0: "0 < ri_len info" using rdy(2) by simp
  obtain info1 sp where p1: "ri_same info info1" "ri_wf info1" and f: "max_size = ri_len info - 32"
      "sp = (if rx_field (ri_frames info) mem = ri_tx_ptr info then ri_len info - 16 else seen_free (henv env) mem info - 32)"
      "flags = V4V_RING_DATA_F_EXISTS + (if sr \<le> sp then V4V_RING_DATA_F_SUFFICIENT else V4V_RING_DATA_F_PENDING)"
      "info' = (if sr \<le> sp then v4v_pending_cancel info1 src
        else snd (v4v_pending_requeue (xmalloc_ok env (A_pending (ri_id info))) info1 src (int sr)))"
    by (rule ring_data_reply_eq [OF rdy res])
  note F = seen_free_cases [OF rdy(1) L0 rdy(4)]
  have ne: "?P \<noteq> ?S" by (simp add: ring_data_flags)
  obtain e info2 where rq: "v4v_pending_requeue (xmalloc_ok env (A_pending (ri_id info))) info1 src (int sr) = (e, info2)" by force
  note Q = requeue_cases [OF rq] and i' = f(4) [unfolded rq snd_conv]
  have t: "ring_touched {src} info1 info'" "pend_same info1 info'"
    using i' requeue_touched [OF p1(2) rq] cancel_touched [OF p1(2), of src] Q(1)
    by (auto simp: pend_same_def v4v_pending_cancel_def split: if_splits)
  have c: "wanted (ri_pending (v4v_pending_cancel info1 src)) src = None"
    by (auto simp: v4v_pending_cancel_def wanted_def find_None_iff)
  have q: "\<exists>k. wanted (ri_pending info2) src = Some k \<and> sr \<le> k" if "xmalloc_ok env (A_pending (ri_id info))"
    using Q(3,4) that sr(2) by (cases e) (auto simp: V4V_RING_MAX_SIZE_def)
  have ins: "fst (v4v_ringbuf_insert (henv env) mem info' src_id proto buf len iovs niov) =
      (if max_size < sr then Some EMSGSIZE else if sr \<le> sp then None else Some EAGAIN)"
    if "payload (henv env) mem (ri_frames info) buf len iovs niov bs" "length bs = sr"
    using insert_by_room_after [OF rdy(1) L0 rdy(4) p1 t(2) that(1), of src_id proto] that(2) sr f(1,2) F
    by (auto split: if_splits)
  have em: "max_size < sr \<Longrightarrow> sr \<le> sp \<longleftrightarrow> rx_field (ri_frames info) mem = ri_tx_ptr info \<and> sr \<le> ri_len info - 16"
    using F(2) f(1,2) by auto
  have w: "if sr \<le> sp then wanted (ri_pending info') src = None
     else xmalloc_ok env (A_pending (ri_id info)) \<longrightarrow> (\<exists>k. wanted (ri_pending info') src = Some k \<and> sr \<le> k)"
    using i' c q by simp
  show ?thesis
    using ins em w t(1) ri_same_fields [OF p1(1)] ne by (simp add: f(1,3) ring_touched_def)
qed

theorem ring_data_answer_witness:
  "case ring_data_reply sample_hyp sample_mem sample_info 1 3 of (flags, max_size, info') \<Rightarrow>
     max_size = 32 \<and> flags = V4V_RING_DATA_F_EXISTS + V4V_RING_DATA_F_SUFFICIENT \<and>
     fst (v4v_ringbuf_insert sample_env sample_mem info' (ri_id sample_info) 6 0 3 0 0) = None"
proof -
  obtain f m i where r: "ring_data_reply sample_hyp sample_mem sample_info 1 3 = (f, m, i)" by (metis prod_cases3)
  have s: "rx_sane sample_mem sample_info" "rx_field (ri_frames sample_info) sample_mem = ri_tx_ptr sample_info"
    by (simp_all add: rx_sane_def rx_field_def rbs_def rb_def sample_info_def sample_mem_def ri_frames_def v4v_consts upt_rec)
  have h: "henv sample_hyp = sample_env" "48 \<le> ri_len sample_info" "ri_nmfns sample_info = ri_npage sample_info" "ri_len sample_info = 64"
    by (simp_all add: sample_hyp_def sample_info_def)
  have "(3::nat) \<le> V4V_RING_MAX_SIZE" "length sample_data = 3" by (simp_all add: V4V_RING_MAX_SIZE_def sample_data_def)
  note A = ring_data_answer [of sample_hyp sample_info sample_mem 3 1 f m i 0 3 0 0 sample_data "ri_id sample_info" 6,
      unfolded h(1), OF sample_ready h(2,3) s(1) _ this(1) r]
  have f: "f = V4V_RING_DATA_F_EXISTS + (if (3::nat) \<le> 48 then V4V_RING_DATA_F_SUFFICIENT else V4V_RING_DATA_F_PENDING)"
    by (rule ring_data_reply_eq [of sample_hyp sample_info sample_mem 1 3 f m i, unfolded h(1), OF sample_ready h(2,3) s(1) r])
      (simp add: s(2) h(4))
  show ?thesis using A f sample_payload h(4) \<open>length sample_data = 3\<close> by (simp add: r)
qed

text \<open>
  C15.  A V4V signal reaches the interrupt controllers.  Signalling a guest asserts and deasserts ISA
  line 7: if no other wire drives its GSI, the IO-APIC sees one edge on pin 7, directed at virtual
  CPU 0; all wires and all counts are as before, and so is the V4V state of the guest.
\<close>

theorem v4v_signal_edge:
  assumes "ui_running env" "i \<noteq> 0" "dom_find x i = Some d" "dom_v4v d \<noteq> None" "irq_inv (dom_irq d)"
    "\<not> isa_irq (dom_irq d) 7"
  shows "\<exists>d'. dom_find (v4v_signal_domain env i x) i = Some d' \<and> dom_data d' = dom_data d \<and>
    same_wires (dom_irq d) (dom_irq d') \<and>
    vioapic_edges (dom_irq d') = (if gsi_assert_count (dom_irq d) 7 = 0 then [(7, Some 0)] else []) @ vioapic_edges (dom_irq d)"
proof -
  have "dom_find (v4v_signal_domain env i x) i = Some (d\<lparr>dom_irq := v4v_irq_pulse (dom_irq d)\<rparr>)"
    using assms by (auto simp: v4v_signal_domain_def deliver_via_upcall_def dom_find_upd)
  moreover have "hvm_isa_irq_to_gsi 7 = 7" by (simp add: hvm_isa_irq_to_gsi_def)
  ultimately show ?thesis
    using isa_pulse [of "dom_irq d" 7 "Some 0"] assms(5,6) by (simp add: v4v_irq_pulse_def dom_data_def)
qed

theorem v4v_signal_edge_witness:
  "\<exists>d'. dom_find (v4v_signal_domain sample_hyp 1 sample_xen) 1 = Some d' \<and> vioapic_edges (dom_irq d') = [(7, Some 0)]"
proof -
  have "dom_find sample_xen 1 = Some (sample_domain 1 tbl_empty)" by (simp add: sample_xen_def dom_find_def sample_domain_def)
  moreover have "irq_inv blank_irq" unfolding blank_irq_def by (rule irq_zero_inv)
  moreover have "isa_irq blank_irq 7 = False" "gsi_assert_count blank_irq 7 = 0" "vioapic_edges blank_irq = []"
    by (simp_all add: blank_irq_def irq_zero_def)
  ultimately show ?thesis
    using v4v_signal_edge [of sample_hyp 1 sample_xen "sample_domain 1 tbl_empty"]
    by (auto simp: sample_hyp_def sample_domain_def)
qed

end
