(* ===== verification/V4v_Register.thy ===== *)
theory V4v_Register
  imports V4v_Notify
begin

text \<open>
  Registering and removing rings: a registered ring satisfies the invariant the insertion relies on,
  and a removed one is gone.
\<close>

section \<open>A successful registration\<close>

lemma add_tx_ptr_ok:
  assumes "48 \<le> rg_len ring" "16 dvd rg_len ring"
  shows "add_tx_ptr ring < rg_len ring \<and> 16 dvd add_tx_ptr ring"
proof -
  have "V4V_ROUNDUP t = t \<Longrightarrow> 16 dvd t" for t by (metis V4V_ROUNDUP_dvd)
  then show ?thesis using assms by (auto simp: add_tx_ptr_def)
qed

lemma add_check_values:
  assumes "ring_add_check env d hnd tok x = (Inr (rid, len, tx), x')"
  shows "48 \<le> len \<and> 16 dvd len \<and> len \<le> V4V_MAX_RING_SIZE \<and> tx < len \<and> 16 dvd tx"
proof -
  obtain bs where b: "copy_in env x hnd SIZEOF_RING = Inr bs"
    using assms by (auto simp: ring_add_check_def split: sum.splits)
  define ring where "ring = parse_ring bs"
  have l: "48 \<le> rg_len ring" "V4V_ROUNDUP (rg_len ring) = rg_len ring" "rg_len ring \<le> V4V_MAX_RING_SIZE"
    "len = rg_len ring" "tx = add_tx_ptr ring"
    using assms b unfolding ring_add_check_def
    by (auto simp: Let_def ring_def V4V_ROUNDUP_def SIZEOF_MH_def split: if_splits sum.splits prod.splits option.splits)
  then have "16 dvd rg_len ring" using V4V_ROUNDUP_dvd [of "rg_len ring"] by simp
  then show ?thesis using l add_tx_ptr_ok [of ring] by simp
qed

text \<open>What a ring is after \<open>v4v_ring_add\<close> has returned 0.\<close>

definition registered :: "nat \<Rightarrow> nat \<Rightarrow> nat \<Rightarrow> v4v_ring_info \<Rightarrow> bool" where
  "registered hnd len tx info \<longleftrightarrow> ri_wf info \<and> ri_ring info = hnd \<and> ri_len info = len \<and> ri_tx_ptr info = tx \<and>
     ri_nmfns info = ri_npage info \<and> len \<le> ri_npage info * PAGE_SIZE"

lemma publish_registered:
  assumes I: "xen_inv x" "dom_table x (current_id env) = Some tbl" "v4v_ring_find_info tbl (ri_id info) = Some info"
    and p: "ring_add_publish env (current_id env) info len tx hnd pfn_hnd x = (None, x')"
  shows "\<exists>tbl' info'. dom_table x' (current_id env) = Some tbl' \<and> v4v_ring_find_info tbl' (ri_id info) = Some info' \<and>
    registered hnd len tx info'"
proof -
  let ?i = "info\<lparr>ri_tx_ptr := tx, ri_ring := hnd\<rparr>"
  have ok: "tbl_ok (current_id env) tbl" using I(1,2) by (simp add: xen_inv_def)
  have w: "ri_wf ?i" using tbl_okD(2) [OF ok I(3)] by (auto simp: ri_wf_def split: option.splits)
  obtain r1 info2 refs' where f: "v4v_find_ring_mfns env (current_id env) (xmem x) ?i pfn_hnd len (page_refs x)
    = (r1, info2, refs')" by (metis prod_cases3)
  note F = find_ring_mfns_ok [OF w refl f]
  from p f obtain m info3 where r: "r1 = None" "v4v_ring_map_page (henv env) info2 0 = (Inr m, info3)"
    "x' = (upd_table (current_id env) (tbl_store (info3\<lparr>ri_len := len\<rparr>)) x)\<lparr>page_refs := refs'\<rparr>"
    by (auto simp: ring_add_publish_def Let_def split: option.splits prod.splits sum.splits)
  have w2: "ri_wf info2" "same_ring ?i info2" using F by (simp_all add: pages_ok_def)
  have s: "ri_same info2 info3" "ri_wf info3" using map_page_cases [OF w2(1) r(2)] by simp_all
  have id: "ri_id info3 = ri_id info" using s(1) w2(2) by (simp add: ri_same_fields same_ring_def)
  have "ri_wf (info3\<lparr>ri_len := len\<rparr>)" using s(2) by (auto simp: ri_wf_def split: option.splits)
  then have "registered hnd len tx (info3\<lparr>ri_len := len\<rparr>)"
    using F r(1) s(1) w2(2) by (auto simp: registered_def ri_same_iff same_ring_def)
  moreover have "v4v_ring_find_info (tbl_store (info3\<lparr>ri_len := len\<rparr>) tbl) (ri_id info) = Some (info3\<lparr>ri_len := len\<rparr>)"
    using ht.lookup_store [OF tbl_okD(1) [OF ok], of "info3\<lparr>ri_len := len\<rparr>"] I(3) id by simp
  ultimately show ?thesis using I(2) r(3) by (auto simp: dom_table_upd_table)
qed

lemma install_registered:
  assumes I: "xen_inv x" "a_domain (id_addr rid) = current_id env" "IS_HOST (current_id env) \<or> id_partner rid = 0"
    and p: "ring_add_install env (current_id env) rid len tx hnd pfn_hnd fe x = (None, x')"
  shows "\<exists>tbl' info'. dom_table x' (current_id env) = Some tbl' \<and> v4v_ring_find_info tbl' rid = Some info' \<and>
    registered hnd len tx info'"
proof -
  from p obtain tbl where t: "dom_table x (current_id env) = Some tbl"
    by (auto simp: ring_add_install_def split: option.splits)
  have ok: "tbl_ok (current_id env) tbl" using I(1) t by (simp add: xen_inv_def)
  show ?thesis
  proof (cases "v4v_ring_find_info tbl rid")
    case None
    let ?y = "upd_table (current_id env) (tbl_add (new_info rid)) x"
    have s: "v4v_step env x ?y" using step_new [OF t None I(2)] I(3) by auto
    have k: "ri_id (new_info rid) = rid" by (simp add: new_info_def)
    have l: "v4v_ring_find_info (tbl_add (new_info rid) tbl) (ri_id (new_info rid)) = Some (new_info rid)"
      using ht.lookup_add [OF tbl_okD(1) [OF ok], of "new_info rid"] k by simp
    have "ring_add_publish env (current_id env) (new_info rid) len tx hnd pfn_hnd ?y = (None, x')"
      using p t None by (auto simp: ring_add_install_def split: if_splits)
    then show ?thesis
      using publish_registered [OF xen_inv_step [OF s I(1)] _ l] t k by (simp add: dom_table_upd_table)
  next
    case (Some info)
    then have k: "ri_id info = rid" using tbl_okD(2) [OF ok Some] by simp
    have "ring_add_publish env (current_id env) info len tx hnd pfn_hnd x = (None, x')"
      using p t Some by (auto simp: ring_add_install_def split: if_splits)
    then show ?thesis using publish_registered [OF I(1) t] Some k by blast
  qed
qed

lemma poll_registered:
  assumes "xen_inv x" "dom_table x c = Some tbl" "v4v_ring_find_info tbl rid = Some info" "registered hnd len tx info"
  shows "\<exists>tbl' info'. dom_table (v4v_notify_check_pending env c x) c = Some tbl' \<and>
    v4v_ring_find_info tbl' rid = Some info' \<and> registered hnd len tx info'"
proof -
  have ok: "tbl_ok c tbl" using assms(1,2) by (simp add: xen_inv_def)
  obtain tbl' tn where m: "map_acc (map_acc (v4v_notify_ring env (xmem x))) tbl [] = (tbl', tn)" by force
  have "list_all2 (list_all2 (polled (henv env) (xmem x))) tbl tbl'"
    using notify_table_answers [OF _ m] tbl_ok_wf [OF ok] by auto
  from polled_lookup [OF this tbl_okD(1) [OF ok] assms(3)] obtain info' where
    "v4v_ring_find_info tbl' rid = Some info'" "polled (henv env) (xmem x) info info'" by blast
  moreover have "dom_table (v4v_notify_check_pending env c x) c = Some tbl'"
    using assms(2) m by (simp add: v4v_notify_check_pending_def quiet_table [OF pending_notify_quiet] dom_table_upd_table)
  ultimately show ?thesis using assms(4) by (auto simp: registered_def polled_def)
qed

text \<open>
  C16.  Registration establishes the ring invariant.  When \<open>V4VOP_register_ring\<close> returns 0, the caller's
  table has a ring under the identifier the call computed, owned by the caller and, for a guest,
  open to the host only; all its pages are translated and cover its length; its length is a
  multiple of 16 between 48 bytes and 16 megabytes; and its transmit pointer is aligned and inside
  the ring, so that the invariant on which insertion is safe (C1) holds.
\<close>

theorem register_establishes_ring:
  assumes "xen_inv x" "do_v4v_op env V4VOP_register_ring a1 a2 a3 a4 a5 x = (Inr 0, x')"
  shows "\<exists>rid len tx tbl info. fst (ring_add_check env (current_id env) a1 a3 x) = Inr (rid, len, tx) \<and>
    a_domain (id_addr rid) = current_id env \<and> (IS_HOST (current_id env) \<or> id_partner rid = 0) \<and>
    dom_table x' (current_id env) = Some tbl \<and> v4v_ring_find_info tbl rid = Some info \<and>
    ri_inv info \<and> ri_len info = len \<and> 48 \<le> len \<and> ri_tx_ptr info = tx \<and> ri_ring info = a1 \<and>
    ri_nmfns info = ri_npage info \<and> len \<le> ri_nmfns info * PAGE_SIZE"
proof -
  let ?c = "current_id env"
  have "v4v_ring_add env ?c a1 a2 a3 a4 x = (None, x')"
    using assms(2) by (auto simp: do_v4v_op_def v4v_ops Let_def status_def split: if_splits prod.splits option.splits)
  then obtain rid len tx x1 x2 where c: "ring_add_check env ?c a1 a3 x = (Inr (rid, len, tx), x1)"
    and i: "ring_add_install env ?c rid len tx a1 a2 a4 x1 = (None, x2)" and x': "x' = v4v_notify_check_pending env ?c x2"
    by (auto simp: v4v_ring_add_def split: if_splits option.splits prod.splits sum.splits)
  note C = add_check_steps [OF c] and V = add_check_values [OF c]
  have x1: "xen_inv x1" using C xen_inv_steps [OF _ assms(1)] by blast
  obtain tbl info where t: "dom_table x2 ?c = Some tbl" "v4v_ring_find_info tbl rid = Some info" "registered a1 len tx info"
    using install_registered [OF x1 _ _ i] C by blast
  have x2: "xen_inv x2" using install_steps [OF x1 _ _ i] C xen_inv_steps [OF _ x1] by blast
  from poll_registered [OF x2 t, of env] obtain tbl' info' where
    "dom_table x' ?c = Some tbl'" "v4v_ring_find_info tbl' rid = Some info'" "registered a1 len tx info'"
    unfolding x' by blast
  moreover from this have "ri_inv info'" using V by (simp add: registered_def ri_inv_def ring_len_ok_def)
  ultimately show ?thesis using c C V by (auto simp: registered_def)
qed

text \<open>Domain 1 registers a ring of 64 bytes in its first page.\<close>

definition reg_page :: "nat \<Rightarrow> byte" where
  "reg_page i = (if i < 20 then [0x2f, 0x7f, 0x26, 0xe7, 0x63, 0xe1, 0x67, 0xac, 9, 0, 0, 0, 0, 0, 0xf1, 0x7f, 64, 0, 0, 0] ! i else 0)"

definition reg_list :: "nat \<Rightarrow> byte" where
  "reg_list i = (if i < 12 then [0x2d, 0x30, 0x5b, 0x04, 0x59, 0x61, 0xdd, 0x91, 1, 0, 0, 0] ! i else 0)"

definition reg_xen :: xen where
  "reg_xen = \<lparr>domain_list = [sample_domain 1 tbl_empty], xmem = (\<lambda>m. if m = 10 then reg_page else if m = 11 then reg_list else (\<lambda>_. 0)),
     page_refs = (\<lambda>_. 0), host_signals = 0, xen_bug = False\<rparr>"

lemma reg_copy_in:
  assumes "a < 2 ^ 64" "guest_bytes (cur sample_env) (xmem x) a n = map Some bs"
  shows "copy_in sample_hyp x a n = Inr bs"
  using assms copy_from_guest_errno_okay [of "cur sample_env" a "xmem x" n bs]
  by (simp add: copy_in_def sample_hyp_def guest_ready_def must_retry_def sample_env_def)

lemma reg_copy_out:
  assumes "bs \<noteq> []" "a mod PAGE_SIZE + length bs \<le> PAGE_SIZE"
  shows "copy_out sample_hyp a bs x = (None, x\<lparr>xmem := page_write (xmem x) (a div PAGE_SIZE + 10) (a mod PAGE_SIZE) bs\<rparr>)"
proof -
  have "hvm_chunk a (length bs) = length bs" using assms by (simp add: hvm_chunk_def)
  then have "hvm_copy_to_guest (cur sample_env) mem a bs =
      (HVMCOPY_okay, page_write mem (a div PAGE_SIZE + 10) (a mod PAGE_SIZE) bs)" for mem
    using assms(1)
    by (subst hvm_copy_to_guest.simps, subst hvm_copy_to_guest.simps) (simp add: hvm_xlate_def sample_env_def)
  then show ?thesis
    by (simp add: copy_out_def copy_to_guest_errno_def sample_hyp_def must_retry_def guest_errno_def hvm_errno_def)
      (simp add: sample_env_def)
qed

lemma reg_header: "xmem x 10 = reg_page \<Longrightarrow> copy_in sample_hyp x 0 64 = Inr (map reg_page [0..<64])"
  by (rule reg_copy_in) (simp_all add: guest_bytes_def guest_frame_def hvm_xlate_def sample_env_def PAGE_SIZE_def)

lemma reg_parse:
  "parse_ring (map reg_page [0..<64]) = \<lparr>rg_magic = V4V_RING_MAGIC,
     rg_id = \<lparr>id_addr = \<lparr>a_port = 9, a_domain = 0\<rparr>, id_partner = V4V_DOMID_DM\<rparr>, rg_len = 64, rg_rx_ptr = 0, rg_tx_ptr = 0\<rparr>"
  by (simp add: parse_ring_def get_field_def take_map drop_map upt_rec V4V_RING_MAGIC_def domid_consts reg_page_def)

lemma reg_channel: "v4v_validate_channel sample_hyp x 1 V4V_DOMID_DM pre = Inr (1, 0)"
  by (simp add: v4v_validate_channel_def Let_def v4v_dm_domid_def sample_hyp_def domid_consts word_le_nat_alt)

lemma reg_check: "\<exists>m. ring_add_check sample_hyp 1 0 0 reg_xen =
    (Inr (\<lparr>id_addr = \<lparr>a_port = 9, a_domain = 1\<rparr>, id_partner = 0\<rparr>, 64, 0), reg_xen\<lparr>xmem := m\<rparr>) \<and> m 11 = reg_list"
proof -
  have "copy_in sample_hyp reg_xen 0 64 = Inr (map reg_page [0..<64])" by (rule reg_header) (simp add: reg_xen_def)
  moreover note reg_parse
  moreover have "V4V_ROUNDUP 64 = 64" "V4V_ROUNDUP 1 = 16" "V4V_ROUNDUP 0 = 0" by (simp_all add: V4V_ROUNDUP_def)
  moreover note reg_channel [of reg_xen False]
  moreover have "copy_out sample_hyp 8 bs reg_xen = (None, reg_xen\<lparr>xmem := page_write (xmem reg_xen) 10 8 bs\<rparr>)"
    if "length bs = 8" for bs using reg_copy_out [of bs 8 reg_xen] that by (cases bs) (simp_all add: PAGE_SIZE_def)
  moreover have "page_write (xmem reg_xen) 10 8 bs 11 = reg_list" for bs by (simp add: page_write_def reg_xen_def)
  ultimately show ?thesis
    by (simp add: ring_add_check_def add_partner_def add_tx_ptr_def SIZEOF_RING_def SIZEOF_MH_def V4V_MAX_RING_SIZE_def
        encode_ring_id_def Let_def domid_consts) blast
qed

lemma reg_mfns:
  assumes "m 11 = reg_list" "info = new_info rid\<lparr>ri_ring := 0\<rparr>"
  shows "\<exists>r. v4v_find_ring_mfns sample_hyp 1 m info 4096 64 (\<lambda>_. 0) =
    (None, info\<lparr>ri_npage := 1, ri_mfns := Some [Some 10], ri_nmfns := 1, ri_mfn_mapping := Some [Null]\<rparr>, r)"
proof -
  have d: "(4096 + x) div 4096 = (1 :: nat)" if "x < 40" for x using that by simp
  have "copy_from_guest_errno (cur sample_env) m 4096 40 = Inr (map reg_list [0..<40])"
    using assms(1) by (intro copy_from_guest_errno_okay)
      (auto simp: d guest_ready_def must_retry_def guest_bytes_def guest_frame_def hvm_xlate_def sample_env_def PAGE_SIZE_def)
  moreover have "get_field (map reg_list [0..<40]) 0 8 = V4V_PFN_LIST_MAGIC" "get_field (map reg_list [0..<40]) 8 4 = 1"
    by (simp_all add: get_field_def take_map drop_map upt_rec V4V_PFN_LIST_MAGIC_def reg_list_def)
  moreover have "copy_from_guest_errno (cur sample_env) m 4136 8 = Inr (map reg_list [40..<48])"
    using assms(1) by (intro copy_from_guest_errno_okay)
      (simp_all add: guest_ready_def must_retry_def guest_bytes_def guest_frame_def hvm_xlate_def sample_env_def PAGE_SIZE_def upt_rec)
  moreover have "le_val (map reg_list [40..<48]) = 0" by (simp add: upt_rec reg_list_def)
  moreover have "henv sample_hyp = sample_env" "xmalloc_ok sample_hyp = (\<lambda>_. True)" "get_page_ok sample_hyp = (\<lambda>_. True)"
    "current_id sample_hyp = 1" by (simp_all add: sample_hyp_def)
  ultimately show ?thesis
    by (simp add: v4v_find_ring_mfns_def recheck_mfns_def alloc_mfns_def assms(2) new_info_def read_pfn_def v4v_find_ring_mfn_def
        PAGE_SIZE_def V4V_MAX_RING_SIZE_def u32_def u64_def) (simp add: sample_env_def)
qed

lemma reg_ok: "fst (do_v4v_op sample_hyp V4VOP_register_ring 0 4096 0 0 0 reg_xen) = Inr 0"
proof -
  let ?rid = "\<lparr>id_addr = \<lparr>a_port = 9, a_domain = 1\<rparr>, id_partner = 0\<rparr>"
  obtain m where c: "ring_add_check sample_hyp 1 0 0 reg_xen = (Inr (?rid, 64, 0), reg_xen\<lparr>xmem := m\<rparr>)" "m 11 = reg_list"
    using reg_check by blast
  have t: "dom_table reg_xen 1 = Some tbl_empty" by (simp add: reg_xen_def dom_table_def dom_find_def sample_domain_def)
  have h: "henv sample_hyp = sample_env" "xmalloc_ok sample_hyp = (\<lambda>_. True)" "current_id sample_hyp = 1"
    "is_sys_privileged sample_hyp = False" "page_refs reg_xen = (\<lambda>_. 0)" by (simp_all add: sample_hyp_def reg_xen_def)
  have o: "okay sample_hyp a n" for a n by (simp add: okay_def sample_hyp_def sample_env_def)
  obtain r where f: "v4v_find_ring_mfns sample_hyp 1 m (new_info ?rid\<lparr>ri_ring := 0\<rparr>) 4096 64 (\<lambda>_. 0) =
    (None, new_info ?rid\<lparr>ri_ring := 0, ri_npage := 1, ri_mfns := Some [Some 10], ri_nmfns := 1, ri_mfn_mapping := Some [Null]\<rparr>, r)"
    using reg_mfns [of m "new_info ?rid\<lparr>ri_ring := 0\<rparr>" ?rid] c(2) by auto
  have n: "new_info ?rid\<lparr>ri_tx_ptr := 0, ri_ring := 0\<rparr> = new_info ?rid\<lparr>ri_ring := 0\<rparr>" by (simp add: new_info_def)
  have "\<exists>x2. ring_add_install sample_hyp 1 ?rid 64 0 0 4096 0 (reg_xen\<lparr>xmem := m\<rparr>) = (None, x2)"
    using t f by (simp add: ring_add_install_def ring_add_publish_def tbl_lookup_empty h n v4v_ring_map_page_def Let_def)
      (simp add: sample_env_def)
  then show ?thesis
    using c t by (auto simp: do_v4v_op_def v4v_ops h o v4v_ring_add_def status_def)
qed

theorem register_establishes_ring_witness:
  "\<exists>tbl info. dom_table (snd (do_v4v_op sample_hyp V4VOP_register_ring 0 4096 0 0 0 reg_xen)) 1 = Some tbl \<and>
    v4v_ring_find_info tbl \<lparr>id_addr = \<lparr>a_port = 9, a_domain = 1\<rparr>, id_partner = 0\<rparr> = Some info \<and> ri_inv info \<and> ri_len info = 64"
proof -
  have "xen_inv reg_xen"
    using tbl_ok_empty by (auto simp: xen_inv_def reg_xen_def dom_table_def dom_find_def sample_domain_def split: if_splits)
  from register_establishes_ring [OF this, of sample_hyp 0 4096 0 0 0] show ?thesis
    using reg_check reg_ok by (cases "do_v4v_op sample_hyp V4VOP_register_ring 0 4096 0 0 0 reg_xen") (auto simp: sample_hyp_def)
qed

section \<open>Removal and refusals\<close>

text \<open>
  C17.  Removing a ring.  \<open>V4VOP_unregister_ring\<close> either fails and changes nothing, or it removes
  exactly one of the caller's rings, with its pending requests, and leaves every other ring of
  the caller as it was; calling it again for the same ring is \<open>ENOENT\<close>.
\<close>

theorem unregister_removes:
  assumes inv: "xen_inv x" and op: "do_v4v_op env V4VOP_unregister_ring a1 a2 a3 a4 a5 x = (rc, x')"
  shows "(\<exists>e. rc = Inl e) \<and> x' = x \<or>
    rc = Inr 0 \<and> xmem x' = xmem x \<and>
    (\<exists>tbl tbl' info. dom_table x (current_id env) = Some tbl \<and> dom_table x' (current_id env) = Some tbl' \<and>
      v4v_ring_find_info tbl (ri_id info) = Some info \<and>
      v4v_ring_find_info tbl' = (v4v_ring_find_info tbl)(ri_id info := None)) \<and>
    do_v4v_op env V4VOP_unregister_ring a1 a2 a3 a4 a5 x' = (Inl ENOENT, x')"
proof -
  let ?c = "current_id env"
  have u: "do_v4v_op env V4VOP_unregister_ring a1 a2 a3 a4 a5 z =
      (if IS_HOST ?c \<and> \<not> is_sys_privileged env then (Inl EPERM, z) else if \<not> okay env a1 64 then (Inl EFAULT, z)
       else status (v4v_ring_remove env ?c a1 z))" for z
    by (simp add: do_v4v_op_def v4v_ops Let_def)
  show ?thesis
  proof (cases "\<exists>e. rc = Inl e")
    case True
    have "snd (v4v_ring_remove env ?c a1 x) = x \<or> fst (v4v_ring_remove env ?c a1 x) = None"
      by (auto simp: v4v_ring_remove_def Let_def split: option.splits sum.splits)
    then show ?thesis
      using True op u [of x] by (auto simp: status_def split: if_splits prod.splits option.splits)
  next
    case False
    then have g: "\<not> (IS_HOST ?c \<and> \<not> is_sys_privileged env)" "okay env a1 64" "v4v_ring_remove env ?c a1 x = (None, x')" "rc = Inr 0"
      using op u [of x] by (auto simp: status_def split: if_splits prod.splits option.splits)
    obtain tbl bs s p info where r: "dom_table x ?c = Some tbl" "copy_in env x a1 SIZEOF_RING = Inr bs"
      "rg_magic (parse_ring bs) = V4V_RING_MAGIC"
      "v4v_validate_channel env x ?c (id_partner (rg_id (parse_ring bs))) True = Inr (s, p)"
      "v4v_ring_find_info tbl \<lparr>id_addr = \<lparr>a_port = a_port (id_addr (rg_id (parse_ring bs))), a_domain = s\<rparr>, id_partner = p\<rparr> = Some info"
      "x' = v4v_ring_remove_info ?c info (\<not> IS_HOST ?c) x"
      using g(3) by (auto simp: v4v_ring_remove_def Let_def split: option.splits sum.splits if_splits)
    let ?rid = "\<lparr>id_addr = \<lparr>a_port = a_port (id_addr (rg_id (parse_ring bs))), a_domain = s\<rparr>, id_partner = p\<rparr>"
    have ok: "tbl_ok ?c tbl" using inv r(1) by (simp add: xen_inv_def)
    have k: "ri_id info = ?rid" using tbl_okD(2) [OF ok r(5)] by simp
    have t': "dom_table x' ?c = Some (tbl_del (ri_id info) tbl)" "xmem x' = xmem x"
      using r(1,6) by (simp_all add: v4v_ring_remove_info_def dom_table_upd_table)
    have d: "v4v_ring_find_info (tbl_del (ri_id info) tbl) = (v4v_ring_find_info tbl)(ri_id info := None)"
      by (rule ht.lookup_del [OF tbl_okD(1) [OF ok]])
    have "v4v_validate_channel env x' = v4v_validate_channel env x"
      by (auto simp: fun_eq_iff v4v_validate_channel_def rcu_lock_remote_target_domain_by_id_def rcu_lock_domain_by_id_def
          r(6) v4v_ring_remove_info_def dom_find_upd_table split: option.splits)
    then have "v4v_ring_remove env ?c a1 x' = (Some ENOENT, x')"
      using r(2-4) t' d k by (simp add: v4v_ring_remove_def copy_in_def)
    then have "do_v4v_op env V4VOP_unregister_ring a1 a2 a3 a4 a5 x' = (Inl ENOENT, x')"
      using u [of x'] g(1,2) by (simp add: status_def)
    moreover have "v4v_ring_find_info tbl (ri_id info) = Some info" using r(5) k by simp
    ultimately show ?thesis using g(4) t' d r(1) by blast
  qed
qed

text \<open>Domain 1 removes the ring its header names.\<close>

definition unreg_xen :: xen where
  "unreg_xen = reg_xen\<lparr>domain_list :=
     [sample_domain 1 (tbl_add (new_info \<lparr>id_addr = \<lparr>a_port = 9, a_domain = 1\<rparr>, id_partner = 0\<rparr>) tbl_empty)]\<rparr>"

theorem unregister_removes_witness:
  "do_v4v_op sample_hyp V4VOP_unregister_ring 0 0 0 0 0
     (snd (do_v4v_op sample_hyp V4VOP_unregister_ring 0 0 0 0 0 unreg_xen)) =
   (Inl ENOENT, snd (do_v4v_op sample_hyp V4VOP_unregister_ring 0 0 0 0 0 unreg_xen))"
proof -
  let ?rid = "\<lparr>id_addr = \<lparr>a_port = 9, a_domain = 1\<rparr>, id_partner = 0\<rparr>"
  let ?t = "tbl_add (new_info ?rid) tbl_empty"
  have t: "dom_table unreg_xen i = (if i = 1 then Some ?t else None)" for i
    by (simp add: unreg_xen_def dom_table_def dom_find_def sample_domain_def)
  have "tbl_ok 1 ?t" by (rule tbl_ok_add [OF tbl_ok_empty]) (simp_all add: tbl_lookup_empty)
  then have inv: "xen_inv unreg_xen" using t by (simp add: xen_inv_def unreg_xen_def)
  have f: "v4v_ring_find_info ?t ?rid = Some (new_info ?rid)"
    using tbl_lookup_add [OF tbl_inv_empty, of "new_info ?rid"] by (simp add: new_info_def)
  have "copy_in sample_hyp unreg_xen 0 64 = Inr (map reg_page [0..<64])"
    by (rule reg_header) (simp add: unreg_xen_def reg_xen_def)
  then have "fst (v4v_ring_remove sample_hyp 1 0 unreg_xen) = None"
    using t [of 1] f reg_parse reg_channel [of unreg_xen True] by (simp add: v4v_ring_remove_def SIZEOF_RING_def)
  then have "fst (do_v4v_op sample_hyp V4VOP_unregister_ring 0 0 0 0 0 unreg_xen) = Inr 0"
    by (auto simp: do_v4v_op_def v4v_ops status_def okay_def sample_hyp_def sample_env_def split: prod.splits)
  then show ?thesis
    using unregister_removes [OF inv, of sample_hyp 0 0 0 0 0]
    by (cases "do_v4v_op sample_hyp V4VOP_unregister_ring 0 0 0 0 0 unreg_xen") auto
qed

end
