(* ===== verification/Rangeset.thy ===== *)
theory Rangeset
  imports Uxen_Prelude "HOL-Library.Monad_Syntax"
begin

text \<open>
  Sets of numeric ranges, \<open>xen/common/rangeset.c\<close>: the sorted list of disjoint, non-adjacent ranges
  behind a domain's I/O-memory, I/O-port and interrupt capabilities, and its update and query
  operations.  The lemmas show that the list is a
  canonical representation of a set of 64-bit numbers, that adding is union, what removing
  really removes, and that the queries decide inclusion and intersection.

  A pointer to a range is its position in the list, \<open>None\<close> the null pointer.  A dereference of the
  null pointer makes the result of an operation \<open>None\<close>.  The checks \<open>ASSERT (s <= e)\<close>, which only
  debugging builds have, are hypotheses of the lemmas; locks are left out.
\<close>

section \<open>Ranges\<close>

record range_ent =
  r_s :: nat
  r_e :: nat

type_synonym ranges = "range_ent list"
type_synonym rptr = "nat option"

fun find_range_loop :: "ranges \<Rightarrow> nat \<Rightarrow> rptr \<Rightarrow> nat \<Rightarrow> rptr" where
  "find_range_loop [] i x s = x"
| "find_range_loop (y # ys) i x s = (if s < r_s y then x else find_range_loop ys (Suc i) (Some i) s)"

definition find_range :: "ranges \<Rightarrow> nat \<Rightarrow> rptr" where
  "find_range l s = find_range_loop l 0 None s"

definition first_range :: "ranges \<Rightarrow> rptr" where
  "first_range l = (if l = [] then None else Some 0)"

definition next_range :: "ranges \<Rightarrow> nat \<Rightarrow> rptr" where
  "next_range l x = (if Suc x < length l then Some (Suc x) else None)"

definition insert_range :: "ranges \<Rightarrow> rptr \<Rightarrow> range_ent \<Rightarrow> ranges" where
  "insert_range l x y = (case x of None \<Rightarrow> y # l | Some i \<Rightarrow> take (Suc i) l @ y # drop (Suc i) l)"

definition destroy_range :: "ranges \<Rightarrow> nat \<Rightarrow> ranges" where
  "destroy_range l x = take x l @ drop (Suc x) l"

section \<open>Adding and removing\<close>

text \<open>\<open>(x->e < s) && ((x->e + 1) != s)\<close>: the range ends before \<open>s\<close> and does not touch it.\<close>

definition ends_before :: "range_ent \<Rightarrow> nat \<Rightarrow> bool" where
  "ends_before x s \<longleftrightarrow> r_e x < s \<and> u64 (r_e x + 1) \<noteq> s"

text \<open>The loop that destroys the ranges covered by the one at \<open>x\<close>.\<close>

function absorb :: "ranges \<Rightarrow> nat \<Rightarrow> ranges" where
  "absorb l x =
     (case next_range l x of
        None \<Rightarrow> l
      | Some y \<Rightarrow> if r_e (l ! x) < r_e (l ! y) then l else absorb (destroy_range l y) x)"
  by pat_completeness auto

termination
  by (relation "measure (\<lambda>(l, x). length l)")
    (auto simp: next_range_def destroy_range_def split: if_splits)

text \<open>The end of \<open>rangeset_add_range\<close>: join the range at \<open>x\<close> with the next one if they touch.\<close>

definition join_next :: "ranges \<Rightarrow> nat \<Rightarrow> ranges" where
  "join_next l x =
     (case next_range l x of
        None \<Rightarrow> l
      | Some y \<Rightarrow>
          if u64 (r_e (l ! x) + 1) = r_s (l ! y)
          then destroy_range (l[x := (l ! x)\<lparr>r_e := r_e (l ! y)\<rparr>]) y else l)"

text \<open>
  The two branches of \<open>rangeset_add_range\<close>.  In the first, \<open>find_range\<close> gives the same range for both
  ends; in the second, \<open>x\<close> becomes the range that is widened.  \<open>ok\<close> tells whether \<open>xmalloc\<close> succeeds.
\<close>

definition add_same :: "bool \<Rightarrow> ranges \<Rightarrow> rptr \<Rightarrow> nat \<Rightarrow> nat \<Rightarrow> errno option \<times> ranges" where
  "add_same ok l x s e =
     (case x of
        None \<Rightarrow>
          if ok then (None, join_next (insert_range l None \<lparr>r_s = s, r_e = e\<rparr>) 0) else (Some ENOMEM, l)
      | Some i \<Rightarrow>
          if ends_before (l ! i) s then
            (if ok then (None, join_next (insert_range l (Some i) \<lparr>r_s = s, r_e = e\<rparr>) (Suc i))
             else (Some ENOMEM, l))
          else (None, join_next (if r_e (l ! i) < e then l[i := (l ! i)\<lparr>r_e := e\<rparr>] else l) i))"

definition add_span :: "ranges \<Rightarrow> rptr \<Rightarrow> rptr \<Rightarrow> nat \<Rightarrow> nat \<Rightarrow> (errno option \<times> ranges) option" where
  "add_span l x y s e =
     do {
       (l1, i) \<leftarrow> (case x of
           None \<Rightarrow> do { f \<leftarrow> first_range l; Some (l[f := (l ! f)\<lparr>r_s := s\<rparr>], f) }
         | Some i \<Rightarrow>
             if ends_before (l ! i) s
             then do { n \<leftarrow> next_range l i; Some (l[n := (l ! n)\<lparr>r_s := s\<rparr>], n) }
             else Some (l, i));
       j \<leftarrow> y;
       let e' = (if e < r_e (l1 ! j) then r_e (l1 ! j) else e) in
       Some (None, join_next (absorb (l1[i := (l1 ! i)\<lparr>r_e := e'\<rparr>]) i) i)
     }"

text \<open>\<open>xsm\<close> is the answer of the security module, \<open>None\<close> when it allows the change.\<close>

definition rangeset_add_range ::
  "errno option \<Rightarrow> bool \<Rightarrow> ranges \<Rightarrow> nat \<Rightarrow> nat \<Rightarrow> (errno option \<times> ranges) option" where
  "rangeset_add_range xsm ok l s e =
     (if xsm \<noteq> None then Some (xsm, l)
      else let x = find_range l s; y = find_range l e
           in if x = y then Some (add_same ok l x s e) else add_span l x y s e)"

text \<open>
  The loop of \<open>rangeset_remove_range\<close> that destroys the ranges from \<open>x\<close> up to \<open>y\<close>.  Destroying the
  range at \<open>x\<close> moves the ones behind it one position to the front: the next range is at \<open>x\<close> then, and
  \<open>y\<close> one position before.  Running off the end of the list is a null dereference.
\<close>

function destroy_until :: "ranges \<Rightarrow> nat \<Rightarrow> nat \<Rightarrow> (ranges \<times> nat) option" where
  "destroy_until l x y =
     (if x = y then Some (l, x)
      else if length l \<le> x then None
      else destroy_until (destroy_range l x) x (y - 1))"
  by pat_completeness auto

termination
  by (relation "measure (\<lambda>(l, x, y). length l)") (auto simp: destroy_range_def)

definition remove_same :: "bool \<Rightarrow> ranges \<Rightarrow> rptr \<Rightarrow> nat \<Rightarrow> nat \<Rightarrow> errno option \<times> ranges" where
  "remove_same ok l x s e =
     (case x of
        None \<Rightarrow> (None, l)
      | Some i \<Rightarrow>
          (let a = l ! i
           in if r_e a < s then (None, l)
              else if r_s a < s \<and> e < r_e a then
                (if ok
                 then (None, insert_range (l[i := a\<lparr>r_e := u64 (s + 2 ^ 64 - 1)\<rparr>]) (Some i)
                         \<lparr>r_s = u64 (e + 1), r_e = r_e a\<rparr>)
                 else (Some ENOMEM, l))
              else if r_s a = s \<and> r_e a \<le> e then (None, destroy_range l i)
              else if r_s a = s then (None, l[i := a\<lparr>r_s := u64 (e + 1)\<rparr>])
              else if r_e a \<le> e then (None, l[i := a\<lparr>r_e := u64 (s + 2 ^ 64 - 1)\<rparr>])
              else (None, l)))"

text \<open>The end of the second branch: the last range is cut to what lies behind \<open>e\<close>.\<close>

definition cut_front :: "ranges \<Rightarrow> nat \<Rightarrow> nat \<Rightarrow> ranges" where
  "cut_front l x e =
     (let l1 = l[x := (l ! x)\<lparr>r_s := u64 (e + 1)\<rparr>]
      in if r_e (l1 ! x) < r_s (l1 ! x) then destroy_range l1 x else l1)"

definition remove_span :: "ranges \<Rightarrow> rptr \<Rightarrow> rptr \<Rightarrow> nat \<Rightarrow> nat \<Rightarrow> (errno option \<times> ranges) option" where
  "remove_span l x y s e =
     do {
       i \<leftarrow> (case x of None \<Rightarrow> first_range l | Some i \<Rightarrow> Some i);
       (l1, i1) \<leftarrow>
         (if r_s (l ! i) < s
          then do { n \<leftarrow> next_range l i; Some (l[i := (l ! i)\<lparr>r_e := u64 (s + 2 ^ 64 - 1)\<rparr>], n) }
          else Some (l, i));
       j \<leftarrow> y;
       (l2, i2) \<leftarrow> destroy_until l1 i1 j;
       Some (None, cut_front l2 i2 e)
     }"

definition rangeset_remove_range ::
  "errno option \<Rightarrow> bool \<Rightarrow> ranges \<Rightarrow> nat \<Rightarrow> nat \<Rightarrow> (errno option \<times> ranges) option" where
  "rangeset_remove_range xsm ok l s e =
     (if xsm \<noteq> None then Some (xsm, l)
      else let x = find_range l s; y = find_range l e
           in if x = y then Some (remove_same ok l x s e) else remove_span l x y s e)"

section \<open>Queries\<close>

definition rangeset_contains_range :: "ranges \<Rightarrow> nat \<Rightarrow> nat \<Rightarrow> bool" where
  "rangeset_contains_range l s e = (case find_range l s of None \<Rightarrow> False | Some x \<Rightarrow> e \<le> r_e (l ! x))"

definition rangeset_overlaps_range :: "ranges \<Rightarrow> nat \<Rightarrow> nat \<Rightarrow> bool" where
  "rangeset_overlaps_range l s e = (case find_range l e of None \<Rightarrow> False | Some x \<Rightarrow> s \<le> r_e (l ! x))"

text \<open>
  The callback of \<open>rangeset_report_ranges\<close> works on a context of its own, \<open>'c\<close>, and returns 0 to go on.
\<close>

function report_loop :: "(nat \<Rightarrow> nat \<Rightarrow> 'c \<Rightarrow> int \<times> 'c) \<Rightarrow> ranges \<Rightarrow> nat \<Rightarrow> nat \<Rightarrow> rptr \<Rightarrow> int \<times> 'c \<Rightarrow> int \<times> 'c" where
  "report_loop cb l s e x (rc, c) =
     (case x of
        None \<Rightarrow> (rc, c)
      | Some i \<Rightarrow>
          if length l \<le> i then (rc, c)
          else if r_s (l ! i) \<le> e \<and> rc = 0 then
            report_loop cb l s e (next_range l i)
              (if s \<le> r_e (l ! i) then cb (max (r_s (l ! i)) s) (min (r_e (l ! i)) e) c else (rc, c))
          else (rc, c))"
  by pat_completeness auto

termination
  by (relation "measure (\<lambda>(cb, l, s, e, x, c). case x of None \<Rightarrow> 0 | Some i \<Rightarrow> length l - i)")
    (auto simp: next_range_def)

definition rangeset_report_ranges :: "(nat \<Rightarrow> nat \<Rightarrow> 'c \<Rightarrow> int \<times> 'c) \<Rightarrow> ranges \<Rightarrow> nat \<Rightarrow> nat \<Rightarrow> 'c \<Rightarrow> int \<times> 'c" where
  "rangeset_report_ranges cb l s e ctxt = report_loop cb l s e (find_range l s) (0, ctxt)"

definition rangeset_add_singleton :: "errno option \<Rightarrow> bool \<Rightarrow> ranges \<Rightarrow> nat \<Rightarrow> (errno option \<times> ranges) option" where
  "rangeset_add_singleton xsm ok l s = rangeset_add_range xsm ok l s s"

definition rangeset_remove_singleton :: "errno option \<Rightarrow> bool \<Rightarrow> ranges \<Rightarrow> nat \<Rightarrow> (errno option \<times> ranges) option" where
  "rangeset_remove_singleton xsm ok l s = rangeset_remove_range xsm ok l s s"

definition rangeset_contains_singleton :: "ranges \<Rightarrow> nat \<Rightarrow> bool" where
  "rangeset_contains_singleton l s = rangeset_contains_range l s s"

text \<open>\<open>rangeset_is_empty\<close> takes a pointer that may be null.\<close>

definition rangeset_is_empty :: "ranges option \<Rightarrow> bool" where
  "rangeset_is_empty r = (case r of None \<Rightarrow> True | Some l \<Rightarrow> l = [])"

section \<open>The set a list of ranges stands for\<close>

definition rs_wf :: "ranges \<Rightarrow> bool" where
  "rs_wf l \<longleftrightarrow> sorted_wrt (\<lambda>x y. r_e x + 1 < r_s y) l \<and> (\<forall>x\<in>set l. r_s x \<le> r_e x \<and> r_e x < 2 ^ 64)"

definition rs_set :: "ranges \<Rightarrow> nat set" where
  "rs_set l = (\<Union>x\<in>set l. {r_s x..r_e x})"

lemma rs_wf_append:
  "rs_wf (A @ B) \<longleftrightarrow> rs_wf A \<and> rs_wf B \<and> (\<forall>a\<in>set A. \<forall>b\<in>set B. r_e a + 1 < r_s b)"
  by (auto simp: rs_wf_def sorted_wrt_append)

lemma rs_wf_Cons:
  "rs_wf (a # B) \<longleftrightarrow> r_s a \<le> r_e a \<and> r_e a < 2 ^ 64 \<and> rs_wf B \<and> (\<forall>b\<in>set B. r_e a + 1 < r_s b)"
  by (auto simp: rs_wf_def)

lemma rs_wf_Nil [simp]: "rs_wf []"
  by (simp add: rs_wf_def)

lemma rs_set_append [simp]: "rs_set (A @ B) = rs_set A \<union> rs_set B"
  by (auto simp: rs_set_def)

lemma rs_set_Cons [simp]: "rs_set (a # B) = {r_s a..r_e a} \<union> rs_set B"
  by (auto simp: rs_set_def)

lemma rs_set_Nil [simp]: "rs_set [] = {}"
  by (simp add: rs_set_def)

lemmas rs_wf_simps = rs_wf_append rs_wf_Cons

lemma rs_wf_mem: "rs_wf l \<Longrightarrow> a \<in> set l \<Longrightarrow> r_s a \<le> r_e a \<and> r_e a < 2 ^ 64"
  by (simp add: rs_wf_def)

text \<open>Where a number splits a well-formed list, and what \<open>find_range\<close> finds there.\<close>

lemma find_range_loop_split:
  "\<forall>a\<in>set A. r_s a \<le> s \<Longrightarrow> \<forall>c\<in>set C. s < r_s c \<Longrightarrow>
    find_range_loop (A @ C) i x s = (if A = [] then x else Some (i + length A - 1))"
  by (induction A arbitrary: i x) (cases C, auto)

lemma find_range_split:
  "\<forall>a\<in>set A. r_s a \<le> s \<Longrightarrow> \<forall>c\<in>set C. s < r_s c \<Longrightarrow>
    find_range (A @ C) s = (if A = [] then None else Some (length A - 1))"
  unfolding find_range_def by (simp add: find_range_loop_split)

lemma rs_wf_split:
  assumes "rs_wf l"
  obtains A C where "l = A @ C" "\<forall>a\<in>set A. r_s a \<le> s" "\<forall>c\<in>set C. s < r_s c"
proof -
  have "\<exists>A C. l = A @ C \<and> (\<forall>a\<in>set A. r_s a \<le> s) \<and> (\<forall>c\<in>set C. s < r_s c)"
    using assms
  proof (induction l)
    case (Cons y ys)
    show ?case
    proof (cases "r_s y \<le> s")
      case True
      obtain A C where "ys = A @ C" "\<forall>a\<in>set A. r_s a \<le> s" "\<forall>c\<in>set C. s < r_s c"
        using Cons by (auto simp: rs_wf_Cons)
      with True show ?thesis by (intro exI [of _ "y # A"] exI [of _ C]) auto
    next
      case False
      then have "\<forall>c\<in>set (y # ys). s < r_s c" using Cons.prems by (force simp: rs_wf_Cons)
      then show ?thesis by (intro exI [of _ "[]"] exI [of _ "y # ys"]) auto
    qed
  qed simp
  with that show thesis by blast
qed

lemma rs_wf_split2:
  assumes "rs_wf l" "s \<le> e"
  obtains A B C where "l = A @ B @ C" "\<forall>a\<in>set A. r_s a \<le> s" "\<forall>b\<in>set B. s < r_s b \<and> r_s b \<le> e"
    "\<forall>c\<in>set C. e < r_s c"
    "find_range l s = (if A = [] then None else Some (length A - 1))"
    "find_range l e = (if A @ B = [] then None else Some (length (A @ B) - 1))"
proof -
  obtain A D where A: "l = A @ D" "\<forall>a\<in>set A. r_s a \<le> s" "\<forall>c\<in>set D. s < r_s c" by (rule rs_wf_split [OF assms(1)])
  obtain B C where B: "D = B @ C" "\<forall>b\<in>set B. r_s b \<le> e" "\<forall>c\<in>set C. e < r_s c"
    by (rule rs_wf_split [of D]) (use assms(1) A(1) in \<open>auto simp: rs_wf_append\<close>)
  have "find_range l s = (if A = [] then None else Some (length A - 1))"
    using find_range_split [of A s D] A by simp
  moreover have "find_range (A @ B @ C) e = (if A @ B = [] then None else Some (length (A @ B) - 1))"
    using find_range_split [of "A @ B" e C] A(2) B assms(2) by fastforce
  ultimately show thesis using that [of A B C] A B by auto
qed

section \<open>Adding is union\<close>

lemma next_range_at [simp]: "next_range (A @ m # C) (length A) = (if C = [] then None else Some (Suc (length A)))"
  by (simp add: next_range_def)

lemma destroy_range_at [simp]: "destroy_range (A @ m # C) (length A) = A @ C"
  by (simp add: destroy_range_def)

lemma destroy_range_next [simp]: "destroy_range (A @ m # b # C) (Suc (length A)) = A @ m # C"
  using destroy_range_at [of "A @ [m]" b C] by simp

lemma insert_range_at: "insert_range (A @ a # C) (Some (length A)) y = A @ a # y # C"
  by (simp add: insert_range_def)

lemma join_next_at:
  "join_next (A @ m # C) (length A) =
    (case C of [] \<Rightarrow> A @ [m]
     | c # C' \<Rightarrow> if u64 (r_e m + 1) = r_s c then A @ m\<lparr>r_e := r_e c\<rparr> # C' else A @ m # c # C')"
  by (auto simp: join_next_def nth_append split: list.split)

text \<open>One range between two well-formed lists, joined with the next one if they touch.\<close>

lemma join_next_set:
  assumes "rs_wf A" "rs_wf C" "r_s m \<le> r_e m" "r_e m < 2 ^ 64"
    and A: "\<forall>a\<in>set A. r_e a + 1 < r_s m" and C: "\<forall>c\<in>set C. r_e m < r_s c"
  shows "rs_wf (join_next (A @ m # C) (length A)) \<and>
    rs_set (join_next (A @ m # C) (length A)) = rs_set A \<union> {r_s m..r_e m} \<union> rs_set C"
proof (cases C)
  case Nil
  then show ?thesis using assms by (auto simp: join_next_at rs_wf_simps)
next
  case (Cons c C')
  have c: "r_s c \<le> r_e c" "r_e c < 2 ^ 64" "r_e m < r_s c" "\<forall>d\<in>set C'. r_e c + 1 < r_s d" "rs_wf C'"
    using assms(2) C Cons by (auto simp: rs_wf_Cons)
  then have u: "u64 (r_e m + 1) = r_e m + 1" by simp
  have d: "\<forall>a\<in>set A. \<forall>d\<in>set C'. r_e a + 1 < r_s d" "\<forall>d\<in>set C'. r_e m + 1 < r_s d" "\<forall>a\<in>set A. r_e a + 1 < r_s c"
    using A assms(3) c by fastforce+
  show ?thesis
  proof (cases "r_e m + 1 = r_s c")
    case True
    then have "{r_s m..r_e c} = {r_s m..r_e m} \<union> {r_s c..r_e c}" using c assms(3) by auto
    then show ?thesis using True u Cons c d assms(1,3) A by (auto simp: join_next_at rs_wf_simps)
  next
    case False
    then show ?thesis using u Cons c d assms A by (auto simp: join_next_at rs_wf_simps)
  qed
qed

lemma absorb_at:
  "\<forall>b\<in>set B. r_e b \<le> r_e m \<Longrightarrow> \<forall>c\<in>set C. r_e m < r_e c \<Longrightarrow> absorb (A @ m # B @ C) (length A) = A @ m # C"
proof (induction B)
  case Nil
  then show ?case by (cases C) (simp_all add: nth_append)
next
  case (Cons b B)
  then have "absorb (A @ m # (b # B) @ C) (length A) = absorb (A @ m # B @ C) (length A)"
    by (subst absorb.simps) (simp add: nth_append)
  with Cons show ?case by simp
qed

declare absorb.simps [simp del]

lemma ends_before_iff:
  assumes "s < 2 ^ 64"
  shows "ends_before a s \<longleftrightarrow> r_e a + 1 < s"
proof (cases "r_e a < s")
  case True
  then have "u64 (r_e a + 1) = r_e a + 1" using assms by simp
  then show ?thesis using True by (auto simp: ends_before_def)
qed (simp add: ends_before_def)

lemma list_update_at [simp]: "(A @ m # C)[length A := v] = A @ v # C"
  by (induction A) auto

text \<open>The ranges before \<open>s\<close> that do not touch it, and the last one when it does.\<close>

lemma wf_before:
  assumes "rs_wf (A @ [a])" "r_s a \<le> s"
  shows "\<forall>b\<in>set A. r_e b + 1 < r_s a" "r_s a \<le> r_e a" "r_e a < 2 ^ 64" "rs_wf A"
    "r_e a + 1 < s \<Longrightarrow> \<forall>b\<in>set (A @ [a]). r_e b + 1 < s"
  using assms by (fastforce simp: rs_wf_simps)+

lemma add_same_set:
  assumes wf: "rs_wf (A @ C)" and se: "s \<le> e" "e < 2 ^ 64"
    and A: "\<forall>a\<in>set A. r_s a \<le> s" and C: "\<forall>c\<in>set C. e < r_s c"
    and x: "x = (if A = [] then None else Some (length A - 1))"
    and r: "add_same ok (A @ C) x s e = (rc, l')"
  shows "rc = Some ENOMEM \<and> l' = A @ C \<and> \<not> ok \<or>
    rc = None \<and> rs_wf l' \<and> rs_set l' = rs_set (A @ C) \<union> {s..e}"
proof (cases A rule: rev_cases)
  case Nil
  then show ?thesis
    using r x join_next_set [of "[]" C "\<lparr>r_s = s, r_e = e\<rparr>"] wf se C
    by (auto simp: add_same_def insert_range_def split: if_splits)
next
  case (snoc A' a)
  have s: "s < 2 ^ 64" and wA: "rs_wf (A' @ [a])" "rs_wf C" and ac: "\<forall>c\<in>set C. r_e a + 1 < r_s c"
    using se wf snoc by (auto simp: rs_wf_simps)
  note W = wf_before [OF wA(1), of s]
  have a: "r_s a \<le> s" using A snoc by simp
  show ?thesis
  proof (cases "r_e a + 1 < s")
    case True
    have "\<forall>b\<in>set A. r_e b + 1 < s" using W(5) [OF a True] snoc by simp
    moreover have "insert_range (A @ C) x \<lparr>r_s = s, r_e = e\<rparr> = A @ \<lparr>r_s = s, r_e = e\<rparr> # C"
      using insert_range_at [of A' a C] snoc x by simp
    ultimately show ?thesis
      using r x True snoc se wA C ends_before_iff [OF s, of a] join_next_set [of A C "\<lparr>r_s = s, r_e = e\<rparr>"]
      by (auto simp: add_same_def nth_append split: if_splits)
  next
    case False
    let ?m = "a\<lparr>r_e := max (r_e a) e\<rparr>"
    have l: "l' = join_next (A' @ ?m # C) (length A')" "rc = None"
      using r x False snoc ends_before_iff [OF s, of a]
      by (auto simp: add_same_def nth_append max_def split: if_splits)
    have "rs_wf l' \<and> rs_set l' = rs_set A' \<union> {r_s a..max (r_e a) e} \<union> rs_set C"
      using join_next_set [of A' C ?m] W(1-4) [OF a] wA(2) ac C se l(1) by fastforce
    moreover have "{r_s a..max (r_e a) e} = {r_s a..r_e a} \<union> {s..e}" using a False se W(2) [OF a] by auto
    ultimately show ?thesis using l snoc by auto
  qed
qed

text \<open>
  The general step of the second branch: the range at \<open>length D\<close> is widened to \<open>[s', e']\<close> and the ranges \<open>B\<close>
  behind it are absorbed.
\<close>

lemma widen_set:
  assumes wf: "rs_wf D" "rs_wf C" "\<forall>d\<in>set D. r_e d + 1 < s'" "s' \<le> e'" "e' < 2 ^ 64"
    and B: "\<forall>b\<in>set B. r_e b \<le> e'" and C: "\<forall>c\<in>set C. e' < r_s c"
    and m: "r_s m = s'" "r_e m = e'"
  shows "rs_wf (join_next (absorb (D @ m # B @ C) (length D)) (length D)) \<and>
    rs_set (join_next (absorb (D @ m # B @ C) (length D)) (length D)) = rs_set D \<union> {s'..e'} \<union> rs_set C"
proof -
  have "\<forall>c\<in>set C. r_e m < r_e c" using C m rs_wf_mem [OF wf(2)] by fastforce
  then have "absorb (D @ m # B @ C) (length D) = D @ m # C" using absorb_at [of B m C D] B m by simp
  then show ?thesis using join_next_set [of D C m] wf C m by simp
qed

text \<open>The ranges that start inside \<open>[s, e]\<close>, and the interval they fill together with it.\<close>

lemma inside_cover:
  assumes wf: "rs_wf B" and B: "B \<noteq> []" "\<forall>b\<in>set B. s < r_s b \<and> r_s b \<le> e"
  defines "e' \<equiv> (if e < r_e (last B) then r_e (last B) else e)"
  shows "\<forall>b\<in>set B. r_e b \<le> e'" "rs_set B \<union> {s..e} = {s..e'}" "e < 2 ^ 64 \<Longrightarrow> e' < 2 ^ 64" "e \<le> e'"
proof -
  obtain B' z where z: "B = B' @ [z]" using B(1) by (metis append_butlast_last_id)
  have b: "\<forall>b\<in>set B'. r_e b + 1 < r_s z" "r_s z \<le> e" "s < r_s z" "r_s z \<le> r_e z" "r_e z < 2 ^ 64"
    using wf B z by (auto simp: rs_wf_simps)
  then show 1: "\<forall>b\<in>set B. r_e b \<le> e'" using z by (fastforce simp: e'_def)
  have "rs_set B \<subseteq> {s..e'}" using 1 B(2) by (fastforce simp: rs_set_def)
  moreover have "{s..e'} \<subseteq> {s..e} \<union> {r_s z..r_e z}" using b by (auto simp: e'_def z)
  moreover have "{r_s z..r_e z} \<subseteq> rs_set B" by (simp add: z)
  ultimately show "rs_set B \<union> {s..e} = {s..e'}" by (auto simp: e'_def)
  show "e < 2 ^ 64 \<Longrightarrow> e' < 2 ^ 64" "e \<le> e'" using b z by (auto simp: e'_def)
qed

lemma nth_last_of: "B \<noteq> [] \<Longrightarrow> (A @ B @ C) ! (length A + length B - Suc 0) = last B"
  by (cases B rule: rev_cases) (simp_all add: nth_append)

lemma add_span_set:
  assumes wf: "rs_wf (A @ B @ C)" and se: "s \<le> e" "e < 2 ^ 64" and B0: "B \<noteq> []"
    and A: "\<forall>a\<in>set A. r_s a \<le> s" and B: "\<forall>b\<in>set B. s < r_s b \<and> r_s b \<le> e" and C: "\<forall>c\<in>set C. e < r_s c"
    and x: "x = (if A = [] then None else Some (length A - 1))" and y: "y = Some (length (A @ B) - 1)"
  shows "\<exists>l'. add_span (A @ B @ C) x y s e = Some (None, l') \<and> rs_wf l' \<and>
    rs_set l' = rs_set (A @ B @ C) \<union> {s..e}"
proof -
  define e' where "e' = (if e < r_e (last B) then r_e (last B) else e)"
  have w: "rs_wf A" "rs_wf B" "rs_wf C" "\<forall>b\<in>set B. \<forall>c\<in>set C. r_e b + 1 < r_s c" "\<forall>a\<in>set A. \<forall>b\<in>set B. r_e a + 1 < r_s b"
    using wf by (auto simp: rs_wf_append)
  note I = inside_cover [OF w(2) B0 B, folded e'_def]
  have C': "\<forall>c\<in>set C. e' < r_s c" using w(4) C B0 last_in_set [OF B0] by (fastforce simp: e'_def)
  obtain b B' where b: "B = b # B'" using B0 by (cases B) auto
  have s: "s < 2 ^ 64" using se by simp
  show ?thesis
  proof (cases "A = [] \<or> r_e (last A) + 1 < s")
    case True
    let ?m = "b\<lparr>r_s := s, r_e := e'\<rparr>"
    have l: "r_e ((A @ b\<lparr>r_s := s\<rparr> # B' @ C) ! (length A + length B - Suc 0)) = r_e (last B)"
      using nth_last_of [of "b\<lparr>r_s := s\<rparr> # B'" A C] b by auto
    have "add_span (A @ B @ C) x y s e = Some (None, join_next (absorb (A @ ?m # B' @ C) (length A)) (length A))"
    proof (cases A rule: rev_cases)
      case Nil
      then show ?thesis using l x y b by (simp add: add_span_def first_range_def e'_def Let_def)
    next
      case (snoc A' a)
      have "next_range (A @ B @ C) (length A - 1) = Some (length A)"
        using next_range_at [of A' a "B @ C"] b snoc by simp
      moreover have "ends_before a s" using True snoc ends_before_iff [OF s] by simp
      moreover have "(A @ B @ C) ! (length A - 1) = a" "(A @ B @ C) ! length A = b" "(A @ B @ C)[length A := b\<lparr>r_s := s\<rparr>] = A @ b\<lparr>r_s := s\<rparr> # B' @ C"
        using snoc b list_update_at [of A b "B' @ C"] by (simp_all add: nth_append)
      ultimately show ?thesis
        using l x y b snoc list_update_at [of A "b\<lparr>r_s := s\<rparr>" "B' @ C"]
        by (simp add: add_span_def e'_def Let_def del: list_update_at) (simp add: nth_append)
    qed
    moreover have "\<forall>a\<in>set A. r_e a + 1 < s"
      using True wf_before(5) [of "butlast A" "last A" s] w(1) A by (cases "A = []") auto
    then have "rs_wf (join_next (absorb (A @ ?m # B' @ C) (length A)) (length A)) \<and>
        rs_set (join_next (absorb (A @ ?m # B' @ C) (length A)) (length A)) = rs_set A \<union> {s..e'} \<union> rs_set C"
      using w I se C' b by (intro widen_set) auto
    ultimately show ?thesis using I(2) by auto
  next
    case False
    then obtain A' a where a: "A = A' @ [a]" by (metis append_butlast_last_id)
    have n: "\<not> ends_before a s" using False a ends_before_iff [OF s] by simp
    have "r_e ((A @ B @ C) ! (length A + length B - Suc 0)) = r_e (last B)" using nth_last_of [OF B0] by simp
    then have "add_span (A @ B @ C) x y s e =
        Some (None, join_next (absorb (A' @ a\<lparr>r_e := e'\<rparr> # B @ C) (length A')) (length A'))"
      using x y a n by (simp add: add_span_def e'_def Let_def nth_append)
    moreover have ra: "r_s a \<le> s" "s \<le> r_e a + 1" "r_s a \<le> r_e a" "r_e a \<le> e'"
      using A a False w b B I by (auto simp: rs_wf_simps) 
    then have "rs_wf (join_next (absorb (A' @ a\<lparr>r_e := e'\<rparr> # B @ C) (length A')) (length A')) \<and>
        rs_set (join_next (absorb (A' @ a\<lparr>r_e := e'\<rparr> # B @ C) (length A')) (length A')) = rs_set A' \<union> {r_s a..e'} \<union> rs_set C"
      using w I se C' a by (intro widen_set) (auto simp: rs_wf_simps)
    moreover have "{r_s a..e'} = {r_s a..r_e a} \<union> {s..e'}" using ra by auto
    ultimately show ?thesis using I(2) a by auto
  qed
qed

section \<open>What removing removes\<close>

lemma u64_pred: "0 < s \<Longrightarrow> s < 2 ^ 64 \<Longrightarrow> u64 (s + 2 ^ 64 - 1) = s - 1"
proof -
  assume "0 < s" "s < 2 ^ 64"
  then have "s + 2 ^ 64 - 1 = (s - 1) + 2 ^ 64" "s - 1 < 2 ^ 64" by simp_all
  then show ?thesis by (simp only: u64_def mod_add_self2 mod_less)
qed

lemma rs_set_outside:
  "\<forall>a\<in>set A. r_e a < s \<Longrightarrow> rs_set A - {s..e} = rs_set A"
  "\<forall>c\<in>set C. e < r_s c \<Longrightarrow> rs_set C - {s..e} = rs_set C"
  by (induction A, auto) (induction C, auto)

text \<open>Replacing a range by ranges inside it keeps a list well formed.\<close>

lemma shrink_wf:
  assumes "rs_wf (A @ a # C)" "rs_wf M" "\<forall>m\<in>set M. r_s a \<le> r_s m \<and> r_e m \<le> r_e a"
  shows "rs_wf (A @ M @ C)"
proof -
  have w: "rs_wf A" "rs_wf C" "\<forall>b\<in>set A. r_e b + 1 < r_s a" "\<forall>c\<in>set C. r_e a + 1 < r_s c"
    "\<forall>b\<in>set A. \<forall>c\<in>set C. r_e b + 1 < r_s c"
    using assms(1) by (auto simp: rs_wf_simps)
  have "\<forall>b\<in>set A. \<forall>m\<in>set M. r_e b + 1 < r_s m" "\<forall>m\<in>set M. \<forall>c\<in>set C. r_e m + 1 < r_s c"
    using w(3,4) assms(3) by fastforce+
  with w assms(2) show ?thesis by (auto simp: rs_wf_append)
qed

text \<open>What is left of a range that starts at or before \<open>s\<close>.\<close>

definition cut_inside :: "range_ent \<Rightarrow> nat \<Rightarrow> nat \<Rightarrow> ranges" where
  "cut_inside a s e =
     (if r_e a < s then [a]
      else (if r_s a < s then [a\<lparr>r_e := s - 1\<rparr>] else []) @ (if e < r_e a then [\<lparr>r_s = e + 1, r_e = r_e a\<rparr>] else []))"

lemma cut_inside_wf:
  assumes "r_s a \<le> r_e a" "r_e a < 2 ^ 64" "r_s a \<le> s" "s \<le> e"
  shows "rs_wf (cut_inside a s e)" "\<forall>m\<in>set (cut_inside a s e). r_s a \<le> r_s m \<and> r_e m \<le> r_e a"
    "rs_set (cut_inside a s e) = {r_s a..r_e a} - {s..e}"
  using assms by (auto simp: cut_inside_def rs_wf_simps)

lemma remove_same_eq:
  assumes "r_s a \<le> s" "s \<le> e" "e < 2 ^ 64" "r_e a < 2 ^ 64"
  shows "remove_same ok (A @ a # C) (Some (length A)) s e =
    (if \<not> ok \<and> r_s a < s \<and> e < r_e a then (Some ENOMEM, A @ a # C) else (None, A @ cut_inside a s e @ C))"
proof -
  obtain i j where a: "a = \<lparr>r_s = i, r_e = j\<rparr>" by (cases a)
  have p: "u64 (s + 2 ^ 64 - 1) = s - 1" if "i < s" using u64_pred [of s] that assms(2,3) by simp
  have n: "u64 (e + 1) = e + 1" if "e < j" using that assms(4) a by simp
  consider "j < s" | "s \<le> j" "i < s" "e < j" | "s \<le> j" "i < s" "j \<le> e" | "i = s" "e < j" | "i = s" "s \<le> j" "j \<le> e"
    using assms(1) a by fastforce
  then show ?thesis
    by cases (use assms p n in \<open>simp_all add: a remove_same_def cut_inside_def insert_range_at Let_def\<close>)
qed

lemma remove_same_set:
  assumes wf: "rs_wf (A @ C)" and se: "s \<le> e" "e < 2 ^ 64"
    and A: "\<forall>a\<in>set A. r_s a \<le> s" and C: "\<forall>c\<in>set C. e < r_s c"
    and x: "x = (if A = [] then None else Some (length A - 1))"
    and r: "remove_same ok (A @ C) x s e = (rc, l')"
  shows "rc = Some ENOMEM \<and> l' = A @ C \<and> \<not> ok \<or>
    rc = None \<and> rs_wf l' \<and> rs_set l' = rs_set (A @ C) - {s..e}"
proof (cases A rule: rev_cases)
  case Nil
  then show ?thesis using r x wf rs_set_outside(2) [OF C] by (simp add: remove_same_def)
next
  case (snoc A' a)
  have w: "r_s a \<le> r_e a" "r_e a < 2 ^ 64" "\<forall>b\<in>set A'. r_e b + 1 < r_s a" "r_s a \<le> s" "rs_wf (A' @ a # C)"
    using wf A snoc by (auto simp: rs_wf_simps)
  note M = cut_inside_wf [OF w(1,2,4) se(1)]
  have "r_e b < s" if "b \<in> set A'" for b using w(3) [rule_format, OF that] w(4) by linarith
  then have A': "rs_set A' - {s..e} = rs_set A'" by (intro rs_set_outside(1)) simp
  have S: "rs_set (A @ C) - {s..e} = rs_set A' \<union> ({r_s a..r_e a} - {s..e}) \<union> rs_set C"
    by (simp only: snoc rs_set_append rs_set_Cons rs_set_Nil Un_Diff A' rs_set_outside(2) [OF C] Un_empty_right)
  have "(rc, l') = (Some ENOMEM, A @ C) \<and> \<not> ok \<or> (rc, l') = (None, A' @ cut_inside a s e @ C)"
    using r x snoc remove_same_eq [OF w(4) se w(2), of ok A' C] by (simp split: if_splits)
  moreover have "rs_set (A' @ cut_inside a s e @ C) = rs_set (A @ C) - {s..e}"
    unfolding S by (simp only: rs_set_append M(3) Un_assoc)
  ultimately show ?thesis using shrink_wf [OF w(5) M(1,2)] by (elim disjE) simp_all
qed

lemma destroy_until_at:
  "destroy_until (A @ B @ z # C) (length A) (length A + length B) = Some (A @ z # C, length A)"
proof (induction B)
  case Nil
  then show ?case by (subst destroy_until.simps) simp
next
  case (Cons b B)
  then show ?case by (subst destroy_until.simps) simp
qed

declare destroy_until.simps [simp del]

text \<open>
  The numbers \<open>rangeset_remove_range\<close> adds: when the removed interval reaches into another range than
  the one found for \<open>s\<close>, that one is made to end at \<open>s - 1\<close>, even if it ended before.
\<close>

definition slip :: "ranges \<Rightarrow> nat \<Rightarrow> nat \<Rightarrow> nat set" where
  "slip l s e =
     (case find_range l s of
        None \<Rightarrow> {}
      | Some i \<Rightarrow> if find_range l e \<noteq> Some i \<and> r_s (l ! i) < s then {r_e (l ! i) + 1..<s} else {})"

definition cut_end :: "range_ent \<Rightarrow> nat \<Rightarrow> ranges" where
  "cut_end z e = (if e < r_e z then [z\<lparr>r_s := e + 1\<rparr>] else [])"

lemma cut_front_at: "e < 2 ^ 64 - 1 \<Longrightarrow> cut_front (D @ z # C) (length D) e = D @ cut_end z e @ C"
  by (auto simp: cut_front_def cut_end_def)

lemma cut_end_set:
  assumes "s < r_s z" "r_s z \<le> e" "r_s z \<le> r_e z"
  shows "rs_set (cut_end z e) = {r_s z..r_e z} - {s..e}"
  using assms by (auto simp: cut_end_def)

text \<open>What is left of the ranges that start at or before \<open>s\<close>.\<close>

definition cut_before :: "ranges \<Rightarrow> nat \<Rightarrow> ranges" where
  "cut_before A s =
     (if A = [] then [] else butlast A @ (if r_s (last A) < s then [(last A)\<lparr>r_e := s - 1\<rparr>] else []))"

lemma remove_span_eq:
  assumes x: "x = (if A = [] then None else Some (length A - 1))" and y: "y = Some (length A + length B)"
    and z: "s \<le> e" "e < 2 ^ 64 - 1" "\<forall>b\<in>set (B @ [z]). s < r_s b"
  shows "remove_span (A @ B @ z # C) x y s e = Some (None, cut_before A s @ cut_end z e @ C)"
proof (cases A rule: rev_cases)
  case Nil
  have "\<not> r_s ((B @ z # C) ! 0) < s" using z(3) by (cases B) auto
  then show ?thesis
    using Nil x y destroy_until_at [of "[]" B z C] cut_front_at [OF z(2), of "[]"]
    by (simp add: remove_span_def first_range_def cut_before_def)
next
  case (snoc A' a)
  show ?thesis
  proof (cases "r_s a < s")
    case True
    let ?a = "a\<lparr>r_e := s - 1\<rparr>"
    have p: "u64 (s + 2 ^ 64 - 1) = s - 1" using True z(1,2) by (intro u64_pred) auto
    show ?thesis
      using True snoc x y destroy_until_at [of "A' @ [?a]" B z C] cut_front_at [OF z(2), of "A' @ [?a]" z C] p
      by (simp add: remove_span_def nth_append cut_before_def)
  next
    case False
    then show ?thesis
      using snoc x y destroy_until_at [of A' "a # B" z C] cut_front_at [OF z(2), of A' z C]
      by (simp add: remove_span_def nth_append cut_before_def)
  qed
qed

lemma cut_before_set:
  assumes wf: "rs_wf A" and A: "\<forall>a\<in>set A. r_s a \<le> s"
  shows "rs_set (cut_before A s) =
      rs_set A - {s..} \<union> (if A \<noteq> [] \<and> r_s (last A) < s then {r_e (last A) + 1..<s} else {})"
    "rs_wf A \<Longrightarrow> s \<le> 2 ^ 64 \<Longrightarrow> rs_wf (cut_before A s) \<and> (\<forall>a\<in>set (cut_before A s). r_e a < s)"
proof -
  have out: "rs_set A' - {s..} = rs_set A'" if "\<forall>b\<in>set A'. r_e b < s" for A'
    using that by (induction A') auto
  show "rs_set (cut_before A s) =
      rs_set A - {s..} \<union> (if A \<noteq> [] \<and> r_s (last A) < s then {r_e (last A) + 1..<s} else {})"
  proof (cases A rule: rev_cases)
    case (snoc A' a)
    have w: "\<forall>b\<in>set A'. r_e b + 1 < r_s a" "r_s a \<le> r_e a" "r_s a \<le> s" using wf A snoc by (auto simp: rs_wf_simps)
    have "r_e b < s" if "b \<in> set A'" for b using w(1) [rule_format, OF that] w(3) by linarith
    then have o: "rs_set A' - {s..} = rs_set A'" by (intro out) simp
    have "{r_s a..r_e a} - {s..} \<union> {r_e a + 1..<s} = {r_s a..s - 1}" if "r_s a < s" using w(2) that by auto
    moreover have "rs_set A' \<union> ({r_s a..r_e a} - {s..}) = rs_set A'" if "\<not> r_s a < s" using w(3) that by auto
    ultimately show ?thesis
      by (cases "r_s a < s") (simp_all add: snoc cut_before_def Un_Diff o Un_assoc)
  qed (simp add: cut_before_def)
  show "rs_wf (cut_before A s) \<and> (\<forall>a\<in>set (cut_before A s). r_e a < s)" if "rs_wf A" "s \<le> 2 ^ 64"
  proof (cases A rule: rev_cases)
    case (snoc A' a)
    have w: "\<forall>b\<in>set A'. r_e b + 1 < r_s a" "r_s a \<le> s" "rs_wf A'" using wf A snoc by (auto simp: rs_wf_simps)
    have "r_e b < s" if "b \<in> set A'" for b using w(1) [rule_format, OF that] w(2) by linarith
    then show ?thesis
      using w that by (cases "r_s a < s") (auto simp: snoc cut_before_def rs_wf_simps)
  qed (simp add: cut_before_def)
qed

lemma remove_span_set:
  assumes wf: "rs_wf (A @ B @ C)" and se: "s \<le> e" "e < 2 ^ 64 - 1" and B0: "B \<noteq> []"
    and A: "\<forall>a\<in>set A. r_s a \<le> s" and B: "\<forall>b\<in>set B. s < r_s b \<and> r_s b \<le> e" and C: "\<forall>c\<in>set C. e < r_s c"
    and x: "x = (if A = [] then None else Some (length A - 1))" and y: "y = Some (length (A @ B) - 1)"
  shows "\<exists>l'. remove_span (A @ B @ C) x y s e = Some (None, l') \<and> rs_wf l' \<and>
    rs_set l' = rs_set (A @ B @ C) - {s..e} \<union> (if A \<noteq> [] \<and> r_s (last A) < s then {r_e (last A) + 1..<s} else {})"
proof -
  obtain B' z where z: "B = B' @ [z]" using B0 by (metis append_butlast_last_id)
  have w: "rs_wf A" "rs_wf C" "\<forall>c\<in>set C. r_e z + 1 < r_s c" "\<forall>b\<in>set B'. r_e b + 1 < r_s z" "r_s z \<le> r_e z" "r_e z < 2 ^ 64"
    "r_s z \<le> e" "s < r_s z" "\<forall>a\<in>set A. r_e a + 1 < r_s z"
    using wf B z by (auto simp: rs_wf_simps)
  let ?l = "cut_before A s @ cut_end z e @ C"
  have "remove_span (A @ B @ C) x y s e = Some (None, ?l)"
    using remove_span_eq [of x A y B' s e z C] x y z se B by simp
  moreover have cb: "rs_wf (cut_before A s)" "\<forall>a\<in>set (cut_before A s). r_e a < s"
    using cut_before_set(2) [OF w(1) A w(1)] se by simp_all
  have "rs_wf (cut_end z e @ C)" using w by (auto simp: cut_end_def rs_wf_simps)
  moreover have e: "e < r_s c" if "c \<in> set (cut_end z e @ C)" for c
    using that C by (auto simp: cut_end_def split: if_splits)
  have "r_e a + 1 < r_s c" if "a \<in> set (cut_before A s)" "c \<in> set (cut_end z e @ C)" for a c
    using cb(2) [rule_format, OF that(1)] e [OF that(2)] se(1) by linarith
  ultimately have "rs_wf ?l" using cb(1) by (simp add: rs_wf_append)
  have in_e: "r_e b \<le> e" if "b \<in> set B'" for b using w(4) [rule_format, OF that] w(7) by linarith
  have "rs_set B' - {s..e} = {}" using in_e B z by (fastforce simp: rs_set_def)
  moreover have "v \<le> e" if "v \<in> rs_set A" for v
    using that w(7,9) by (fastforce simp: rs_set_def)
  then have "rs_set A - {s..e} = rs_set A - {s..}" by auto
  ultimately have "rs_set (A @ B @ C) - {s..e} = (rs_set A - {s..}) \<union> rs_set (cut_end z e) \<union> rs_set C"
    using cut_end_set [OF w(8,7,5)] rs_set_outside(2) [OF C, of s] by (simp only: z rs_set_append rs_set_Cons rs_set_Nil Un_Diff) (simp add: Un_assoc)
  then have "rs_set ?l = rs_set (A @ B @ C) - {s..e} \<union> (if A \<noteq> [] \<and> r_s (last A) < s then {r_e (last A) + 1..<s} else {})"
    using cut_before_set(1) [OF w(1) A] by (simp only: rs_set_append Un_ac)
  then show ?thesis
    using \<open>remove_span (A @ B @ C) x y s e = Some (None, ?l)\<close> \<open>rs_wf ?l\<close> by blast
qed

section \<open>Queries decide inclusion and intersection\<close>

lemma rs_wf_last:
  assumes "rs_wf (A @ [a])" "b \<in> set (A @ [a])"
  shows "r_e b \<le> r_e a"
  using assms by (fastforce simp: rs_wf_simps)

lemma contains_iff:
  assumes wf: "rs_wf l" and se: "s \<le> e"
  shows "rangeset_contains_range l s e \<longleftrightarrow> {s..e} \<subseteq> rs_set l"
proof -
  obtain A C where l: "l = A @ C" "\<forall>a\<in>set A. r_s a \<le> s" "\<forall>c\<in>set C. s < r_s c" by (rule rs_wf_split [OF wf])
  have f: "find_range l s = (if A = [] then None else Some (length A - 1))" using find_range_split [OF l(2,3)] l(1) by simp
  have in_A: "\<exists>a\<in>set A. s \<in> {r_s a..r_e a}" if "{s..e} \<subseteq> rs_set l"
  proof -
    have "s \<in> rs_set l" using that se by auto
    then show ?thesis using l by (force simp: rs_set_def)
  qed
  show ?thesis
  proof (cases A rule: rev_cases)
    case Nil
    then show ?thesis using f in_A by (auto simp: rangeset_contains_range_def)
  next
    case (snoc A' a)
    have w: "rs_wf (A' @ [a])" "\<forall>c\<in>set C. r_e a + 1 < r_s c" "r_s a \<le> s"
      using wf l snoc by (auto simp: rs_wf_simps)
    have c: "rangeset_contains_range l s e \<longleftrightarrow> e \<le> r_e a"
      using f l(1) snoc by (simp add: rangeset_contains_range_def nth_append)
    have "e \<le> r_e a" if sub: "{s..e} \<subseteq> rs_set l"
    proof (rule ccontr)
      assume n: "\<not> e \<le> r_e a"
      obtain b where b: "b \<in> set A" "s \<le> r_e b" using in_A [OF sub] by auto
      then have "s \<le> r_e a" using rs_wf_last [OF w(1), of b] snoc by simp
      with n have "r_e a + 1 \<in> rs_set l" using sub by auto
      then obtain y where y: "y \<in> set l" "r_s y \<le> r_e a + 1" "r_e a + 1 \<le> r_e y" by (auto simp: rs_set_def)
      show False
        using y w(2) rs_wf_last [OF w(1), of y] l(1) snoc by force
    qed
    moreover have "{s..e} \<subseteq> rs_set l" if "e \<le> r_e a"
      using that w(3) l(1) snoc by auto
    ultimately show ?thesis using c by blast
  qed
qed

lemma overlaps_iff:
  assumes wf: "rs_wf l" and se: "s \<le> e"
  shows "rangeset_overlaps_range l s e \<longleftrightarrow> rs_set l \<inter> {s..e} \<noteq> {}"
proof -
  obtain A C where l: "l = A @ C" "\<forall>a\<in>set A. r_s a \<le> e" "\<forall>c\<in>set C. e < r_s c" by (rule rs_wf_split [OF wf])
  have f: "find_range l e = (if A = [] then None else Some (length A - 1))" using find_range_split [OF l(2,3)] l(1) by simp
  have in_A: "\<exists>a\<in>set A. s \<le> r_e a" if "rs_set l \<inter> {s..e} \<noteq> {}"
    using that l by (force simp: rs_set_def)
  show ?thesis
  proof (cases A rule: rev_cases)
    case Nil
    then show ?thesis using f in_A by (auto simp: rangeset_overlaps_range_def)
  next
    case (snoc A' a)
    have w: "rs_wf (A' @ [a])" "r_s a \<le> e" "r_s a \<le> r_e a"
      using wf l snoc by (auto simp: rs_wf_simps)
    have c: "rangeset_overlaps_range l s e \<longleftrightarrow> s \<le> r_e a"
      using f l(1) snoc by (simp add: rangeset_overlaps_range_def nth_append)
    have "s \<le> r_e a" if "rs_set l \<inter> {s..e} \<noteq> {}"
      using in_A [OF that] rs_wf_last [OF w(1)] snoc by fastforce
    moreover have "max s (r_s a) \<in> rs_set l \<inter> {s..e}" if "s \<le> r_e a"
      using that w(2,3) se l(1) snoc by (simp add: max_def)
    ultimately show ?thesis using c by blast
  qed
qed

section \<open>Reporting\<close>

text \<open>The callback applied to a list of intervals until it returns a value other than 0.\<close>

fun call_until :: "(nat \<Rightarrow> nat \<Rightarrow> 'c \<Rightarrow> int \<times> 'c) \<Rightarrow> (nat \<times> nat) list \<Rightarrow> int \<times> 'c \<Rightarrow> int \<times> 'c" where
  "call_until cb [] (rc, c) = (rc, c)"
| "call_until cb ((a, b) # is) (rc, c) = (if rc = 0 then call_until cb is (cb a b c) else (rc, c))"

definition clipped :: "ranges \<Rightarrow> nat \<Rightarrow> nat \<Rightarrow> (nat \<times> nat) list" where
  "clipped l s e = map (\<lambda>x. (max (r_s x) s, min (r_e x) e)) (filter (\<lambda>x. r_s x \<le> e \<and> s \<le> r_e x) l)"

declare report_loop.simps [simp del]

lemma report_loop_None [simp]: "report_loop cb l s e None c = c"
  by (cases c) (simp add: report_loop.simps)

lemma call_until_stop: "rc \<noteq> 0 \<Longrightarrow> call_until cb is (rc, c) = (rc, c)"
  by (cases "is") auto

lemma report_loop_at:
  "rs_wf C \<Longrightarrow> report_loop cb (A @ C) s e (if C = [] then None else Some (length A)) (rc, c) =
    call_until cb (clipped C s e) (rc, c)"
proof (induction C arbitrary: A rc c)
  case (Cons x C)
  have r: "report_loop cb (A @ x # C) s e (Some (length A)) (rc, c) =
      (if r_s x \<le> e \<and> rc = 0 then
         report_loop cb (A @ x # C) s e (if C = [] then None else Some (Suc (length A)))
           (if s \<le> r_e x then cb (max (r_s x) s) (min (r_e x) e) c else (rc, c))
       else (rc, c))"
    by (subst report_loop.simps) simp
  have IH: "report_loop cb (A @ x # C) s e (if C = [] then None else Some (Suc (length A))) (rc', c') =
      call_until cb (clipped C s e) (rc', c')" for rc' c'
    using Cons.IH [of "A @ [x]" rc' c'] Cons.prems by (cases "C = []") (simp_all add: rs_wf_Cons)
  show ?case
  proof (cases "r_s x \<le> e")
    case True
    then show ?thesis
      using r IH by (cases "cb (max (r_s x) s) (min (r_e x) e) c") (auto simp: clipped_def call_until_stop)
  next
    case False
    then have "filter (\<lambda>x. r_s x \<le> e \<and> s \<le> r_e x) C = []"
      using Cons.prems by (auto simp: filter_empty_conv rs_wf_Cons)
    then show ?thesis using r False by (simp add: clipped_def)
  qed
qed (simp add: clipped_def)

lemma clipped_set:
  "s \<le> e \<Longrightarrow> (\<Union>(a, b)\<in>set (clipped l s e). {a..b}) = rs_set l \<inter> {s..e}"
  by (fastforce simp: clipped_def rs_set_def)

lemma clipped_sorted:
  assumes "rs_wf l"
  shows "sorted_wrt (\<lambda>(a, b) (a', b'). b < a') (clipped l s e)"
  unfolding clipped_def sorted_wrt_map
proof (rule sorted_wrt_filter, rule sorted_wrt_mono_rel)
  show "sorted_wrt (\<lambda>x y. r_e x + 1 < r_s y) l" using assms by (simp add: rs_wf_def)
qed (simp add: less_max_iff_disj min_less_iff_disj)

lemma report_eq:
  assumes "rs_wf l"
  shows "rangeset_report_ranges cb l s e ctxt =
    (if find_range l s = None then (0, ctxt) else call_until cb (clipped l s e) (0, ctxt))"
proof -
  obtain A C where l: "l = A @ C" "\<forall>a\<in>set A. r_s a \<le> s" "\<forall>c\<in>set C. s < r_s c" by (rule rs_wf_split [OF assms, where s = s])
  have f: "find_range l s = (if A = [] then None else Some (length A - 1))" using find_range_split [OF l(2,3)] l(1) by simp
  have "rangeset_report_ranges cb l s e ctxt = call_until cb (clipped l s e) (0, ctxt)" if a: "A = A' @ [a]" for A' a
  proof -
    have w: "\<forall>b\<in>set A'. r_e b + 1 < r_s a" "r_s a \<le> s" "rs_wf (a # C)"
      using assms l(2) unfolding l(1) a by (simp_all add: rs_wf_simps)
    have "\<not> s \<le> r_e b" if "b \<in> set A'" for b using w(1) [rule_format, OF that] w(2) by linarith
    then have "filter (\<lambda>x. r_s x \<le> e \<and> s \<le> r_e x) A' = []" by (simp add: filter_empty_conv)
    then have c: "clipped l s e = clipped (a # C) s e" unfolding l(1) a clipped_def by simp
    have "find_range l s = Some (length A')" "l = A' @ a # C" using f l(1) a by simp_all
    then show ?thesis
      using report_loop_at [OF w(3), of cb A' s e 0 ctxt] c unfolding rangeset_report_ranges_def by simp
  qed
  moreover have "rangeset_report_ranges cb l s e ctxt = (0, ctxt)" if "A = []"
    using that f by (simp add: rangeset_report_ranges_def)
  ultimately show ?thesis using f by (cases A rule: rev_cases) simp_all
qed

section \<open>The effect of each update\<close>

lemma add_range_law:
  assumes "rs_wf l" "s \<le> e" "e < 2 ^ 64"
  shows "\<exists>rc l'. rangeset_add_range None ok l s e = Some (rc, l') \<and> rs_wf l' \<and>
    (rc = None \<and> rs_set l' = rs_set l \<union> {s..e} \<or> rc = Some ENOMEM \<and> l' = l \<and> \<not> ok)"
proof -
  obtain A B C where l: "l = A @ B @ C" "\<forall>a\<in>set A. r_s a \<le> s" "\<forall>b\<in>set B. s < r_s b \<and> r_s b \<le> e"
    "\<forall>c\<in>set C. e < r_s c" and f: "find_range l s = (if A = [] then None else Some (length A - 1))"
    "find_range l e = (if A @ B = [] then None else Some (length (A @ B) - 1))"
    by (rule rs_wf_split2 [OF assms(1,2)])
  show ?thesis
  proof (cases "B = []")
    case True
    obtain rc l' where r: "add_same ok l (find_range l s) s e = (rc, l')" by force
    moreover have "find_range l s = find_range l e" using f True by auto
    ultimately have "rangeset_add_range None ok l s e = Some (rc, l')"
      by (simp add: rangeset_add_range_def)
    moreover have "rc = Some ENOMEM \<and> l' = l \<and> \<not> ok \<or> rc = None \<and> rs_wf l' \<and> rs_set l' = rs_set l \<union> {s..e}"
      using add_same_set [of A C s e "find_range l s" ok rc l'] assms l True f r by simp
    ultimately show ?thesis using assms(1) by blast
  next
    case False
    then have "find_range l s \<noteq> find_range l e" using f by (cases A) auto
    then have "rangeset_add_range None ok l s e = add_span l (find_range l s) (find_range l e) s e"
      by (simp add: rangeset_add_range_def)
    then show ?thesis
      using add_span_set [of A B C s e "find_range l s" "find_range l e"] assms l False f by force
  qed
qed

lemma remove_range_law:
  assumes "rs_wf l" "s \<le> e" "e < 2 ^ 64" "e < 2 ^ 64 - 1 \<or> find_range l s = find_range l e"
  shows "\<exists>rc l'. rangeset_remove_range None ok l s e = Some (rc, l') \<and> rs_wf l' \<and>
    (rc = None \<and> rs_set l' = rs_set l - {s..e} \<union> slip l s e \<or> rc = Some ENOMEM \<and> l' = l \<and> \<not> ok)"
proof -
  obtain A B C where l: "l = A @ B @ C" "\<forall>a\<in>set A. r_s a \<le> s" "\<forall>b\<in>set B. s < r_s b \<and> r_s b \<le> e"
    "\<forall>c\<in>set C. e < r_s c" and f: "find_range l s = (if A = [] then None else Some (length A - 1))"
    "find_range l e = (if A @ B = [] then None else Some (length (A @ B) - 1))"
    by (rule rs_wf_split2 [OF assms(1,2)])
  show ?thesis
  proof (cases "B = []")
    case True
    obtain rc l' where r: "remove_same ok l (find_range l s) s e = (rc, l')" by force
    moreover have "find_range l s = find_range l e" using f True by auto
    ultimately have "rangeset_remove_range None ok l s e = Some (rc, l')"
      by (simp add: rangeset_remove_range_def)
    moreover have "slip l s e = {}" using f True by (auto simp: slip_def)
    moreover have "rc = Some ENOMEM \<and> l' = l \<and> \<not> ok \<or> rc = None \<and> rs_wf l' \<and> rs_set l' = rs_set l - {s..e}"
      using remove_same_set [of A C s e "find_range l s" ok rc l'] assms l True f r by simp
    ultimately show ?thesis using assms(1) by auto
  next
    case False
    then have n: "find_range l s \<noteq> find_range l e" using f by (cases A) auto
    then have r: "rangeset_remove_range None ok l s e = remove_span l (find_range l s) (find_range l e) s e"
      by (simp add: rangeset_remove_range_def)
    have "slip l s e = (if A \<noteq> [] \<and> r_s (last A) < s then {r_e (last A) + 1..<s} else {})"
    proof (cases A rule: rev_cases)
      case (snoc A' a)
      then have "find_range l s = Some (length A')" "l ! length A' = a" using f l(1) by (simp_all add: nth_append)
      then show ?thesis using n snoc by (simp add: slip_def)
    qed (use f in \<open>simp add: slip_def\<close>)
    then show ?thesis
      using remove_span_set [of A B C s e "find_range l s" "find_range l e"] assms n l False f r by force
  qed
qed

lemma remove_singleton_law:
  assumes "rs_wf l" "i < 2 ^ 64"
  shows "\<exists>rc l'. rangeset_remove_singleton None ok l i = Some (rc, l') \<and> rs_wf l' \<and>
    (rc = None \<and> rs_set l' = rs_set l - {i} \<or> rc = Some ENOMEM \<and> l' = l \<and> \<not> ok)"
proof -
  have "slip l i i = {}" by (simp add: slip_def split: option.split)
  then show ?thesis
    using remove_range_law [OF assms(1), of i i ok] assms(2) by (simp add: rangeset_remove_singleton_def)
qed

section \<open>The properties\<close>

text \<open>
  C21.  \<open>rangeset_add_range\<close> is union.  On a well-formed list of ranges it never follows a null pointer,
  leaves a well-formed list (sorted, disjoint, not even adjacent ranges: the canonical
  representation of the set), and either adds exactly the numbers of \<open>[s, e]\<close> or, when memory is short
  and a new range is needed, reports \<open>ENOMEM\<close> and changes nothing.
\<close>

theorem rangeset_add_is_union:
  assumes "rs_wf l" "s \<le> e" "e < 2 ^ 64"
  shows "\<exists>rc l'. rangeset_add_range None ok l s e = Some (rc, l') \<and> rs_wf l' \<and>
    (rc = None \<and> rs_set l' = rs_set l \<union> {s..e} \<or> rc = Some ENOMEM \<and> l' = l \<and> \<not> ok)"
  by (rule add_range_law [OF assms])

definition sample_ranges :: ranges where
  "sample_ranges = [\<lparr>r_s = 0, r_e = 1\<rparr>, \<lparr>r_s = 5, r_e = 6\<rparr>]"

lemma sample_ranges_wf: "rs_wf sample_ranges"
  by (simp add: sample_ranges_def rs_wf_def)

theorem rangeset_add_is_union_witness:
  "\<exists>rc l'. rangeset_add_range None True sample_ranges 2 5 = Some (rc, l') \<and> rs_wf l' \<and> rc = None \<and> rs_set l' = {0..6}"
proof -
  have "rs_set sample_ranges \<union> {2..5} = {0..6}" by (auto simp: sample_ranges_def)
  then show ?thesis using rangeset_add_is_union [OF sample_ranges_wf, of 2 5 True] by auto
qed

text \<open>
  C22.  What \<open>rangeset_remove_range\<close> removes.  Unless the interval ends at the largest number and reaches
  into a second range, it never follows a null pointer, leaves a well-formed list, and either
  reports \<open>ENOMEM\<close> and changes nothing, or removes exactly the numbers of \<open>[s, e]\<close>, except that it adds the
  numbers of \<open>slip\<close>: those between the end of the range found for \<open>s\<close> and \<open>s\<close>, when that range ends before
  \<open>s\<close> and another one starts in the interval.
\<close>

theorem rangeset_remove_exact:
  assumes "rs_wf l" "s \<le> e" "e < 2 ^ 64" "e < 2 ^ 64 - 1 \<or> find_range l s = find_range l e"
  shows "\<exists>rc l'. rangeset_remove_range None ok l s e = Some (rc, l') \<and> rs_wf l' \<and>
    (rc = None \<and> rs_set l' = rs_set l - {s..e} \<union> slip l s e \<or> rc = Some ENOMEM \<and> l' = l \<and> \<not> ok)"
  by (rule remove_range_law [OF assms])

theorem rangeset_remove_exact_witness:
  "\<exists>rc l'. rangeset_remove_range None True sample_ranges 1 5 = Some (rc, l') \<and> rs_wf l' \<and> rc = None \<and> rs_set l' = {0, 6}"
proof -
  have "rs_set sample_ranges - {1..5} \<union> slip sample_ranges 1 5 = {0, 6}"
    by (auto simp: sample_ranges_def slip_def find_range_def)
  then show ?thesis using rangeset_remove_exact [OF sample_ranges_wf, of 1 5 True] by auto
qed

text \<open>
  C23.  The queries are exact on a well-formed list: \<open>rangeset_contains_range\<close> decides whether all numbers
  of \<open>[s, e]\<close> are in the set, \<open>rangeset_overlaps_range\<close> whether some are, \<open>rangeset_is_empty\<close> whether there
  are none at all.
\<close>

theorem rangeset_queries:
  assumes "rs_wf l" "s \<le> e"
  shows "(rangeset_contains_range l s e \<longleftrightarrow> {s..e} \<subseteq> rs_set l) \<and>
    (rangeset_overlaps_range l s e \<longleftrightarrow> rs_set l \<inter> {s..e} \<noteq> {}) \<and>
    (rangeset_is_empty (Some l) \<longleftrightarrow> rs_set l = {})"
proof -
  have "rs_set l = {} \<longleftrightarrow> l = []" using assms(1) by (cases l) (auto simp: rs_wf_Cons)
  then show ?thesis using contains_iff [OF assms] overlaps_iff [OF assms] by (simp add: rangeset_is_empty_def)
qed

theorem rangeset_queries_witness:
  "\<not> rangeset_contains_range sample_ranges 0 5 \<and> rangeset_overlaps_range sample_ranges 2 5"
proof -
  have "3 \<notin> rs_set sample_ranges" "(3::nat) \<in> {0..5}" "5 \<in> rs_set sample_ranges \<inter> {2..5}"
    by (simp_all add: sample_ranges_def)
  moreover have "(0::nat) \<le> 5" "(2::nat) \<le> 5" by simp_all
  ultimately show ?thesis
    using rangeset_queries [OF sample_ranges_wf, of 0 5] rangeset_queries [OF sample_ranges_wf, of 2 5] by blast
qed

text \<open>
  C24.  What \<open>rangeset_report_ranges\<close> reports.  If some range starts at or below \<open>s\<close>, the callback is called for
  the parts of the ranges in \<open>[s, e]\<close>, in ascending order, until it returns a value other than 0, and
  these parts together are the members of the set in \<open>[s, e]\<close>; if every range starts above \<open>s\<close>, it is not
  called at all.
\<close>

theorem rangeset_report_exact:
  assumes "rs_wf l" "s \<le> e"
  shows "rangeset_report_ranges cb l s e ctxt =
      (if find_range l s = None then (0, ctxt) else call_until cb (clipped l s e) (0, ctxt)) \<and>
    (\<Union>(a, b)\<in>set (clipped l s e). {a..b}) = rs_set l \<inter> {s..e} \<and> sorted_wrt (\<lambda>(a, b) (a', b'). b < a') (clipped l s e)"
  by (intro conjI report_eq clipped_set clipped_sorted assms)

theorem rangeset_report_exact_witness:
  "rangeset_report_ranges (\<lambda>a b c. (0, c @ [(a, b)])) sample_ranges 1 9 [] = (0, [(1, 1), (5, 6)])"
  using rangeset_report_exact [OF sample_ranges_wf, of 1 9 "\<lambda>a b c. (0, c @ [(a, b)])" "[]"]
  by (simp add: clipped_def sample_ranges_def find_range_def)

text \<open>
  An interval that ends at the largest number and reaches into a second range.  Removing everything from 4 on from the set \<open>{0, 1, 5, 6}\<close> returns 0 and leaves a
  list that is not well formed and contains all numbers up to 6.
\<close>

lemma remove_to_end_flaw:
  "rangeset_remove_range None True sample_ranges 4 (2 ^ 64 - 1) = Some (None, [\<lparr>r_s = 0, r_e = 3\<rparr>, \<lparr>r_s = 0, r_e = 6\<rparr>])"
proof -
  have d: "destroy_until l (Suc 0) (Suc 0) = Some (l, Suc 0)" for l by (subst destroy_until.simps) simp
  show ?thesis
    by (simp add: rangeset_remove_range_def sample_ranges_def find_range_def remove_span_def next_range_def d
        cut_front_def destroy_range_def u64_def)
qed

end
