(* ===== verification/Rangeset_Domain.thy ===== *)
theory Rangeset_Domain
  imports Rangeset
begin

text \<open>
  The range sets of a domain, the second half of \<open>xen/common/rangeset.c\<close>: range sets live on the heap and
  are threaded on the list of their domain, so that they are destroyed with it.  The heap maps
  addresses to range sets; \<open>None\<close> as a result stands for a failed \<open>BUG_ON\<close> or an access to memory that is
  not a range set.
\<close>

record rangeset =
  rs_ranges :: ranges
  rs_domain :: "domid option"
  rs_name :: string
  rs_flags :: nat

record rs_store =
  rs_objs :: "nat \<rightharpoonup> rangeset"
  rangesets :: "domid \<Rightarrow> nat list"

definition RANGESETF_prettyprint_hex :: nat where
  "RANGESETF_prettyprint_hex = 1"

text \<open>
  \<open>addr\<close> is what \<open>xmalloc\<close> returns.  \<open>safe_strcpy\<close> keeps at most 31 characters of the name.  The inner result is
  the pointer returned.
\<close>

definition rangeset_new ::
  "nat option \<Rightarrow> domid option \<Rightarrow> string option \<Rightarrow> nat \<Rightarrow> rs_store \<Rightarrow> (nat option \<times> rs_store) option" where
  "rangeset_new addr d name flags st =
     (case addr of
        None \<Rightarrow> Some (None, st)
      | Some r \<Rightarrow>
          if flags \<noteq> 0 \<and> flags \<noteq> RANGESETF_prettyprint_hex then None
          else
            (let rs = \<lparr>rs_ranges = [], rs_domain = d,
                       rs_name = (case name of Some n \<Rightarrow> take 31 n | None \<Rightarrow> ''(no name)''), rs_flags = flags\<rparr>;
                 st1 = st\<lparr>rs_objs := (rs_objs st)(r \<mapsto> rs)\<rparr>
             in Some (Some r, case d of None \<Rightarrow> st1
                              | Some i \<Rightarrow> st1\<lparr>rangesets := (rangesets st1)(i := r # rangesets st1 i)\<rparr>)))"

text \<open>The loop that frees the ranges one after the other.\<close>

function destroy_ranges :: "ranges \<Rightarrow> ranges" where
  "destroy_ranges l = (case first_range l of None \<Rightarrow> l | Some x \<Rightarrow> destroy_ranges (destroy_range l x))"
  by pat_completeness auto

termination
  by (relation "measure length") (auto simp: first_range_def destroy_range_def split: if_splits)

declare destroy_ranges.simps [simp del]

definition rangeset_destroy :: "nat option \<Rightarrow> rs_store \<Rightarrow> rs_store option" where
  "rangeset_destroy p st =
     (case p of
        None \<Rightarrow> Some st
      | Some r \<Rightarrow>
          do {
            rs \<leftarrow> rs_objs st r;
            let st1 = (case rs_domain rs of None \<Rightarrow> st
                       | Some i \<Rightarrow> st\<lparr>rangesets := (rangesets st)(i := remove1 r (rangesets st i))\<rparr>);
                st2 = st1\<lparr>rs_objs := (rs_objs st1)(r \<mapsto> rs\<lparr>rs_ranges := destroy_ranges (rs_ranges rs)\<rparr>)\<rparr>
            in Some (st2\<lparr>rs_objs := (rs_objs st2)(r := None)\<rparr>)
          })"

definition rangeset_domain_initialise :: "domid \<Rightarrow> rs_store \<Rightarrow> rs_store" where
  "rangeset_domain_initialise d st = st\<lparr>rangesets := (rangesets st)(d := [])\<rparr>"

text \<open>\<open>list_del\<close> takes the first entry off the list; \<open>rangeset_destroy\<close> then finds no domain.\<close>

function rangeset_domain_destroy :: "domid \<Rightarrow> rs_store \<Rightarrow> rs_store option" where
  "rangeset_domain_destroy d st =
     (case rangesets st d of
        [] \<Rightarrow> Some st
      | r # rs \<Rightarrow>
          (case rs_objs st r of
             None \<Rightarrow> None
           | Some x \<Rightarrow>
               if rs_domain x \<noteq> Some d then None
               else
                 (case rangeset_destroy (Some r)
                         (st\<lparr>rs_objs := (rs_objs st)(r \<mapsto> x\<lparr>rs_domain := None\<rparr>), rangesets := (rangesets st)(d := rs)\<rparr>) of
                    None \<Rightarrow> None
                  | Some st' \<Rightarrow> rangeset_domain_destroy d st')))"
  by pat_completeness auto

termination
  by (relation "measure (\<lambda>(d, st). length (rangesets st d))")
    (auto simp: rangeset_destroy_def Let_def split: option.splits if_splits)

section \<open>Every range set is on the list of its domain\<close>

definition rs_store_ok :: "rs_store \<Rightarrow> bool" where
  "rs_store_ok st \<longleftrightarrow>
     (\<forall>d. distinct (rangesets st d)) \<and>
     (\<forall>d r. r \<in> set (rangesets st d) \<longleftrightarrow> (\<exists>x. rs_objs st r = Some x \<and> rs_domain x = Some d))"

declare rangeset_domain_destroy.simps [simp del]

lemma rangeset_destroy_eq:
  assumes "rs_objs st r = Some x"
  shows "rangeset_destroy (Some r) st =
    Some (st\<lparr>rs_objs := (rs_objs st)(r := None),
      rangesets := (case rs_domain x of None \<Rightarrow> rangesets st | Some i \<Rightarrow> (rangesets st)(i := remove1 r (rangesets st i)))\<rparr>)"
  using assms by (cases "rs_domain x") (simp_all add: rangeset_destroy_def)

lemma domain_destroy_step:
  assumes "rangesets st d = r # rs" "rs_objs st r = Some x" "rs_domain x = Some d"
  shows "rangeset_domain_destroy d st =
    rangeset_domain_destroy d (st\<lparr>rs_objs := (rs_objs st)(r := None), rangesets := (rangesets st)(d := rs)\<rparr>)"
  by (subst rangeset_domain_destroy.simps) (simp add: assms rangeset_destroy_eq)

lemma domain_destroy_eq:
  "distinct rs \<Longrightarrow> rangesets st d = rs \<Longrightarrow> \<forall>r\<in>set rs. \<exists>x. rs_objs st r = Some x \<and> rs_domain x = Some d \<Longrightarrow>
    \<exists>st'. rangeset_domain_destroy d st = Some st' \<and> rangesets st' = (rangesets st)(d := []) \<and>
      (\<forall>r. rs_objs st' r = (if r \<in> set rs then None else rs_objs st r))"
proof (induction rs arbitrary: st)
  case Nil
  then show ?case by (subst rangeset_domain_destroy.simps) (simp add: fun_upd_idem)
next
  case (Cons r rs)
  obtain x where x: "rs_objs st r = Some x" "rs_domain x = Some d" using Cons.prems(3) by auto
  let ?st = "st\<lparr>rs_objs := (rs_objs st)(r := None), rangesets := (rangesets st)(d := rs)\<rparr>"
  have "\<exists>y. rs_objs ?st q = Some y \<and> rs_domain y = Some d" if "q \<in> set rs" for q
    using Cons.prems(1,3) that by auto
  moreover have "distinct rs" "rangesets ?st d = rs" using Cons.prems(1) by simp_all
  ultimately obtain st' where "rangeset_domain_destroy d ?st = Some st'" "rangesets st' = (rangesets ?st)(d := [])"
    "\<forall>q. rs_objs st' q = (if q \<in> set rs then None else rs_objs ?st q)"
    using Cons.IH [of ?st] by blast
  then show ?case using domain_destroy_step [OF Cons.prems(2) x] by (simp add: fun_eq_iff)
qed

lemma rangeset_new_ok:
  assumes ok: "rs_store_ok st" and r: "rs_objs st r = None" "flags \<le> 1"
  shows "\<exists>st' x. rangeset_new (Some r) d name flags st = Some (Some r, st') \<and> rs_store_ok st' \<and>
    rs_objs st' = (rs_objs st)(r \<mapsto> x) \<and> rs_ranges x = [] \<and> rs_domain x = d \<and> length (rs_name x) \<le> 31 \<and>
    rangesets st' = (case d of None \<Rightarrow> rangesets st | Some i \<Rightarrow> (rangesets st)(i := r # rangesets st i))"
proof -
  have n: "r \<notin> set (rangesets st i)" for i using ok r(1) by (auto simp: rs_store_ok_def)
  have f: "\<not> (flags \<noteq> 0 \<and> flags \<noteq> RANGESETF_prettyprint_hex)" using r(2) by (auto simp: RANGESETF_prettyprint_hex_def)
  let ?x = "\<lparr>rs_ranges = [], rs_domain = d, rs_name = (case name of Some n \<Rightarrow> take 31 n | None \<Rightarrow> ''(no name)''), rs_flags = flags\<rparr>"
  let ?st = "st\<lparr>rs_objs := (rs_objs st)(r \<mapsto> ?x)\<rparr>"
  have "rangeset_new (Some r) d name flags st = Some (Some r, case d of None \<Rightarrow> ?st
      | Some i \<Rightarrow> ?st\<lparr>rangesets := (rangesets st)(i := r # rangesets st i)\<rparr>)"
    using f by (auto simp: rangeset_new_def Let_def split: option.split)
  moreover have "length (rs_name ?x) \<le> 31" by (cases name) simp_all
  moreover have "rs_store_ok ?st" if "d = None" using ok n that by (auto simp: rs_store_ok_def)
  moreover have "rs_store_ok (?st\<lparr>rangesets := (rangesets st)(i := r # rangesets st i)\<rparr>)" if "d = Some i" for i
    using ok n that by (auto simp: rs_store_ok_def)
  ultimately show ?thesis by (cases d) auto
qed

lemma domain_destroy_ok:
  assumes ok: "rs_store_ok st"
  shows "\<exists>st'. rangeset_domain_destroy i st = Some st' \<and> rs_store_ok st' \<and> rangesets st' = (rangesets st)(i := []) \<and>
    (\<forall>a. rs_objs st' a = (case rs_objs st a of None \<Rightarrow> None | Some x \<Rightarrow> if rs_domain x = Some i then None else Some x))"
proof -
  have L: "distinct (rangesets st i)" "\<forall>r\<in>set (rangesets st i). \<exists>x. rs_objs st r = Some x \<and> rs_domain x = Some i"
    using ok by (auto simp: rs_store_ok_def)
  obtain st' where st: "rangeset_domain_destroy i st = Some st'" "rangesets st' = (rangesets st)(i := [])"
    "\<forall>r. rs_objs st' r = (if r \<in> set (rangesets st i) then None else rs_objs st r)"
    using domain_destroy_eq [OF L(1) refl L(2)] by blast
  have m: "r \<in> set (rangesets st d) \<longleftrightarrow> (\<exists>x. rs_objs st r = Some x \<and> rs_domain x = Some d)" for r d
    using ok by (simp add: rs_store_ok_def)
  have "rs_objs st' a = (case rs_objs st a of None \<Rightarrow> None | Some x \<Rightarrow> if rs_domain x = Some i then None else Some x)" for a
    using st(3) by (cases "rs_objs st a") (simp_all add: m)
  moreover have "rs_store_ok st'"
    using ok st(2,3) by (auto simp: rs_store_ok_def m)
  ultimately show ?thesis using st by simp
qed

lemma destroy_ok:
  assumes ok: "rs_store_ok st" and x: "rs_objs st r = Some x"
  shows "\<exists>st'. rangeset_destroy (Some r) st = Some st' \<and> rs_store_ok st' \<and> rs_objs st' = (rs_objs st)(r := None) \<and>
    (\<forall>d. rangesets st' d = filter (\<lambda>q. q \<noteq> r) (rangesets st d))"
proof -
  have D: "distinct (rangesets st d)" and M: "q \<in> set (rangesets st d) \<longleftrightarrow> (\<exists>y. rs_objs st q = Some y \<and> rs_domain y = Some d)" for d q
    using ok by (simp_all add: rs_store_ok_def)
  have off: "filter (\<lambda>q. q \<noteq> r) (rangesets st d) = rangesets st d" if "rs_domain x \<noteq> Some d" for d
    using that x M [of r d] by (auto simp: filter_id_conv)
  have on: "remove1 r (rangesets st d) = filter (\<lambda>q. q \<noteq> r) (rangesets st d)" for d
    using D [of d] by (simp add: distinct_remove1_removeAll removeAll_filter_not_eq) (rule filter_cong, auto)
  let ?st = "st\<lparr>rs_objs := (rs_objs st)(r := None), rangesets := (\<lambda>d. filter (\<lambda>q. q \<noteq> r) (rangesets st d))\<rparr>"
  have "rangeset_destroy (Some r) st = Some ?st"
    using rangeset_destroy_eq [OF x] off on by (cases "rs_domain x") (auto simp: fun_eq_iff)
  moreover have "rs_store_ok ?st" using D M by (auto simp: rs_store_ok_def)
  ultimately show ?thesis by simp
qed

section \<open>Everything that happens to range sets\<close>

text \<open>
  The allocator does not return the address of a live range set, and only live range sets are destroyed or changed.
  A domain is initialised while its list is empty.
\<close>

inductive rs_run :: "rs_store \<Rightarrow> bool" where
  rs_boot: "rs_run \<lparr>rs_objs = Map.empty, rangesets = (\<lambda>_. [])\<rparr>"
| rs_new: "rs_run st \<Longrightarrow> rs_objs st r = None \<Longrightarrow> flags \<le> 1 \<Longrightarrow> rangeset_new (Some r) d name flags st = Some (p, st') \<Longrightarrow> rs_run st'"
| rs_change: "rs_run st \<Longrightarrow> rs_objs st r = Some x \<Longrightarrow> rs_run (st\<lparr>rs_objs := (rs_objs st)(r \<mapsto> x\<lparr>rs_ranges := l\<rparr>)\<rparr>)"
| rs_destroy: "rs_run st \<Longrightarrow> rs_objs st r = Some x \<Longrightarrow> rangeset_destroy (Some r) st = Some st' \<Longrightarrow> rs_run st'"
| rs_initialise: "rs_run st \<Longrightarrow> rangesets st d = [] \<Longrightarrow> rs_run (rangeset_domain_initialise d st)"
| rs_domain_destroy: "rs_run st \<Longrightarrow> rangeset_domain_destroy d st = Some st' \<Longrightarrow> rs_run st'"

lemma rs_run_ok: "rs_run st \<Longrightarrow> rs_store_ok st"
proof (induction rule: rs_run.induct)
  case (rs_new st r flags d name p st')
  then show ?case using rangeset_new_ok [OF rs_new.IH rs_new.hyps(2,3), of d name] by auto
next
  case (rs_destroy st r x st')
  then show ?case using destroy_ok [OF rs_destroy.IH rs_destroy.hyps(2)] by auto
next
  case (rs_initialise st d)
  then show ?case by (simp add: rangeset_domain_initialise_def fun_upd_idem)
next
  case (rs_domain_destroy st d st')
  then show ?case using domain_destroy_ok [OF rs_domain_destroy.IH, of d] by auto
qed (auto simp: rs_store_ok_def)

text \<open>
  C26.  Range sets live and die with their domain.  After any sequence of creations, changes and
  destructions of range sets and of initialisations and destructions of domains, the list of every domain holds
  exactly its live range sets, each once.  A new range set (of a known kind, at a free
  address) is empty, and on the list of its domain if it has one; destroying a range set frees it, takes it off the
  list it is on, and changes nothing else; destroying a domain hits no \<open>BUG_ON\<close>, frees exactly its range
  sets and leaves its list empty.
\<close>

theorem rangeset_domain_life:
  assumes "rs_run st"
  shows "(\<forall>d. distinct (rangesets st d) \<and> set (rangesets st d) = {q. \<exists>y. rs_objs st q = Some y \<and> rs_domain y = Some d}) \<and>
    (rs_objs st r = None \<and> flags \<le> 1 \<longrightarrow>
      (\<exists>st' x. rangeset_new (Some r) d name flags st = Some (Some r, st') \<and>
        rs_objs st' = (rs_objs st)(r \<mapsto> x) \<and> rs_ranges x = [] \<and> rs_domain x = d \<and> length (rs_name x) \<le> 31 \<and>
        rangesets st' = (case d of None \<Rightarrow> rangesets st | Some i \<Rightarrow> (rangesets st)(i := r # rangesets st i)))) \<and>
    (rs_objs st r = Some x \<longrightarrow>
      (\<exists>st'. rangeset_destroy (Some r) st = Some st' \<and> rs_objs st' = (rs_objs st)(r := None) \<and>
        (\<forall>d. rangesets st' d = filter (\<lambda>q. q \<noteq> r) (rangesets st d)))) \<and>
    (\<exists>st'. rangeset_domain_destroy i st = Some st' \<and> rangesets st' = (rangesets st)(i := []) \<and>
      (\<forall>a. rs_objs st' a = (case rs_objs st a of None \<Rightarrow> None | Some x \<Rightarrow> if rs_domain x = Some i then None else Some x)))"
proof -
  note ok = rs_run_ok [OF assms]
  have "\<forall>d. distinct (rangesets st d) \<and> set (rangesets st d) = {q. \<exists>y. rs_objs st q = Some y \<and> rs_domain y = Some d}"
    using ok by (auto simp: rs_store_ok_def)
  then show ?thesis
    using rangeset_new_ok [OF ok] destroy_ok [OF ok] domain_destroy_ok [OF ok] by blast
qed

definition sample_store :: rs_store where
  "sample_store = snd (the (rangeset_new (Some 4096) (Some 1) (Some ''Interrupts'') 0 \<lparr>rs_objs = Map.empty, rangesets = (\<lambda>_. [])\<rparr>))"

lemma sample_store_eq:
  "rangeset_new (Some 4096) (Some 1) (Some ''Interrupts'') 0 \<lparr>rs_objs = Map.empty, rangesets = (\<lambda>_. [])\<rparr> = Some (Some 4096, sample_store)"
  by (simp add: sample_store_def rangeset_new_def)

lemma sample_store_run: "rs_run sample_store"
  by (rule rs_new [OF rs_boot _ _ sample_store_eq]) simp_all

lemma sample_store_objs: "rangesets sample_store 1 = [4096]" "\<exists>x. rs_objs sample_store 4096 = Some x \<and> rs_domain x = Some 1"
  by (simp_all add: sample_store_def rangeset_new_def)

theorem rangeset_domain_life_witness:
  "\<exists>st' st''. rangeset_destroy (Some 4096) sample_store = Some st' \<and> rs_objs st' 4096 = None \<and> rangesets st' 1 = [] \<and>
    rangeset_domain_destroy 1 sample_store = Some st'' \<and> rs_objs st'' 4096 = None"
proof -
  obtain x where x: "rs_objs sample_store 4096 = Some x" "rs_domain x = Some 1" using sample_store_objs(2) by blast
  obtain st' st'' where "rangeset_destroy (Some 4096) sample_store = Some st'" "rs_objs st' = (rs_objs sample_store)(4096 := None)"
    "\<forall>d. rangesets st' d = filter (\<lambda>q. q \<noteq> 4096) (rangesets sample_store d)"
    "rangeset_domain_destroy 1 sample_store = Some st''"
    "\<forall>a. rs_objs st'' a = (case rs_objs sample_store a of None \<Rightarrow> None | Some x \<Rightarrow> if rs_domain x = Some 1 then None else Some x)"
    using rangeset_domain_life [OF sample_store_run, of 4096 0 None None x 1] x(1) by blast
  then show ?thesis using x sample_store_objs(1) by simp
qed

end
