(* ===== verification/Iocap.thy ===== *)
theory Iocap
  imports Rangeset
begin

text \<open>
  The capabilities of a domain, \<open>xen/include/xen/iocap.h\<close> and \<open>xen/include/asm-x86/iocap.h\<close>: macros that grant,
  revoke and test I/O memory, I/O ports and interrupts by calls on range sets.  The fields of \<open>struct domain\<close> they
  use are compiled only where \<open>__UXEN__\<close> is not defined.  The locale \<open>cap_store\<close> is the
  contract of such a store; it is interpreted on the range sets and on the interrupt capabilities,
  and what a sequence of grants and revocations leaves is proved in it once.
\<close>

section \<open>The macros\<close>

record arch_caps =
  ioport_caps :: ranges

record io_caps =
  iomem_caps :: ranges
  irq_caps :: ranges
  arch :: arch_caps

definition iomem_permit_access :: "errno option \<Rightarrow> bool \<Rightarrow> io_caps \<Rightarrow> nat \<Rightarrow> nat \<Rightarrow> (errno option \<times> io_caps) option" where
  "iomem_permit_access xsm ok d s e =
     map_option (map_prod id (\<lambda>l. d\<lparr>iomem_caps := l\<rparr>)) (rangeset_add_range xsm ok (iomem_caps d) s e)"

definition iomem_deny_access :: "errno option \<Rightarrow> bool \<Rightarrow> io_caps \<Rightarrow> nat \<Rightarrow> nat \<Rightarrow> (errno option \<times> io_caps) option" where
  "iomem_deny_access xsm ok d s e =
     map_option (map_prod id (\<lambda>l. d\<lparr>iomem_caps := l\<rparr>)) (rangeset_remove_range xsm ok (iomem_caps d) s e)"

definition iomem_access_permitted :: "io_caps \<Rightarrow> nat \<Rightarrow> nat \<Rightarrow> bool" where
  "iomem_access_permitted d s e = rangeset_contains_range (iomem_caps d) s e"

definition irq_permit_access :: "errno option \<Rightarrow> bool \<Rightarrow> io_caps \<Rightarrow> nat \<Rightarrow> (errno option \<times> io_caps) option" where
  "irq_permit_access xsm ok d i =
     map_option (map_prod id (\<lambda>l. d\<lparr>irq_caps := l\<rparr>)) (rangeset_add_singleton xsm ok (irq_caps d) i)"

definition irq_deny_access :: "errno option \<Rightarrow> bool \<Rightarrow> io_caps \<Rightarrow> nat \<Rightarrow> (errno option \<times> io_caps) option" where
  "irq_deny_access xsm ok d i =
     map_option (map_prod id (\<lambda>l. d\<lparr>irq_caps := l\<rparr>)) (rangeset_remove_singleton xsm ok (irq_caps d) i)"

definition irqs_permit_access :: "errno option \<Rightarrow> bool \<Rightarrow> io_caps \<Rightarrow> nat \<Rightarrow> nat \<Rightarrow> (errno option \<times> io_caps) option" where
  "irqs_permit_access xsm ok d s e =
     map_option (map_prod id (\<lambda>l. d\<lparr>irq_caps := l\<rparr>)) (rangeset_add_range xsm ok (irq_caps d) s e)"

definition irqs_deny_access :: "errno option \<Rightarrow> bool \<Rightarrow> io_caps \<Rightarrow> nat \<Rightarrow> nat \<Rightarrow> (errno option \<times> io_caps) option" where
  "irqs_deny_access xsm ok d s e =
     map_option (map_prod id (\<lambda>l. d\<lparr>irq_caps := l\<rparr>)) (rangeset_remove_range xsm ok (irq_caps d) s e)"

definition irq_access_permitted :: "io_caps \<Rightarrow> nat \<Rightarrow> bool" where
  "irq_access_permitted d i = rangeset_contains_singleton (irq_caps d) i"

definition ioports_permit_access :: "errno option \<Rightarrow> bool \<Rightarrow> io_caps \<Rightarrow> nat \<Rightarrow> nat \<Rightarrow> (errno option \<times> io_caps) option" where
  "ioports_permit_access xsm ok d s e =
     map_option (map_prod id (\<lambda>l. d\<lparr>arch := (arch d)\<lparr>ioport_caps := l\<rparr>\<rparr>)) (rangeset_add_range xsm ok (ioport_caps (arch d)) s e)"

definition ioports_deny_access :: "errno option \<Rightarrow> bool \<Rightarrow> io_caps \<Rightarrow> nat \<Rightarrow> nat \<Rightarrow> (errno option \<times> io_caps) option" where
  "ioports_deny_access xsm ok d s e =
     map_option (map_prod id (\<lambda>l. d\<lparr>arch := (arch d)\<lparr>ioport_caps := l\<rparr>\<rparr>)) (rangeset_remove_range xsm ok (ioport_caps (arch d)) s e)"

definition ioports_access_permitted :: "io_caps \<Rightarrow> nat \<Rightarrow> nat \<Rightarrow> bool" where
  "ioports_access_permitted d s e = rangeset_contains_range (ioport_caps (arch d)) s e"

definition cache_flush_permitted :: "io_caps \<Rightarrow> bool" where
  "cache_flush_permitted d \<longleftrightarrow>
     \<not> rangeset_is_empty (Some (iomem_caps d)) \<or> \<not> rangeset_is_empty (Some (ioport_caps (arch d)))"

definition multipage_allocation_permitted :: "io_caps \<Rightarrow> nat \<Rightarrow> bool" where
  "multipage_allocation_permitted d order \<longleftrightarrow>
     order \<le> 9 \<or> \<not> rangeset_is_empty (Some (iomem_caps d)) \<or> \<not> rangeset_is_empty (Some (ioport_caps (arch d)))"

section \<open>The contract of a capability store\<close>

text \<open>
  What revoking \<open>[s, e]\<close> adds to a set, by the flaw of \<open>rangeset_remove_range\<close>: if it meets the set but \<open>s\<close> itself
  is not in it, the gap below \<open>s\<close>, down to the next member.
\<close>

definition revoke_gap :: "nat set \<Rightarrow> nat \<Rightarrow> nat \<Rightarrow> nat set" where
  "revoke_gap S s e = {k. S \<inter> {s..e} \<noteq> {} \<and> k < s \<and> {k..s} \<inter> S = {} \<and> (\<exists>x\<in>S. x < k)}"

datatype cap_op = Permit1 nat | Permit nat nat | Deny1 nat | Deny nat nat

text \<open>What a successful call does to the set, and what its caller means it to do.\<close>

fun cap_effect :: "cap_op \<Rightarrow> nat set \<Rightarrow> nat set" where
  "cap_effect (Permit1 i) S = insert i S"
| "cap_effect (Permit s e) S = S \<union> {s..e}"
| "cap_effect (Deny1 i) S = S - {i}"
| "cap_effect (Deny s e) S = S - {s..e} \<union> revoke_gap S s e"

fun cap_intent :: "cap_op \<Rightarrow> nat set \<Rightarrow> nat set" where
  "cap_intent (Deny s e) S = S - {s..e}"
| "cap_intent op S = cap_effect op S"

fun revokes_range :: "cap_op \<Rightarrow> bool" where
  "revokes_range (Deny s e) = True"
| "revokes_range op = False"

fun cap_op_ok :: "cap_op \<Rightarrow> bool" where
  "cap_op_ok (Permit1 i) \<longleftrightarrow> i < 2 ^ 64"
| "cap_op_ok (Permit s e) \<longleftrightarrow> s \<le> e \<and> e < 2 ^ 64"
| "cap_op_ok (Deny1 i) \<longleftrightarrow> i < 2 ^ 64"
| "cap_op_ok (Deny s e) \<longleftrightarrow> s \<le> e \<and> e < 2 ^ 64 - 1"

text \<open>A run of calls; each carries whether an allocation it makes succeeds, and returns its error.\<close>

fun cap_call ::
  "(bool \<Rightarrow> 'r \<Rightarrow> nat \<Rightarrow> 'a) \<Rightarrow> (bool \<Rightarrow> 'r \<Rightarrow> nat \<Rightarrow> nat \<Rightarrow> 'a) \<Rightarrow> (bool \<Rightarrow> 'r \<Rightarrow> nat \<Rightarrow> 'a) \<Rightarrow>
    (bool \<Rightarrow> 'r \<Rightarrow> nat \<Rightarrow> nat \<Rightarrow> 'a) \<Rightarrow> cap_op \<Rightarrow> bool \<Rightarrow> 'r \<Rightarrow> 'a" where
  "cap_call add1 add del1 del (Permit1 i) ok r = add1 ok r i"
| "cap_call add1 add del1 del (Permit s e) ok r = add ok r s e"
| "cap_call add1 add del1 del (Deny1 i) ok r = del1 ok r i"
| "cap_call add1 add del1 del (Deny s e) ok r = del ok r s e"

fun cap_run ::
  "(cap_op \<Rightarrow> bool \<Rightarrow> 'r \<Rightarrow> (errno option \<times> 'r) option) \<Rightarrow> (cap_op \<times> bool) list \<Rightarrow> 'r \<Rightarrow> (errno option list \<times> 'r) option" where
  "cap_run call [] r = Some ([], r)"
| "cap_run call ((op, ok) # ops) r =
     do {
       (rc, r') \<leftarrow> call op ok r;
       (rcs, r'') \<leftarrow> cap_run call ops r';
       Some (rc # rcs, r'')
     }"

fun granted :: "(cap_op \<Rightarrow> nat set \<Rightarrow> nat set) \<Rightarrow> (cap_op \<times> bool) list \<Rightarrow> errno option list \<Rightarrow> nat set \<Rightarrow> nat set" where
  "granted f ((op, ok) # ops) (rc # rcs) S = granted f ops rcs (if rc = None then f op S else S)"
| "granted f _ _ S = S"

locale cap_store =
  fixes wf :: "'r \<Rightarrow> bool" and elems :: "'r \<Rightarrow> nat set"
    and add1 :: "bool \<Rightarrow> 'r \<Rightarrow> nat \<Rightarrow> (errno option \<times> 'r) option"
    and add :: "bool \<Rightarrow> 'r \<Rightarrow> nat \<Rightarrow> nat \<Rightarrow> (errno option \<times> 'r) option"
    and del1 :: "bool \<Rightarrow> 'r \<Rightarrow> nat \<Rightarrow> (errno option \<times> 'r) option"
    and del :: "bool \<Rightarrow> 'r \<Rightarrow> nat \<Rightarrow> nat \<Rightarrow> (errno option \<times> 'r) option"
    and has :: "'r \<Rightarrow> nat \<Rightarrow> bool"
  assumes call_law: "wf r \<Longrightarrow> cap_op_ok op \<Longrightarrow>
      \<exists>rc r'. cap_call add1 add del1 del op ok r = Some (rc, r') \<and> wf r' \<and> (ok \<longrightarrow> rc = None) \<and>
        elems r' = (if rc = None then cap_effect op (elems r) else elems r)"
    and has_law: "wf r \<Longrightarrow> has r i \<longleftrightarrow> i \<in> elems r"
begin

lemma run_exact:
  "wf r \<Longrightarrow> \<forall>(op, ok)\<in>set ops. cap_op_ok op \<Longrightarrow>
    \<exists>rcs r'. cap_run (cap_call add1 add del1 del) ops r = Some (rcs, r') \<and> length rcs = length ops \<and>
      (\<forall>i. has r' i \<longleftrightarrow> i \<in> granted cap_effect ops rcs (elems r)) \<and> (list_all snd ops \<longrightarrow> list_all (\<lambda>rc. rc = None) rcs)"
proof (induction ops arbitrary: r)
  case (Cons o' ops)
  obtain op ok where o: "o' = (op, ok)" by (cases o')
  obtain rc r' where r': "cap_call add1 add del1 del op ok r = Some (rc, r')" "wf r'" "ok \<longrightarrow> rc = None"
    "elems r' = (if rc = None then cap_effect op (elems r) else elems r)"
    using call_law [OF Cons.prems(1), of op ok] Cons.prems(2) o by auto
  obtain rcs r'' where "cap_run (cap_call add1 add del1 del) ops r' = Some (rcs, r'')" "length rcs = length ops"
    "\<forall>i. has r'' i \<longleftrightarrow> i \<in> granted cap_effect ops rcs (elems r')" "list_all snd ops \<longrightarrow> list_all (\<lambda>rc. rc = None) rcs"
    using Cons.IH [OF r'(2)] Cons.prems(2) by auto
  then show ?case using r' o by simp
qed (simp add: has_law)

end

text \<open>Effects against intents: nothing granted is lost, and only range revocations grant too much.\<close>

lemma intent_subset: "S \<subseteq> T \<Longrightarrow> cap_intent op S \<subseteq> cap_effect op T"
  by (cases op) auto

lemma granted_intent: "S \<subseteq> T \<Longrightarrow> granted cap_intent ops rcs S \<subseteq> granted cap_effect ops rcs T"
proof (induction cap_intent ops rcs S arbitrary: T rule: granted.induct)
  case (1 op ok ops rc rcs S)
  then show ?case using intent_subset [of S T op] by simp
qed simp_all

lemma granted_exact:
  "\<not> list_ex (\<lambda>(op, ok). revokes_range op) ops \<Longrightarrow> granted cap_effect ops rcs S = granted cap_intent ops rcs S"
proof (induction cap_intent ops rcs S rule: granted.induct)
  case (1 op ok ops rc rcs S)
  then have "cap_effect op S = cap_intent op S" by (cases op) simp_all
  with 1 show ?case by (cases rc) simp_all
qed simp_all

section \<open>Range sets keep the contract\<close>

lemma gap_in:
  assumes "s \<in> S"
  shows "revoke_gap S s e = {}"
proof -
  have "{k..s} \<inter> S \<noteq> {}" if "k < s" for k
  proof -
    have "s \<in> {k..s} \<inter> S" using that assms by simp
    then show ?thesis by blast
  qed
  then show ?thesis unfolding revoke_gap_def by blast
qed

lemma gap_below:
  assumes "\<forall>x\<in>S. x \<le> s \<longrightarrow> x \<le> m" "m \<in> S" "m < s"
  shows "revoke_gap S s e = (if S \<inter> {s..e} = {} then {} else {m + 1..<s})"
proof (cases "S \<inter> {s..e} = {}")
  case True
  then show ?thesis by (simp add: revoke_gap_def)
next
  case False
  have "k \<in> revoke_gap S s e \<longleftrightarrow> k \<in> {m + 1..<s}" for k
  proof
    assume "k \<in> revoke_gap S s e"
    then have k: "k < s" "{k..s} \<inter> S = {}" by (simp_all add: revoke_gap_def)
    have "m \<notin> {k..s}" using k(2) assms(2) by blast
    then show "k \<in> {m + 1..<s}" using assms(3) k(1) by simp
  next
    assume k: "k \<in> {m + 1..<s}"
    have "x \<notin> S" if "x \<in> {k..s}" for x
    proof
      assume "x \<in> S"
      then have "x \<le> m" using assms(1) that by simp
      with that k show False by simp
    qed
    then have "{k..s} \<inter> S = {}" by blast
    moreover have "\<exists>x\<in>S. x < k" using assms(2) k by (intro bexI [of _ m]) simp_all
    ultimately show "k \<in> revoke_gap S s e" using False k by (simp add: revoke_gap_def)
  qed
  then have "revoke_gap S s e = {m + 1..<s}" by blast
  with False show ?thesis by simp
qed

lemma slip_gap:
  assumes "rs_wf l" "s \<le> e"
  shows "slip l s e = revoke_gap (rs_set l) s e"
proof -
  obtain A B C where l: "l = A @ B @ C" "\<forall>a\<in>set A. r_s a \<le> s" "\<forall>b\<in>set B. s < r_s b \<and> r_s b \<le> e"
    "\<forall>c\<in>set C. e < r_s c" and f: "find_range l s = (if A = [] then None else Some (length A - 1))"
    "find_range l e = (if A @ B = [] then None else Some (length (A @ B) - 1))"
    by (rule rs_wf_split2 [OF assms])
  have high: "s < k" if "k \<in> rs_set B \<or> k \<in> rs_set C" for k
    using that l(3,4) assms(2) by (fastforce simp: rs_set_def)
  have "rs_set C \<inter> {s..e} = {}" using l(4) by (fastforce simp: rs_set_def)
  moreover have "r_s (hd B) \<in> rs_set B \<inter> {s..e}" if "B \<noteq> []"
    using that l(1,3) rs_wf_mem [OF assms(1), of "hd B"] by (cases B) auto
  ultimately have met: "(rs_set B \<union> rs_set C) \<inter> {s..e} = {} \<longleftrightarrow> B = []"
    using rs_set_Nil by (metis Int_Un_distrib2 Un_empty empty_iff inf_bot_left)
  show ?thesis
  proof (cases A rule: rev_cases)
    case Nil
    then have "slip l s e = {}" using f by (simp add: slip_def)
    moreover have "s < x" if "x \<in> rs_set l" for x using that high l(1) Nil by auto
    ultimately show ?thesis by (fastforce simp: revoke_gap_def)
  next
    case (snoc A' a)
    have w: "rs_wf (A' @ [a])" "r_s a \<le> r_e a" "r_s a \<le> s" using assms(1) l(1,2) snoc by (auto simp: rs_wf_simps)
    have low: "k \<le> r_e a" if "k \<in> rs_set A" for k using that rs_wf_last [OF w(1)] snoc by (fastforce simp: rs_set_def)
    have sl: "slip l s e = (if B \<noteq> [] \<and> r_s a < s then {r_e a + 1..<s} else {})"
      using f l(1) snoc by (simp add: slip_def nth_append)
    show ?thesis
    proof (cases "s \<le> r_e a")
      case True
      then have "s \<in> rs_set l" using w(3) l(1) snoc by auto
      then show ?thesis using sl True by (simp add: gap_in)
    next
      case False
      have "rs_set A \<inter> {s..e} = {}" using low False by fastforce
      then have "rs_set l \<inter> {s..e} = {} \<longleftrightarrow> B = []" using met l(1) by auto
      moreover have "\<forall>x\<in>rs_set l. x \<le> s \<longrightarrow> x \<le> r_e a" using high low l(1) by force
      moreover have "r_e a \<in> rs_set l" using w(2) l(1) snoc by simp
      ultimately show ?thesis using gap_below [of "rs_set l" s "r_e a" e] sl False w(2) by simp
    qed
  qed
qed

lemma rs_call_law:
  assumes "rs_wf l" "cap_op_ok op"
  shows "\<exists>rc l'. cap_call (rangeset_add_singleton None) (rangeset_add_range None) (rangeset_remove_singleton None)
      (rangeset_remove_range None) op ok l = Some (rc, l') \<and> rs_wf l' \<and> (ok \<longrightarrow> rc = None) \<and>
    rs_set l' = (if rc = None then cap_effect op (rs_set l) else rs_set l)"
proof (cases op)
  case (Permit1 i)
  then show ?thesis using add_range_law [OF assms(1), of i i ok] assms(2) by (fastforce simp: rangeset_add_singleton_def)
next
  case (Permit s e)
  then show ?thesis using add_range_law [OF assms(1), of s e ok] assms(2) by fastforce
next
  case (Deny1 i)
  then show ?thesis using remove_singleton_law [OF assms(1), of i ok] assms(2) by fastforce
next
  case (Deny s e)
  then show ?thesis
    using remove_range_law [OF assms(1), of s e ok] assms(2) slip_gap [OF assms(1), of s e] by fastforce
qed

interpretation rs: cap_store rs_wf rs_set "rangeset_add_singleton None" "rangeset_add_range None"
  "rangeset_remove_singleton None" "rangeset_remove_range None" rangeset_contains_singleton
proof
  show "rangeset_contains_singleton r i \<longleftrightarrow> i \<in> rs_set r" if "rs_wf r" for r i
    using contains_iff [OF that, of i i] by (simp add: rangeset_contains_singleton_def)
qed (rule rs_call_law)

lemma irq_call_eq:
  "cap_call (irq_permit_access None) (irqs_permit_access None) (irq_deny_access None) (irqs_deny_access None) op ok d =
    map_option (map_prod id (\<lambda>l. d\<lparr>irq_caps := l\<rparr>))
      (cap_call (rangeset_add_singleton None) (rangeset_add_range None) (rangeset_remove_singleton None)
        (rangeset_remove_range None) op ok (irq_caps d))"
  by (cases op) (simp_all add: irq_permit_access_def irqs_permit_access_def irq_deny_access_def irqs_deny_access_def)

interpretation irqs: cap_store "\<lambda>d. rs_wf (irq_caps d)" "\<lambda>d. rs_set (irq_caps d)" "irq_permit_access None"
  "irqs_permit_access None" "irq_deny_access None" "irqs_deny_access None" irq_access_permitted
proof
  show "\<exists>rc r'. cap_call (irq_permit_access None) (irqs_permit_access None) (irq_deny_access None) (irqs_deny_access None) op ok r =
        Some (rc, r') \<and> rs_wf (irq_caps r') \<and> (ok \<longrightarrow> rc = None) \<and>
      rs_set (irq_caps r') = (if rc = None then cap_effect op (rs_set (irq_caps r)) else rs_set (irq_caps r))"
    if "rs_wf (irq_caps r)" "cap_op_ok op" for r op ok
    using rs_call_law [OF that, of ok] by (auto simp: irq_call_eq)
  show "irq_access_permitted r i \<longleftrightarrow> i \<in> rs_set (irq_caps r)" if "rs_wf (irq_caps r)" for r i
    unfolding irq_access_permitted_def by (rule rs.has_law [OF that])
qed

section \<open>Interrupt capabilities\<close>

text \<open>
  C25.  What a sequence of interrupt grants and revocations leaves.  Whatever calls of the four macros
  \<open>irq_permit_access\<close>, \<open>irqs_permit_access\<close>, \<open>irq_deny_access\<close> and \<open>irqs_deny_access\<close> a domain without
  interrupts goes through (ranges revoked end below the largest number), and whichever allocations fail,
  \<open>irq_access_permitted\<close> afterwards tells exactly the set the successful calls make: grants are
  union, revoking a single interrupt is removal, revoking a range removes it but adds \<open>revoke_gap\<close>.  So every
  interrupt granted and not revoked since is permitted, whatever the calls; and without revocations of
  ranges no other interrupt is.  If no allocation fails, every call returns 0.
\<close>

theorem irq_capabilities_exact:
  assumes "irq_caps d = []" "\<forall>(op, ok)\<in>set ops. cap_op_ok op"
  shows "\<exists>rcs d'. cap_run (cap_call (irq_permit_access None) (irqs_permit_access None) (irq_deny_access None)
        (irqs_deny_access None)) ops d = Some (rcs, d') \<and> length rcs = length ops \<and>
    (\<forall>i. irq_access_permitted d' i \<longleftrightarrow> i \<in> granted cap_effect ops rcs {}) \<and>
    (\<forall>i\<in>granted cap_intent ops rcs {}. irq_access_permitted d' i) \<and>
    (\<not> list_ex (\<lambda>(op, ok). revokes_range op) ops \<longrightarrow> (\<forall>i. irq_access_permitted d' i \<longleftrightarrow> i \<in> granted cap_intent ops rcs {})) \<and>
    (list_all snd ops \<longrightarrow> list_all (\<lambda>rc. rc = None) rcs)"
proof -
  obtain rcs d' where r: "cap_run (cap_call (irq_permit_access None) (irqs_permit_access None) (irq_deny_access None)
        (irqs_deny_access None)) ops d = Some (rcs, d')" "length rcs = length ops"
    "\<forall>i. irq_access_permitted d' i \<longleftrightarrow> i \<in> granted cap_effect ops rcs {}" "list_all snd ops \<longrightarrow> list_all (\<lambda>rc. rc = None) rcs"
    using irqs.run_exact [of d ops] assms by auto
  then show ?thesis using granted_intent [of "{}" "{}" ops rcs] granted_exact [of ops rcs "{}"] by blast
qed

definition sample_cap_ops :: "(cap_op \<times> bool) list" where
  "sample_cap_ops = [(Permit 0 1, True), (Permit 5 6, True), (Deny1 1, True), (Deny 4 5, True)]"

lemma sample_granted: "granted cap_effect sample_cap_ops [None, None, None, None] {} = {0, 1, 2, 3, 6}"
proof -
  have "{0, 5, 6} \<inter> {4..5} \<noteq> ({} :: nat set)" by simp
  then have g: "revoke_gap {0, 5, 6} 4 5 = {1..<4}" using gap_below [of "{0, 5, 6}" 4 0 5] by simp
  have "{} \<union> {0..1} \<union> {5..6} - {1} = {0, 5, 6 :: nat}" by auto
  moreover have "{0, 5, 6} - {4..5} \<union> {1..<4} = {0, 1, 2, 3, 6 :: nat}" by auto
  ultimately show ?thesis by (simp add: sample_cap_ops_def g)
qed

theorem irq_capabilities_exact_witness:
  "\<exists>rcs d'. cap_run (cap_call (irq_permit_access None) (irqs_permit_access None) (irq_deny_access None)
        (irqs_deny_access None)) sample_cap_ops \<lparr>iomem_caps = [], irq_caps = [], arch = \<lparr>ioport_caps = []\<rparr>\<rparr> = Some (rcs, d') \<and>
    irq_access_permitted d' 0 \<and> irq_access_permitted d' 3 \<and> irq_access_permitted d' 6 \<and> \<not> irq_access_permitted d' 5"
proof -
  let ?d = "\<lparr>iomem_caps = [], irq_caps = [], arch = \<lparr>ioport_caps = []\<rparr>\<rparr>"
  have ok: "\<forall>(op, ok)\<in>set sample_cap_ops. cap_op_ok op" "irq_caps ?d = []" by (simp_all add: sample_cap_ops_def)
  obtain rcs d' where r: "cap_run (cap_call (irq_permit_access None) (irqs_permit_access None) (irq_deny_access None)
        (irqs_deny_access None)) sample_cap_ops ?d = Some (rcs, d')"
    "length rcs = length sample_cap_ops" "\<forall>i. irq_access_permitted d' i \<longleftrightarrow> i \<in> granted cap_effect sample_cap_ops rcs {}"
    "list_all snd sample_cap_ops \<longrightarrow> list_all (\<lambda>rc. rc = None) rcs"
    using irq_capabilities_exact [OF ok(2,1)] by blast
  have "length rcs = 4" "list_all (\<lambda>rc. rc = None) rcs" using r(2,4) by (simp_all add: sample_cap_ops_def)
  then have "rcs = [None, None, None, None]" by (auto simp: length_Suc_conv eval_nat_numeral)
  then have "irq_access_permitted d' i \<longleftrightarrow> i \<in> {0, 1, 2, 3, 6}" for i using r(3) sample_granted by simp
  then show ?thesis using r(1) by simp
qed

end
