(* ===== verification/Vlapic.thy ===== *)
theory Vlapic
  imports Uxen_Prelude
begin

unbundle bit_operations_syntax

text \<open>
  The virtual local APIC, \<open>xen/arch/x86/hvm/vlapic.c\<close>: its register page, the three 256-bit vector
  bitmaps (request, in service, trigger mode), priorities, destination matching and the timer
  registers.  This theory holds what concerns one local APIC; what needs the whole domain
  (inter-processor interrupts, the IO-APIC, register writes with effects elsewhere) is not modelled.
  The lemmas show that the bitmap routines implement finite sets of vectors and their maximum.
\<close>

section \<open>Registers\<close>

definition APIC_ID :: nat where "APIC_ID = 0x20"
definition APIC_LVR :: nat where "APIC_LVR = 0x30"
definition APIC_TASKPRI :: nat where "APIC_TASKPRI = 0x80"
definition APIC_PROCPRI :: nat where "APIC_PROCPRI = 0xA0"
definition APIC_EOI :: nat where "APIC_EOI = 0xB0"
definition APIC_LDR :: nat where "APIC_LDR = 0xD0"
definition APIC_DFR :: nat where "APIC_DFR = 0xE0"
definition APIC_SPIV :: nat where "APIC_SPIV = 0xF0"
definition APIC_ISR :: nat where "APIC_ISR = 0x100"
definition APIC_TMR :: nat where "APIC_TMR = 0x180"
definition APIC_IRR :: nat where "APIC_IRR = 0x200"
definition APIC_ESR :: nat where "APIC_ESR = 0x280"
definition APIC_ICR :: nat where "APIC_ICR = 0x300"
definition APIC_ICR2 :: nat where "APIC_ICR2 = 0x310"
definition APIC_LVTT :: nat where "APIC_LVTT = 0x320"
definition APIC_LVTTHMR :: nat where "APIC_LVTTHMR = 0x330"
definition APIC_LVTPC :: nat where "APIC_LVTPC = 0x340"
definition APIC_LVT0 :: nat where "APIC_LVT0 = 0x350"
definition APIC_LVT1 :: nat where "APIC_LVT1 = 0x360"
definition APIC_LVTERR :: nat where "APIC_LVTERR = 0x370"
definition APIC_TMICT :: nat where "APIC_TMICT = 0x380"
definition APIC_TMCCT :: nat where "APIC_TMCCT = 0x390"
definition APIC_TDCR :: nat where "APIC_TDCR = 0x3E0"
definition APIC_SELF_IPI :: nat where "APIC_SELF_IPI = 0x3F0"

lemmas apic_regs = APIC_ID_def APIC_LVR_def APIC_TASKPRI_def APIC_PROCPRI_def APIC_EOI_def APIC_LDR_def APIC_DFR_def
  APIC_SPIV_def APIC_ISR_def APIC_TMR_def APIC_IRR_def APIC_ESR_def APIC_ICR_def APIC_ICR2_def APIC_LVTT_def
  APIC_LVTTHMR_def APIC_LVTPC_def APIC_LVT0_def APIC_LVT1_def APIC_LVTERR_def APIC_TMICT_def APIC_TMCCT_def
  APIC_TDCR_def APIC_SELF_IPI_def

definition APIC_MODE_MASK :: u32w where "APIC_MODE_MASK = 0x700"
definition APIC_VECTOR_MASK :: u32w where "APIC_VECTOR_MASK = 0xFF"
definition APIC_LVT_MASKED :: u32w where "APIC_LVT_MASKED = 0x10000"
definition APIC_TIMER_MODE_MASK :: u32w where "APIC_TIMER_MODE_MASK = 0x60000"
definition LVT_MASK :: u32w where "LVT_MASK = 0x10000 OR 0x1000 OR 0xFF"
definition LINT_MASK :: u32w where "LINT_MASK = LVT_MASK OR 0x700 OR 0x2000 OR 0x4000 OR 0x8000"

definition VLAPIC_VERSION :: u32w where "VLAPIC_VERSION = 0x00050014"
definition VLAPIC_LVT_NUM :: nat where "VLAPIC_LVT_NUM = 6"
definition APIC_BUS_CYCLE_NS :: nat where "APIC_BUS_CYCLE_NS = 10"

definition vlapic_lvt_mask :: "u32w list" where
  "vlapic_lvt_mask =
     [LVT_MASK OR APIC_TIMER_MODE_MASK, LVT_MASK OR APIC_MODE_MASK, LVT_MASK OR APIC_MODE_MASK, LINT_MASK, LINT_MASK, LVT_MASK]"

text \<open>
  \<open>struct vlapic\<close>: the register page is a map from offsets to 32-bit registers; of the platform timer only its
  interrupt number is kept here; \<open>la_init_sipi\<close> is the pending INIT or SIPI, a VCPU and its command.
\<close>

record vlapic =
  la_regs :: "nat \<Rightarrow> u32w"
  la_apic_base_msr :: "64 word"
  la_disabled :: u32w
  la_timer_divisor :: nat
  la_tdt_msr :: nat
  la_timer_last_update :: nat
  la_pt_irq :: nat
  la_init_sipi :: "(nat \<times> u32w) option"

definition vlapic_get_reg :: "vlapic \<Rightarrow> nat \<Rightarrow> u32w" where
  "vlapic_get_reg l r = la_regs l r"

definition vlapic_set_reg :: "nat \<Rightarrow> u32w \<Rightarrow> vlapic \<Rightarrow> vlapic" where
  "vlapic_set_reg r v l = l\<lparr>la_regs := (la_regs l)(r := v)\<rparr>"

definition VLAPIC_HW_DISABLED :: u32w where "VLAPIC_HW_DISABLED = 1"
definition VLAPIC_SW_DISABLED :: u32w where "VLAPIC_SW_DISABLED = 2"

definition vlapic_sw_disabled :: "vlapic \<Rightarrow> bool" where
  "vlapic_sw_disabled l \<longleftrightarrow> la_disabled l AND VLAPIC_SW_DISABLED \<noteq> 0"

definition vlapic_hw_disabled :: "vlapic \<Rightarrow> bool" where
  "vlapic_hw_disabled l \<longleftrightarrow> la_disabled l AND VLAPIC_HW_DISABLED \<noteq> 0"

definition vlapic_enabled :: "vlapic \<Rightarrow> bool" where
  "vlapic_enabled l \<longleftrightarrow> la_disabled l = 0"

definition vlapic_x2apic_mode :: "vlapic \<Rightarrow> bool" where
  "vlapic_x2apic_mode l \<longleftrightarrow> bit (la_apic_base_msr l) 10"

text \<open>The mask \<open>0xfffff << 12\<close> is a negative \<open>int\<close> and is extended by ones to 64 bits.\<close>

definition vlapic_base_address :: "vlapic \<Rightarrow> 64 word" where
  "vlapic_base_address l = la_apic_base_msr l AND NOT 0xfff"

definition VLAPIC_ID :: "vlapic \<Rightarrow> u32w" where
  "VLAPIC_ID l = drop_bit 24 (vlapic_get_reg l APIC_ID) AND 0xFF"

section \<open>Vector bitmaps\<close>

definition VEC_POS :: "nat \<Rightarrow> nat" where "VEC_POS v = v mod 32"
definition REG_POS :: "nat \<Rightarrow> nat" where "REG_POS v = v div 32 * 0x10"

definition vlapic_test_vector :: "nat \<Rightarrow> nat \<Rightarrow> vlapic \<Rightarrow> bool" where
  "vlapic_test_vector vec base l = bit (la_regs l (base + REG_POS vec)) (VEC_POS vec)"

definition vlapic_set_vector :: "nat \<Rightarrow> nat \<Rightarrow> vlapic \<Rightarrow> vlapic" where
  "vlapic_set_vector vec base l =
     vlapic_set_reg (base + REG_POS vec) (set_bit (VEC_POS vec) (la_regs l (base + REG_POS vec))) l"

definition vlapic_clear_vector :: "nat \<Rightarrow> nat \<Rightarrow> vlapic \<Rightarrow> vlapic" where
  "vlapic_clear_vector vec base l =
     vlapic_set_reg (base + REG_POS vec) (unset_bit (VEC_POS vec) (la_regs l (base + REG_POS vec))) l"

definition vlapic_test_and_set_vector :: "nat \<Rightarrow> nat \<Rightarrow> vlapic \<Rightarrow> bool \<times> vlapic" where
  "vlapic_test_and_set_vector vec base l = (vlapic_test_vector vec base l, vlapic_set_vector vec base l)"

definition vlapic_test_and_clear_vector :: "nat \<Rightarrow> nat \<Rightarrow> vlapic \<Rightarrow> bool \<times> vlapic" where
  "vlapic_test_and_clear_vector vec base l = (vlapic_test_vector vec base l, vlapic_clear_vector vec base l)"

text \<open>\<open>fls\<close>: one more than the number of the highest set bit, 0 if there is none.\<close>

fun fls_below :: "nat \<Rightarrow> u32w \<Rightarrow> nat" where
  "fls_below 0 w = 0"
| "fls_below (Suc n) w = (if bit w n then Suc n else fls_below n w)"

definition fls :: "u32w \<Rightarrow> nat" where
  "fls w = fls_below 32 w"

text \<open>The loop of \<open>vlapic_find_highest_vector\<close>, from the last word of the bitmap to the first.\<close>

fun highest_word :: "(nat \<Rightarrow> u32w) \<Rightarrow> nat \<Rightarrow> nat" where
  "highest_word word 0 = 0"
| "highest_word word (Suc off) = (if word (off * 0x10) = 0 then highest_word word off else off)"

definition vlapic_find_highest_vector :: "(nat \<Rightarrow> u32w) \<Rightarrow> int" where
  "vlapic_find_highest_vector word =
     (let word_offset = highest_word word (256 div 32)
      in (int (fls (word (word_offset * 0x10))) - 1) + int (word_offset * 32))"

definition vlapic_test_and_set_irr :: "nat \<Rightarrow> vlapic \<Rightarrow> bool \<times> vlapic" where
  "vlapic_test_and_set_irr vector l = vlapic_test_and_set_vector vector APIC_IRR l"

definition vlapic_clear_irr :: "nat \<Rightarrow> vlapic \<Rightarrow> vlapic" where
  "vlapic_clear_irr vector l = vlapic_clear_vector vector APIC_IRR l"

definition vlapic_find_highest_irr :: "vlapic \<Rightarrow> int" where
  "vlapic_find_highest_irr l = vlapic_find_highest_vector (\<lambda>i. la_regs l (APIC_IRR + i))"

definition vlapic_find_highest_isr :: "vlapic \<Rightarrow> int" where
  "vlapic_find_highest_isr l = vlapic_find_highest_vector (\<lambda>i. la_regs l (APIC_ISR + i))"

definition vlapic_set_irq :: "nat \<Rightarrow> bool \<Rightarrow> vlapic \<Rightarrow> bool \<times> vlapic" where
  "vlapic_set_irq vec trig l =
     (let (old, l1) = vlapic_test_and_set_irr vec l
      in (\<not> old, if trig then vlapic_set_vector vec APIC_TMR l1 else l1))"

section \<open>Priorities and destinations\<close>

definition vlapic_get_ppr :: "vlapic \<Rightarrow> u32w" where
  "vlapic_get_ppr l =
     (let tpr = vlapic_get_reg l APIC_TASKPRI; isr = vlapic_find_highest_isr l;
          isrv = (if isr \<noteq> - 1 then word_of_int isr else 0)
      in if isrv AND 0xf0 \<le> tpr AND 0xf0 then tpr AND 0xff else isrv AND 0xf0)"

definition vlapic_match_logical_addr :: "vlapic \<Rightarrow> byte \<Rightarrow> bool" where
  "vlapic_match_logical_addr l mda =
     (if vlapic_x2apic_mode l then vlapic_get_reg l APIC_LDR AND ucast mda \<noteq> 0
      else
        (let logical_id = drop_bit 24 (vlapic_get_reg l APIC_LDR) AND 0xFF; dfr = vlapic_get_reg l APIC_DFR
         in if dfr = 0xFFFFFFFF then logical_id AND ucast mda \<noteq> 0
            else if dfr = 0x0FFFFFFF
            then drop_bit 4 logical_id = ucast (drop_bit 4 mda) \<and> logical_id AND ucast mda AND 0xf \<noteq> 0
            else False))"

text \<open>The shorthand is the field of the command register; \<open>same\<close> tells whether target and source coincide.\<close>

definition vlapic_match_dest :: "vlapic \<Rightarrow> bool \<Rightarrow> u32w \<Rightarrow> byte \<Rightarrow> bool \<Rightarrow> bool" where
  "vlapic_match_dest target same short_hand dest dest_mode =
     (if short_hand = 0 then
        (if dest_mode then vlapic_match_logical_addr target dest
         else dest = 0xFF \<or> ucast dest = VLAPIC_ID target)
      else if short_hand = 0x40000 then same
      else if short_hand = 0x80000 then True
      else if short_hand = 0xC0000 then \<not> same
      else False)"

definition vlapic_has_pending_irq :: "vlapic \<Rightarrow> int" where
  "vlapic_has_pending_irq l =
     (if \<not> vlapic_enabled l then - 1
      else
        (let irr = vlapic_find_highest_irr l
         in if irr = - 1 then - 1
            else
              (let isr0 = vlapic_find_highest_isr l; isr = (if isr0 \<noteq> - 1 then isr0 else 0)
               in if irr AND 0xf0 \<le> isr AND 0xf0 then - 1 else irr)))"

definition vlapic_ack_pending_irq :: "nat \<Rightarrow> vlapic \<Rightarrow> vlapic" where
  "vlapic_ack_pending_irq vector l = vlapic_clear_irr vector (vlapic_set_vector vector APIC_ISR l)"

text \<open>
  The part of \<open>vlapic_EOI_set\<close> that concerns the local APIC.  The result tells which vector, if any, the
  IO-APIC has to be told about.
\<close>

definition vlapic_end_of_interrupt :: "vlapic \<Rightarrow> nat option \<times> vlapic" where
  "vlapic_end_of_interrupt l =
     (let vector = vlapic_find_highest_isr l
      in if vector = - 1 then (None, l)
         else
           (let l1 = vlapic_clear_vector (nat vector) APIC_ISR l;
                (level, l2) = vlapic_test_and_clear_vector (nat vector) APIC_TMR l1
            in (if level then Some (nat vector) else None, l2)))"

section \<open>Timer registers\<close>

definition vlapic_lvtt_period :: "vlapic \<Rightarrow> bool" where
  "vlapic_lvtt_period l \<longleftrightarrow> vlapic_get_reg l APIC_LVTT AND APIC_TIMER_MODE_MASK = 0x20000"

definition vlapic_lvtt_oneshot :: "vlapic \<Rightarrow> bool" where
  "vlapic_lvtt_oneshot l \<longleftrightarrow> vlapic_get_reg l APIC_LVTT AND APIC_TIMER_MODE_MASK = 0"

definition vlapic_lvtt_tdt :: "vlapic \<Rightarrow> bool" where
  "vlapic_lvtt_tdt l \<longleftrightarrow> vlapic_get_reg l APIC_LVTT AND APIC_TIMER_MODE_MASK = 0x40000"

text \<open>
  \<open>now\<close> is what \<open>hvm_get_guest_time\<close> returns; time differences wrap at 64 bits, and the product of the bus
  cycle and the divisor is a 32-bit number.  A divisor of 0, on which the code would fault, is never selected
  by \<open>vlapic_set_tdcr\<close>.
\<close>

definition vlapic_get_tmcct :: "nat \<Rightarrow> vlapic \<Rightarrow> u32w" where
  "vlapic_get_tmcct now l =
     (let tmict = vlapic_get_reg l APIC_TMICT;
          passed = u64 (now + 2 ^ 64 - la_timer_last_update l) div u32 (APIC_BUS_CYCLE_NS * la_timer_divisor l)
      in if tmict \<noteq> 0 then
           (let passed' = (if vlapic_lvtt_period l then passed mod unat tmict else passed)
            in if passed' < unat tmict then tmict - word_of_nat passed' else 0)
         else 0)"

definition vlapic_set_tdcr :: "u32w \<Rightarrow> vlapic \<Rightarrow> vlapic" where
  "vlapic_set_tdcr val l =
     (let v = val AND 0xb; l1 = vlapic_set_reg APIC_TDCR v l;
          v' = ((v AND 3) OR drop_bit 1 (v AND 8)) + 1
      in l1\<lparr>la_timer_divisor := 2 ^ unat (v' AND 7)\<rparr>)"

definition vlapic_read_aligned :: "nat \<Rightarrow> vlapic \<Rightarrow> nat \<Rightarrow> u32w" where
  "vlapic_read_aligned now l offset =
     (if offset = APIC_PROCPRI then vlapic_get_ppr l
      else if offset = APIC_TMCCT then
        (if \<not> vlapic_lvtt_oneshot l \<and> \<not> vlapic_lvtt_period l then 0 else vlapic_get_tmcct now l)
      else if offset = APIC_TMICT \<and> \<not> vlapic_lvtt_oneshot l \<and> \<not> vlapic_lvtt_period l then 0
      else vlapic_get_reg l offset)"

text \<open>
  A guest read of \<open>len\<close> bytes; \<open>None\<close> stands for \<open>domain_crash\<close>.  Offsets are 32-bit differences of
  addresses.
\<close>

definition vlapic_offset :: "vlapic \<Rightarrow> 64 word \<Rightarrow> nat" where
  "vlapic_offset l address = unat (ucast (address - vlapic_base_address l) :: u32w)"

definition vlapic_read :: "nat \<Rightarrow> vlapic \<Rightarrow> 64 word \<Rightarrow> nat \<Rightarrow> nat option" where
  "vlapic_read now l address len =
     (let offset = vlapic_offset l address; alignment = offset mod 4
      in if APIC_TDCR + 3 < offset then Some 0
         else
           (let tmp = unat (vlapic_read_aligned now l (offset - alignment))
            in if len = 1 then Some (tmp div 256 ^ alignment mod 256)
               else if len = 2 then (if alignment = 3 then None else Some (tmp div 256 ^ alignment mod 65536))
               else if len = 4 then (if alignment \<noteq> 0 then None else Some tmp)
               else None))"

definition vlapic_range :: "vlapic \<Rightarrow> 64 word \<Rightarrow> bool" where
  "vlapic_range l addr \<longleftrightarrow> \<not> vlapic_hw_disabled l \<and> addr - vlapic_base_address l < 4096"

definition vlapic_tdt_msr_get :: "vlapic \<Rightarrow> nat" where
  "vlapic_tdt_msr_get l = (if vlapic_lvtt_tdt l then la_tdt_msr l else 0)"

definition is_vlapic_lvtpc_enabled :: "vlapic \<Rightarrow> bool" where
  "is_vlapic_lvtpc_enabled l \<longleftrightarrow> vlapic_enabled l \<and> vlapic_get_reg l APIC_LVTPC AND APIC_LVT_MASKED = 0"

section \<open>Bitmaps are sets of vectors\<close>

definition vecs :: "nat \<Rightarrow> vlapic \<Rightarrow> nat set" where
  "vecs base l = {v. v < 256 \<and> vlapic_test_vector v base l}"

lemma finite_vecs [simp]: "finite (vecs base l)"
  by (simp add: vecs_def)

lemma vecs_less: "v \<in> vecs base l \<Longrightarrow> v < 256"
  by (simp add: vecs_def)

lemma vec_pos_inj: "v div 32 = u div 32 \<Longrightarrow> VEC_POS v = VEC_POS u \<Longrightarrow> v = u"
  unfolding VEC_POS_def by (metis div_mult_mod_eq)

lemma reg_pos_eq_iff: "REG_POS v = REG_POS u \<longleftrightarrow> v div 32 = u div 32"
  by (simp add: REG_POS_def)

lemma vec_pos_less [simp]: "VEC_POS v < 32"
  by (simp add: VEC_POS_def)

lemma reg_pos_bound: "v < 256 \<Longrightarrow> REG_POS v \<le> 0x70"
  by (simp add: REG_POS_def)

text \<open>The three bitmaps do not overlap.\<close>

definition apic_bitmap :: "nat \<Rightarrow> bool" where
  "apic_bitmap base \<longleftrightarrow> base = APIC_ISR \<or> base = APIC_TMR \<or> base = APIC_IRR"

lemma apic_bitmaps [simp]: "apic_bitmap APIC_ISR" "apic_bitmap APIC_TMR" "apic_bitmap APIC_IRR"
  by (simp_all add: apic_bitmap_def)

lemma bitmap_disjoint:
  assumes "apic_bitmap b" "apic_bitmap c" "b \<noteq> c" "u < 256" "v < 256"
  shows "b + REG_POS u \<noteq> c + REG_POS v"
  using assms(1-3) reg_pos_bound [OF assms(4)] reg_pos_bound [OF assms(5)]
  by (auto simp: apic_bitmap_def apic_regs)

lemma vec_pos_iff: "REG_POS v = REG_POS u \<Longrightarrow> VEC_POS u = VEC_POS v \<longleftrightarrow> v = u"
  unfolding reg_pos_eq_iff using vec_pos_inj [of v u] by metis

lemma test_set_vector:
  "vlapic_test_vector v b (vlapic_set_vector u b l) \<longleftrightarrow> v = u \<or> vlapic_test_vector v b l"
proof (cases "REG_POS v = REG_POS u")
  case True
  then have "vlapic_test_vector v b (vlapic_set_vector u b l) \<longleftrightarrow> VEC_POS u = VEC_POS v \<or> vlapic_test_vector v b l"
    by (simp add: vlapic_test_vector_def vlapic_set_vector_def vlapic_set_reg_def bit_set_bit_iff) blast
  then show ?thesis by (simp only: vec_pos_iff [OF True])
next
  case False
  then have "v \<noteq> u" by auto
  with False show ?thesis by (simp add: vlapic_test_vector_def vlapic_set_vector_def vlapic_set_reg_def)
qed

lemma test_clear_vector:
  "vlapic_test_vector v b (vlapic_clear_vector u b l) \<longleftrightarrow> v \<noteq> u \<and> vlapic_test_vector v b l"
proof (cases "REG_POS v = REG_POS u")
  case True
  then have "vlapic_test_vector v b (vlapic_clear_vector u b l) \<longleftrightarrow> VEC_POS u \<noteq> VEC_POS v \<and> vlapic_test_vector v b l"
    by (auto simp: vlapic_test_vector_def vlapic_clear_vector_def vlapic_set_reg_def bit_unset_bit_iff)
  then show ?thesis by (simp only: vec_pos_iff [OF True])
next
  case False
  then have "v \<noteq> u" by auto
  with False show ?thesis by (simp add: vlapic_test_vector_def vlapic_clear_vector_def vlapic_set_reg_def)
qed

lemma vecs_set [simp]: "u < 256 \<Longrightarrow> vecs b (vlapic_set_vector u b l) = insert u (vecs b l)"
  by (auto simp: vecs_def test_set_vector)

lemma vecs_clear [simp]: "vecs b (vlapic_clear_vector u b l) = vecs b l - {u}"
  by (auto simp: vecs_def test_clear_vector)

lemma vecs_other [simp]:
  assumes "apic_bitmap b" "apic_bitmap c" "b \<noteq> c" "u < 256"
  shows "vecs c (vlapic_set_vector u b l) = vecs c l" "vecs c (vlapic_clear_vector u b l) = vecs c l"
proof -
  have "c + REG_POS v \<noteq> b + REG_POS u" if "v < 256" for v
    using bitmap_disjoint [OF assms that] by simp
  then show "vecs c (vlapic_set_vector u b l) = vecs c l" "vecs c (vlapic_clear_vector u b l) = vecs c l"
    by (auto simp: vecs_def vlapic_test_vector_def vlapic_set_vector_def vlapic_clear_vector_def vlapic_set_reg_def)
qed

lemma bitmap_neq [simp]: "APIC_ISR \<noteq> APIC_TMR" "APIC_ISR \<noteq> APIC_IRR" "APIC_TMR \<noteq> APIC_IRR"
  "APIC_TMR \<noteq> APIC_ISR" "APIC_IRR \<noteq> APIC_ISR" "APIC_IRR \<noteq> APIC_TMR"
  by (simp_all add: apic_regs)

section \<open>The highest vector\<close>

lemma fls_below_spec:
  "fls_below n w = 0 \<and> (\<forall>k<n. \<not> bit w k) \<or>
   (\<exists>k<n. fls_below n w = Suc k \<and> bit w k \<and> (\<forall>j<n. k < j \<longrightarrow> \<not> bit w j))"
  by (induction n) (auto simp: less_Suc_eq)

lemma fls_zero: "w = 0 \<Longrightarrow> fls w = 0"
  using fls_below_spec [of 32 w] by (auto simp: fls_def)

lemma fls_nonzero:
  assumes "w \<noteq> 0"
  obtains k where "k < 32" "fls w = Suc k" "bit w k" "\<And>j. k < j \<Longrightarrow> \<not> bit w j"
proof -
  obtain n where "bit w n" using assms by (auto simp: bit_eq_iff)
  moreover have "n < 32" if "bit w n" for n using bit_imp_le_length [OF that] by simp
  ultimately show thesis using fls_below_spec [of 32 w] that unfolding fls_def by metis
qed

lemma highest_word_spec:
  "(\<forall>j<n. highest_word word n < j \<longrightarrow> word (j * 0x10) = 0) \<and>
   (highest_word word n = 0 \<or> highest_word word n < n \<and> word (highest_word word n * 0x10) \<noteq> 0)"
  by (induction n) (auto simp: less_Suc_eq)

definition bitmap_set :: "(nat \<Rightarrow> u32w) \<Rightarrow> nat set" where
  "bitmap_set word = {v. v < 256 \<and> bit (word (REG_POS v)) (VEC_POS v)}"

lemma find_highest_vector:
  "vlapic_find_highest_vector word = (if bitmap_set word = {} then - 1 else int (Max (bitmap_set word)))"
proof -
  let ?k = "highest_word word 8"
  have H: "\<And>j. j < 8 \<Longrightarrow> ?k < j \<Longrightarrow> word (j * 0x10) = 0" "?k = 0 \<or> ?k < 8 \<and> word (?k * 0x10) \<noteq> 0"
    using highest_word_spec [of 8 word] by auto
  have low: "v div 32 \<le> ?k" if "v \<in> bitmap_set word" for v
  proof (rule ccontr)
    assume n: "\<not> v div 32 \<le> ?k"
    have "v div 32 < 8" using that by (simp add: bitmap_set_def less_mult_imp_div_less)
    then have "word (REG_POS v) = 0" using H(1) [of "v div 32"] n by (simp add: REG_POS_def)
    then show False using that by (simp add: bitmap_set_def)
  qed
  have r: "vlapic_find_highest_vector word = int (fls (word (?k * 0x10))) - 1 + int (?k * 32)"
    by (simp add: vlapic_find_highest_vector_def Let_def)
  show ?thesis
  proof (cases "word (?k * 0x10) = 0")
    case True
    then have k0: "?k = 0" using H(2) by auto
    have "v \<notin> bitmap_set word" for v
    proof
      assume v: "v \<in> bitmap_set word"
      then have "REG_POS v = 0" using low [OF v] k0 by (simp add: REG_POS_def)
      with v True k0 show False by (simp add: bitmap_set_def)
    qed
    then have "bitmap_set word = {}" by blast
    then show ?thesis using r True k0 by (simp add: fls_zero)
  next
    case False
    obtain b where b: "b < 32" "fls (word (?k * 0x10)) = Suc b" "bit (word (?k * 0x10)) b" "\<And>j. b < j \<Longrightarrow> \<not> bit (word (?k * 0x10)) j"
      using fls_nonzero [OF False] by blast
    let ?m = "?k * 32 + b"
    have pos: "REG_POS ?m = ?k * 0x10" "VEC_POS ?m = b" using b(1) by (simp_all add: REG_POS_def VEC_POS_def)
    have "?k < 8" using H(2) by auto
    then have m: "?m \<in> bitmap_set word" using pos b(1,3) by (simp add: bitmap_set_def)
    have "v \<le> ?m" if v: "v \<in> bitmap_set word" for v
    proof (cases "v div 32 = ?k")
      case True
      then have "bit (word (?k * 0x10)) (VEC_POS v)" using v by (simp add: bitmap_set_def REG_POS_def)
      then have "VEC_POS v \<le> b" using b(4) not_le by blast
      then show ?thesis using True div_mult_mod_eq [of v 32] by (simp add: VEC_POS_def)
    next
      case False
      then have "v div 32 < ?k" using low [OF v] by simp
      then have "v div 32 + 1 \<le> ?k" by simp
      then show ?thesis using div_mult_mod_eq [of v 32] mod_less_divisor [of 32 v] by linarith
    qed
    then have "Max (bitmap_set word) = ?m"
      using m by (intro Max_eqI) (auto simp: bitmap_set_def)
    then show ?thesis using r b(2) m by auto
  qed
qed

lemma bitmap_set_vecs: "bitmap_set (\<lambda>i. la_regs l (base + i)) = vecs base l"
  by (simp add: bitmap_set_def vecs_def vlapic_test_vector_def)

lemma highest_irr: "vlapic_find_highest_irr l = (if vecs APIC_IRR l = {} then - 1 else int (Max (vecs APIC_IRR l)))"
  by (simp add: vlapic_find_highest_irr_def find_highest_vector bitmap_set_vecs)

lemma highest_isr: "vlapic_find_highest_isr l = (if vecs APIC_ISR l = {} then - 1 else int (Max (vecs APIC_ISR l)))"
  by (simp add: vlapic_find_highest_isr_def find_highest_vector bitmap_set_vecs)

section \<open>Requests, service and end of interrupt\<close>

text \<open>The priority class of a vector, as the code masks it.\<close>

lemma class_mask:
  assumes "v < 256"
  shows "int v AND 0xf0 = int (16 * (v div 16))"
proof -
  have m: "(0xf0 :: int) = push_bit 4 (mask 4)" by (simp add: push_bit_eq_mult mask_eq_exp_minus_1)
  have v: "take_bit 8 (int v) = int v" using assms by (simp add: take_bit_int_eq_self)
  have "take_bit 8 (int v) AND 0xf0 = push_bit 4 (drop_bit 4 (take_bit 8 (int v)))"
    unfolding m by (rule bit_eqI) (auto simp: bit_simps)
  then show ?thesis by (simp add: v push_bit_eq_mult drop_bit_eq_div zdiv_int)
qed

definition service_class :: "vlapic \<Rightarrow> nat" where
  "service_class l = (if vecs APIC_ISR l = {} then 0 else Max (vecs APIC_ISR l) div 16)"

lemma Max_vecs: "vecs b l \<noteq> {} \<Longrightarrow> Max (vecs b l) \<in> vecs b l" "v \<in> vecs b l \<Longrightarrow> v \<le> Max (vecs b l)"
  by simp_all

lemma pending_eq:
  "vlapic_has_pending_irq l =
    (if vlapic_enabled l \<and> vecs APIC_IRR l \<noteq> {} \<and> service_class l < Max (vecs APIC_IRR l) div 16
     then int (Max (vecs APIC_IRR l)) else - 1)"
proof -
  have irr: "int (Max (vecs APIC_IRR l)) AND 0xf0 = int (16 * (Max (vecs APIC_IRR l) div 16))" if "vecs APIC_IRR l \<noteq> {}"
    using class_mask [OF vecs_less [OF Max_vecs(1) [OF that]]] .
  have isr: "(if vlapic_find_highest_isr l \<noteq> - 1 then vlapic_find_highest_isr l else 0) AND 0xf0 = int (16 * service_class l)"
    using class_mask [OF vecs_less [OF Max_vecs(1)], of APIC_ISR l] by (simp add: highest_isr service_class_def)
  show ?thesis
    unfolding vlapic_has_pending_irq_def Let_def isr highest_irr using irr by auto
qed

lemma pending_vector:
  assumes "vlapic_has_pending_irq l = int v"
  shows "v = Max (vecs APIC_IRR l)" "v \<in> vecs APIC_IRR l" "service_class l < v div 16" "v < 256"
proof -
  have p: "vecs APIC_IRR l \<noteq> {}" "service_class l < Max (vecs APIC_IRR l) div 16" "v = Max (vecs APIC_IRR l)"
    using assms unfolding pending_eq by (simp_all split: if_splits)
  show "v = Max (vecs APIC_IRR l)" "service_class l < v div 16" using p by simp_all
  show "v \<in> vecs APIC_IRR l" using Max_vecs(1) [OF p(1)] by (simp only: p(3))
  then show "v < 256" by (rule vecs_less)
qed

lemma set_irq_vecs:
  assumes "vec < 256" "vlapic_set_irq vec trig l = (new, l')"
  shows "vecs APIC_IRR l' = insert vec (vecs APIC_IRR l)" "vecs APIC_ISR l' = vecs APIC_ISR l"
    "vecs APIC_TMR l' = (if trig then insert vec (vecs APIC_TMR l) else vecs APIC_TMR l)"
    "new \<longleftrightarrow> vec \<notin> vecs APIC_IRR l"
proof -
  have l: "l' = (if trig then vlapic_set_vector vec APIC_TMR (vlapic_set_vector vec APIC_IRR l) else vlapic_set_vector vec APIC_IRR l)"
    and n: "new \<longleftrightarrow> \<not> vlapic_test_vector vec APIC_IRR l"
    using assms(2) by (simp_all add: vlapic_set_irq_def vlapic_test_and_set_irr_def vlapic_test_and_set_vector_def)
  show "vecs APIC_IRR l' = insert vec (vecs APIC_IRR l)" "vecs APIC_ISR l' = vecs APIC_ISR l"
    "vecs APIC_TMR l' = (if trig then insert vec (vecs APIC_TMR l) else vecs APIC_TMR l)"
    using assms(1) by (simp_all add: l)
  show "new \<longleftrightarrow> vec \<notin> vecs APIC_IRR l" using assms(1) n by (simp add: vecs_def)
qed

lemma ack_vecs:
  assumes "v < 256"
  shows "vecs APIC_IRR (vlapic_ack_pending_irq v l) = vecs APIC_IRR l - {v}"
    "vecs APIC_ISR (vlapic_ack_pending_irq v l) = insert v (vecs APIC_ISR l)"
    "vecs APIC_TMR (vlapic_ack_pending_irq v l) = vecs APIC_TMR l"
  using assms by (simp_all add: vlapic_ack_pending_irq_def vlapic_clear_irr_def)

lemma eoi_vecs:
  assumes "vecs APIC_ISR l \<noteq> {}" and v: "v = Max (vecs APIC_ISR l)"
  shows "fst (vlapic_end_of_interrupt l) = (if v \<in> vecs APIC_TMR l then Some v else None)"
    "vecs APIC_ISR (snd (vlapic_end_of_interrupt l)) = vecs APIC_ISR l - {v}"
    "vecs APIC_TMR (snd (vlapic_end_of_interrupt l)) = vecs APIC_TMR l - {v}"
    "vecs APIC_IRR (snd (vlapic_end_of_interrupt l)) = vecs APIC_IRR l"
proof -
  have v': "v < 256" using vecs_less [OF Max_vecs(1) [OF assms(1)]] v by simp
  have "vlapic_find_highest_isr l = int v" using assms(1) unfolding highest_isr v by simp
  then have e: "vlapic_end_of_interrupt l =
      (if vlapic_test_vector v APIC_TMR (vlapic_clear_vector v APIC_ISR l) then Some v else None,
       vlapic_clear_vector v APIC_TMR (vlapic_clear_vector v APIC_ISR l))"
    by (simp add: vlapic_end_of_interrupt_def vlapic_test_and_clear_vector_def)
  have "v \<in> vecs APIC_TMR (vlapic_clear_vector v APIC_ISR l) \<longleftrightarrow> v \<in> vecs APIC_TMR l" using v' by simp
  then show "fst (vlapic_end_of_interrupt l) = (if v \<in> vecs APIC_TMR l then Some v else None)"
    unfolding e using v' by (simp add: vecs_def)
  show "vecs APIC_ISR (snd (vlapic_end_of_interrupt l)) = vecs APIC_ISR l - {v}"
    "vecs APIC_TMR (snd (vlapic_end_of_interrupt l)) = vecs APIC_TMR l - {v}"
    "vecs APIC_IRR (snd (vlapic_end_of_interrupt l)) = vecs APIC_IRR l"
    unfolding e using v' by simp_all
qed

lemma eoi_idle: "vecs APIC_ISR l = {} \<Longrightarrow> vlapic_end_of_interrupt l = (None, l)"
  by (simp add: vlapic_end_of_interrupt_def highest_isr)

section \<open>Nesting\<close>

text \<open>
  The states a local APIC goes through while interrupts are requested, acknowledged and ended, with the
  stack of acknowledged vectors that have not been ended, newest first.  Register writes of the
  guest may change anything but the in-service bitmap.
\<close>

inductive lapic_run :: "vlapic \<Rightarrow> nat list \<Rightarrow> bool" where
  run_start: "vecs APIC_ISR l = {} \<Longrightarrow> lapic_run l []"
| run_request: "lapic_run l st \<Longrightarrow> vec < 256 \<Longrightarrow> lapic_run (snd (vlapic_set_irq vec trig l)) st"
| run_ack: "lapic_run l st \<Longrightarrow> vlapic_has_pending_irq l = int v \<Longrightarrow> lapic_run (vlapic_ack_pending_irq v l) (v # st)"
| run_eoi: "lapic_run l (v # st) \<Longrightarrow> lapic_run (snd (vlapic_end_of_interrupt l)) st"
| run_write: "lapic_run l st \<Longrightarrow> vecs APIC_ISR l' = vecs APIC_ISR l \<Longrightarrow> lapic_run l' st"

inductive_cases lapic_run_ackE: "lapic_run l (v # st)"

lemma stack_Max:
  fixes v :: nat
  assumes "sorted_wrt (\<lambda>a b. b div 16 < a div 16) (v # st)"
  shows "Max (set (v # st)) = v" "v \<notin> set st"
proof -
  have lt: "b div 16 < v div 16" if "b \<in> set st" for b using assms that by simp
  have le: "b \<le> v" if "b \<in> set st" for b
    using lt [OF that] div_le_mono [of v b 16] by (cases "b \<le> v") simp_all
  show "v \<notin> set st" using lt by blast
  show "Max (set (v # st)) = v"
  proof (rule Max_eqI)
    show "y \<le> v" if "y \<in> set (v # st)" for y using that le by auto
  qed simp_all
qed

definition nested :: "vlapic \<Rightarrow> nat list \<Rightarrow> bool" where
  "nested l st \<longleftrightarrow> vecs APIC_ISR l = set st \<and> sorted_wrt (\<lambda>a b. b div 16 < a div 16) st"

lemma nested_ack:
  assumes "nested l st" "vlapic_has_pending_irq l = int v"
  shows "nested (vlapic_ack_pending_irq v l) (v # st)"
proof -
  note p = pending_vector [OF assms(2)]
  have "b div 16 < v div 16" if "b \<in> set st" for b
  proof -
    have "b \<in> vecs APIC_ISR l" using that assms(1) by (simp add: nested_def)
    then have "vecs APIC_ISR l \<noteq> {}" "b \<le> Max (vecs APIC_ISR l)" by auto
    then have "b div 16 \<le> service_class l"
      using div_le_mono [of b "Max (vecs APIC_ISR l)" 16] unfolding service_class_def by simp
    with p(3) show ?thesis by simp
  qed
  then show ?thesis using assms(1) ack_vecs(2) [OF p(4)] by (simp add: nested_def)
qed

lemma nested_top:
  assumes "nested l (v # st)"
  shows "vecs APIC_ISR l \<noteq> {}" "v = Max (vecs APIC_ISR l)" "v \<notin> set st"
proof -
  have i: "vecs APIC_ISR l = set (v # st)" and s: "sorted_wrt (\<lambda>a b. b div 16 < a div 16) (v # st)"
    using assms unfolding nested_def by blast+
  show "vecs APIC_ISR l \<noteq> {}" "v = Max (vecs APIC_ISR l)" unfolding i using stack_Max(1) [OF s] by simp_all
  show "v \<notin> set st" by (rule stack_Max(2) [OF s])
qed

lemma nested_eoi:
  assumes "nested l (v # st)"
  shows "nested (snd (vlapic_end_of_interrupt l)) st"
  using assms eoi_vecs(2) [OF nested_top(1,2) [OF assms]] nested_top(3) [OF assms] by (auto simp: nested_def)

lemma lapic_run_nested: "lapic_run l st \<Longrightarrow> nested l st"
proof (induction rule: lapic_run.induct)
  case (run_request l st vec trig)
  have "vecs APIC_ISR (snd (vlapic_set_irq vec trig l)) = vecs APIC_ISR l"
    by (rule set_irq_vecs(2) [OF run_request.hyps(2)]) (rule prod.collapse [symmetric])
  then show ?case using run_request.IH by (simp add: nested_def)
next
  case (run_ack l st v)
  then show ?case by (intro nested_ack)
next
  case (run_eoi l v st)
  then show ?case by (intro nested_eoi)
qed (simp_all add: nested_def)

section \<open>The properties\<close>

text \<open>
  C27.  Which interrupt a VCPU takes next.  \<open>vlapic_has_pending_irq\<close> offers the highest requested vector, and
  offers it exactly if the APIC is enabled and the priority class of the vector is above that of
  everything in service; acknowledging it moves the vector from the request to the in-service
  bitmap and changes nothing else in the three bitmaps.
\<close>

theorem vlapic_offers_highest:
  "vlapic_has_pending_irq l =
     (if vlapic_enabled l \<and> vecs APIC_IRR l \<noteq> {} \<and> service_class l < Max (vecs APIC_IRR l) div 16
      then int (Max (vecs APIC_IRR l)) else - 1) \<and>
   (vlapic_has_pending_irq l = int v \<longrightarrow>
      vecs APIC_IRR (vlapic_ack_pending_irq v l) = vecs APIC_IRR l - {v} \<and>
      vecs APIC_ISR (vlapic_ack_pending_irq v l) = insert v (vecs APIC_ISR l) \<and>
      vecs APIC_TMR (vlapic_ack_pending_irq v l) = vecs APIC_TMR l)"
  using pending_eq [of l] pending_vector(4) [of l v] ack_vecs [of v l] by blast

definition sample_lapic :: vlapic where
  "sample_lapic = \<lparr>la_regs = (\<lambda>_. 0), la_apic_base_msr = 0, la_disabled = 0, la_timer_divisor = 2, la_tdt_msr = 0,
     la_timer_last_update = 0, la_pt_irq = 0, la_init_sipi = None\<rparr>"

lemma sample_lapic_vecs: "vecs b sample_lapic = {}"
  by (simp add: vecs_def vlapic_test_vector_def sample_lapic_def)

definition requested :: vlapic where
  "requested = snd (vlapic_set_irq 0x31 True (snd (vlapic_set_irq 0x52 False sample_lapic)))"

lemma requested_vecs: "vecs APIC_IRR requested = {0x31, 0x52}" "vecs APIC_ISR requested = {}" "vlapic_enabled requested"
proof -
  obtain n1 l1 where 1: "vlapic_set_irq 0x52 False sample_lapic = (n1, l1)" by force
  obtain n2 l2 where 2: "vlapic_set_irq 0x31 True l1 = (n2, l2)" by force
  note V = set_irq_vecs [OF _ 1] set_irq_vecs [OF _ 2]
  show "vecs APIC_IRR requested = {0x31, 0x52}" "vecs APIC_ISR requested = {}"
    using V by (simp_all add: requested_def 1 2 sample_lapic_vecs)
  show "vlapic_enabled requested"
    by (simp add: requested_def vlapic_set_irq_def vlapic_test_and_set_irr_def vlapic_test_and_set_vector_def
        vlapic_set_vector_def vlapic_set_reg_def vlapic_enabled_def sample_lapic_def)
qed

lemma requested_pending: "vlapic_has_pending_irq requested = 0x52"
proof -
  have "Max {0x31, 0x52 :: nat} = 0x52" by simp
  then show ?thesis by (simp add: pending_eq requested_vecs service_class_def)
qed

theorem vlapic_offers_highest_witness: "vecs APIC_ISR (vlapic_ack_pending_irq 0x52 requested) = {0x52}"
  using vlapic_offers_highest [of requested "0x52"] requested_pending requested_vecs by simp

text \<open>
  C28.  Interrupts nest.  Whatever is requested in between, the vectors in service are those acknowledged and not
  yet ended, their priority classes strictly increase in the order of acknowledgement, and an end of
  interrupt ends the one acknowledged last; the IO-APIC is told about it exactly if it was level
  triggered.
\<close>

theorem vlapic_nesting:
  assumes "lapic_run l (v # st)"
  shows "vecs APIC_ISR l = set (v # st) \<and> (\<forall>u\<in>set st. u div 16 < v div 16) \<and>
    vecs APIC_ISR (snd (vlapic_end_of_interrupt l)) = set st \<and>
    fst (vlapic_end_of_interrupt l) = (if v \<in> vecs APIC_TMR l then Some v else None)"
proof -
  have N: "nested l (v # st)" by (rule lapic_run_nested [OF assms])
  show ?thesis
    using N nested_eoi [OF N] eoi_vecs(1) [OF nested_top(1,2) [OF N]] by (simp add: nested_def)
qed

theorem vlapic_nesting_witness:
  "vecs APIC_ISR (snd (vlapic_end_of_interrupt (vlapic_ack_pending_irq 0x52 requested))) = {}"
proof -
  have "lapic_run requested []" by (rule run_start) (rule requested_vecs(2))
  then have "lapic_run (vlapic_ack_pending_irq 0x52 requested) [0x52]"
    by (rule run_ack) (simp add: requested_pending)
  from vlapic_nesting [OF this] show ?thesis by simp
qed

lemma timer_count_eq:
  assumes "la_timer_last_update l \<le> now" "now < 2 ^ 64" "la_timer_divisor l \<in> {1, 2, 4, 8, 16, 32, 64, 128}"
    and tm: "vlapic_get_reg l APIC_TMICT \<noteq> 0"
  defines "n \<equiv> unat (vlapic_get_reg l APIC_TMICT)"
    and "ticks \<equiv> (now - la_timer_last_update l) div (10 * la_timer_divisor l)"
  shows "unat (vlapic_get_tmcct now l) = (if vlapic_lvtt_period l then n - ticks mod n else n - ticks)"
proof -
  have n: "0 < n" using tm by (simp add: n_def unat_gt_0)
  have "u64 (now + 2 ^ 64 - la_timer_last_update l) = now - la_timer_last_update l"
  proof -
    have "now + 2 ^ 64 - la_timer_last_update l = (now - la_timer_last_update l) + 2 ^ 64" using assms(1) by simp
    then show ?thesis using assms(2) by (simp only: u64_def mod_add_self2) simp
  qed
  moreover have "u32 (APIC_BUS_CYCLE_NS * la_timer_divisor l) = 10 * la_timer_divisor l"
    using assms(3) by (auto simp: APIC_BUS_CYCLE_NS_def)
  ultimately have t: "vlapic_get_tmcct now l =
      (let p = (if vlapic_lvtt_period l then ticks mod n else ticks)
       in if p < n then vlapic_get_reg l APIC_TMICT - word_of_nat p else 0)"
    using tm by (simp add: vlapic_get_tmcct_def ticks_def n_def Let_def)
  have "unat (vlapic_get_reg l APIC_TMICT - word_of_nat p) = n - p" if "p < n" for p
  proof -
    have "unat (word_of_nat p :: u32w) = p"
      using that unsigned_less [of "vlapic_get_reg l APIC_TMICT", where ?'a = nat] by (simp add: n_def unat_of_nat)
    then show ?thesis using that by (simp add: n_def unat_sub word_le_nat_alt)
  qed
  then show "unat (vlapic_get_tmcct now l) = (if vlapic_lvtt_period l then n - ticks mod n else n - ticks)"
    using n by (simp add: t Let_def)
qed

lemma tdcr_divisor: "la_timer_divisor (vlapic_set_tdcr val l) \<in> {1, 2, 4, 8, 16, 32, 64, 128}"
proof -
  have "unat (x AND 7) < 8" for x :: u32w
  proof -
    have "(7 :: u32w) = mask 3" by (simp add: mask_eq_exp_minus_1)
    then have "x AND 7 = take_bit 3 x" by (simp add: take_bit_eq_mask)
    then show ?thesis by (simp add: take_bit_eq_mod unat_mod)
  qed
  then obtain k where k: "la_timer_divisor (vlapic_set_tdcr val l) = 2 ^ k" "k < 8" by (auto simp: vlapic_set_tdcr_def Let_def)
  then have "k \<in> {0, 1, 2, 3, 4, 5, 6, 7}" by auto
  then show "la_timer_divisor (vlapic_set_tdcr val l) \<in> {1, 2, 4, 8, 16, 32, 64, 128}" using k(1) by auto
qed

text \<open>
  C29.  The timer count register, for a clock that has not run backwards since the last update and a divisor
  the guest can select; every divisor it selects is one of 1, 2, 4, up to 128.  With \<open>n\<close> the
  initial count: a one-shot count is \<open>n\<close> less the ticks passed, and 0 once they reach \<open>n\<close>.  A
  periodic count is \<open>n\<close> less the ticks passed in the current period; it is between 1 and \<open>n\<close>, unless \<open>n\<close> is
  0, as after a change of the timer mode, when the count is 0 in every mode.
\<close>

theorem vlapic_timer_count:
  assumes "la_timer_last_update l \<le> now" "now < 2 ^ 64" "la_timer_divisor l \<in> {1, 2, 4, 8, 16, 32, 64, 128}"
  defines "n \<equiv> unat (vlapic_get_reg l APIC_TMICT)"
    and "ticks \<equiv> (now - la_timer_last_update l) div (10 * la_timer_divisor l)"
  shows "unat (vlapic_get_tmcct now l) = (if n = 0 then 0 else if vlapic_lvtt_period l then n - ticks mod n else n - ticks) \<and>
    unat (vlapic_get_tmcct now l) \<le> n \<and> (vlapic_lvtt_period l \<and> n \<noteq> 0 \<longrightarrow> 0 < unat (vlapic_get_tmcct now l)) \<and>
    la_timer_divisor (vlapic_set_tdcr val l) \<in> {1, 2, 4, 8, 16, 32, 64, 128}"
proof -
  have "vlapic_get_tmcct now l = 0" if "n = 0"
    using that by (simp add: vlapic_get_tmcct_def n_def unat_eq_0)
  moreover have "unat (vlapic_get_tmcct now l) = (if vlapic_lvtt_period l then n - ticks mod n else n - ticks)" if "n \<noteq> 0"
    using that timer_count_eq [OF assms(1-3)] by (simp add: n_def ticks_def unat_eq_0)
  moreover have "0 < n - ticks mod n" if "n \<noteq> 0" using that by simp
  ultimately show ?thesis using tdcr_divisor [of val l] by auto
qed

theorem vlapic_timer_count_witness:
  "unat (vlapic_get_tmcct 1000 (vlapic_set_reg APIC_TMICT 80 sample_lapic)) = 30"
proof -
  let ?l = "vlapic_set_reg APIC_TMICT 80 sample_lapic"
  have l: "la_timer_last_update ?l \<le> 1000" "la_timer_divisor ?l = 2" "vlapic_get_reg ?l APIC_TMICT = 80" "\<not> vlapic_lvtt_period ?l"
    by (simp_all add: vlapic_set_reg_def vlapic_get_reg_def sample_lapic_def vlapic_lvtt_period_def apic_regs)
  show ?thesis using vlapic_timer_count [of ?l 1000 0] l by (simp add: vlapic_set_reg_def sample_lapic_def)
qed

end
