(* ===== verification/Spec2Isabelle.thy ===== *)
theory Spec2Isabelle
  imports V4v_Delivery V4v_Refused Rangeset_Domain Iocap Vlapic
begin

text \<open>
  Verification of parts of uXen, a hypervisor that runs guests under a host operating system.  Paths
  below are relative to \<open>src/\<close>.

  \<^bold>\<open>The program.\<close>  Guests and the host exchange messages over V4V: a receiver registers rings, a
  sender asks the hypervisor to copy a message into a ring, and the receiver takes it out of the pages
  of the ring without a hypercall.  The hypervisor tells a guest about news by an edge on interrupt
  line 7, which travels through the interrupt wires (\<open>xen/arch/x86/hvm/irq.c\<close>) to the virtual PICs and
  the IO-APIC, and from there to the local APIC of a virtual CPU.  What a domain may do with devices
  is kept in range sets.  The development models these parts: V4V, guest memory access, interrupt
  wires, PICs, local APIC, range sets.

  \<^bold>\<open>Conventions.\<close>  \<open>Uxen_Prelude\<close> holds machine integers, error codes and generic lemmas.  Unsigned numbers that
  are only added and compared are natural numbers with the wrap-around written out (\<open>u32\<close>, \<open>s32\<close>); those
  that are masked or hashed are words.  Operations return an \<open>errno\<close> or its absence with the new state.  A
  \<open>BUG\<close>, a failed \<open>BUG_ON\<close> or a use of a null pointer is visible: the flag \<open>xen_bug\<close> in V4V, the flag
  \<open>pic_bug\<close> in the PICs, \<open>None\<close> in the range sets.  The answers of code outside the model are fields of the records
  \<open>guest_env\<close>, \<open>v4v_env\<close> and \<open>hyp_env\<close>: page-table walks, the physical-to-machine map, whether an allocation
  or a page mapping succeeds, privileges.  No operation uses fuel: every loop is structural or has a
  termination proof (the page-wise copies by the bytes left, the loops over ranges by the ranges left).

  \<^bold>\<open>Guest memory.\<close>  \<open>Guest_Mem\<close> is \<open>__hvm_copy\<close> of \<open>xen/arch/x86/hvm/hvm.c\<close> for virtual addresses and the wrappers of
  \<open>xen/include/asm-x86/guest_access.h\<close>.  Memory is one map from frames and offsets to bytes, so buffers
  and rings may alias.

  \<^bold>\<open>V4V rings.\<close>  (\<open>xen/common/v4v.c\<close>, \<open>xen/include/public/v4v.h\<close>, \<open>xen/include/xen/v4v.h\<close>)
  \<^item> \<open>V4v_Ring\<close>: \<open>struct v4v_ring_info\<close> and the section "ring buffer", up to \<open>v4v_ringbuf_insert\<close>.
  \<^item> \<open>V4v_Ring_Copy\<close>: the page-wise copies as writes to one flat array; the invariant \<open>ri_wf\<close>.
  \<^item> \<open>V4v_Ring_Safety\<close>: an insertion writes only released ring bytes, whatever the guests do (C1).
  \<^item> \<open>V4v_Ring_Insert\<close>: the complete outcome of an insertion (C2).
  \<^item> \<open>V4v_Consumer\<close>: the inline receiver \<open>v4v_copy_out\<close> and \<open>v4v_copy_out_offset\<close>; reading in pieces (C20).
  \<^item> \<open>V4v_Fifo\<close>: the locale \<open>message_channel\<close>, interpreted on insertion and receiver; a ring is a reliable
    first-in first-out channel (C3).
  \<^item> \<open>V4v_Pending\<close>: the section "pending"; how the free space reported relates to what an insertion accepts
    (C8).

  \<^bold>\<open>V4V hypercalls.\<close>
  \<^item> \<open>V4v_Table\<close>: the hash table of a domain's rings; the locale \<open>keyed_table\<close>, interpreted on it (C9).
  \<^item> \<open>V4v_Domain\<close>: the state \<open>xen\<close>, domain lookups of \<open>xen/common/domain.c\<close>, \<open>v4v_signal_domain\<close>,
    \<open>v4v_validate_channel\<close>.
  \<^item> \<open>V4v_Hypercall\<close>: every operation of \<open>do_v4v_op\<close>, \<open>v4v_init\<close>, \<open>v4v_destroy\<close>, suspend and resume.
  \<^item> \<open>V4v_Frames\<close>, \<open>V4v_Policy\<close>, \<open>V4v_Isolation\<close>, \<open>V4v_Refs\<close>: the frames an operation writes and the page
    references it takes; an abstract access policy as an inductive step relation, which every
    hypercall refines; what a guest's steps can reach; counting references.
  \<^item> \<open>V4v_System\<close>: hypercalls of all domains in any order: policy, isolation of guests, exact page
    references (C10, C11, C12).
  \<^item> \<open>V4v_Delivery\<close>: a guest's send arrives in the queue the host reads (C13).
  \<^item> \<open>V4v_Notify\<close>: polling wakes the senders there is room for, a signal is one edge, what a question
    about a ring is answered and what the asker can make of it (C14, C15, C19).
  \<^item> \<open>V4v_Register\<close>: registering and removing (C16, C17).
  \<^item> \<open>V4v_Refused\<close>: what is refused, and that a refused call changes nothing (C18).

  \<^bold>\<open>Interrupts.\<close>
  \<^item> \<open>Vpic\<close> (\<open>xen/arch/x86/hvm/vpic.c\<close>): the two 8259s; the cascade stays consistent under every port access
    and edge, and acknowledging delivers the line of highest priority (C4, C5).
  \<^item> \<open>Hvm_Irq\<close> (\<open>xen/arch/x86/hvm/irq.c\<close>): wires, links and their counts; the counts are the numbers of wires
    asserted, also after a restore (C6, C7).
  \<^item> \<open>Vlapic\<close> (\<open>xen/arch/x86/hvm/vlapic.c\<close>): the operations on one local APIC; its bitmaps are sets of
    vectors, the highest request is offered, vectors in service nest, the timer count (C27, C28, C29).

  \<^bold>\<open>Range sets and capabilities.\<close>
  \<^item> \<open>Rangeset\<close> (\<open>xen/common/rangeset.c\<close>): the list of ranges, adding, removing, queries, reporting.  The list represents
    a set; adding is union, the queries decide inclusion, and removing an interval that reaches into
    a further range also adds the gap before it (C21 to C24).
  \<^item> \<open>Iocap\<close> (\<open>xen/include/xen/iocap.h\<close>, \<open>xen/include/asm-x86/iocap.h\<close>): the capability macros.  The locale \<open>cap_store\<close>,
    interpreted on the range sets and on the interrupt capabilities, carries the effect of the single calls
    over to sequences of grants and revocations (C25).
  \<^item> \<open>Rangeset_Domain\<close>: range sets on the heap and on the list of their domain (C26).

  \<^bold>\<open>Not modelled.\<close>  Locks: every operation is atomic.  Log messages and the printing of rings and range
  sets.  The \<open>ASSERT\<close>s, which only debugging builds check; \<open>ASSERT (s <= e)\<close> of the range sets is a hypothesis
  instead.  In the
  interrupt wires, MSI and the event-channel callback; in the PICs, saving and loading; in the local
  APIC, register writes, inter-processor interrupts, reset, saving and loading.  The IO-APIC: edges sent
  to it are recorded in order.
  Memory management, scheduling, timers, the device model, host and guest drivers and firmware are
  not modelled; where the modelled parts call them, their answers are parameters.
\<close>

end
